(* ===== verification/Prelude.thy ===== *)
theory Prelude
  imports Main "HOL-Library.Word" "HOL-Library.Code_Target_Numeral"
begin

text \<open>
  Shared vocabulary of the development: Go's time values and durations, the
  collections of rewrite and introduction rules the component theories extend,
  and the generic facts on lists and maps that several components use.

  A \<open>time.Time\<close> is an integer number of nanoseconds counted from Go's zero time
  (January 1, year 1, 00:00:00 UTC), so \<open>t.IsZero()\<close> is \<open>t = 0\<close>,
  \<open>t.Before(u)\<close> is \<open>t < u\<close>, \<open>t.After(u)\<close> is \<open>u < t\<close> and \<open>t.Add(d)\<close>
  is \<open>t + d\<close>.  A \<open>time.Duration\<close> is an integer number of nanoseconds.
\<close>

type_synonym time = int
type_synonym duration = int

definition second :: duration where
  "second = 1000000000"

definition minute :: duration where
  "minute = 60 * second"

definition hour :: duration where
  "hour = 60 * minute"

definition is_zero :: "time \<Rightarrow> bool" where
  "is_zero t \<longleftrightarrow> t = 0"

definition unix_epoch :: time where
  "unix_epoch = 62135596800 * second"

lemma second_pos [simp]: "0 < second" and minute_pos [simp]: "0 < minute"
  and hour_pos [simp]: "0 < hour"
  by (simp_all add: second_def minute_def hour_def)

lemmas duration_defs = second_def minute_def hour_def unix_epoch_def

named_theorems inv_intros \<open>introduction rules that establish component invariants\<close>
named_theorems step_simps \<open>field-by-field effect of component operations\<close>

subsection \<open>Maps\<close>

text \<open>Deleting every entry that a predicate selects, as Go's range-and-delete loops do.\<close>

definition drop_where :: "('k \<Rightarrow> 'v \<Rightarrow> bool) \<Rightarrow> ('k \<rightharpoonup> 'v) \<Rightarrow> ('k \<rightharpoonup> 'v)" where
  "drop_where P m = (\<lambda>k. case m k of None \<Rightarrow> None | Some v \<Rightarrow> if P k v then None else Some v)"

lemma drop_where_Some [simp]:
  "drop_where P m k = Some v \<longleftrightarrow> m k = Some v \<and> \<not> P k v"
  by (auto simp: drop_where_def split: option.splits)

lemma drop_where_None [simp]:
  "drop_where P m k = None \<longleftrightarrow> (\<forall>v. m k = Some v \<longrightarrow> P k v)"
  by (auto simp: drop_where_def split: option.splits)

lemma dom_drop_where_subset: "dom (drop_where P m) \<subseteq> dom m"
  by (auto simp: dom_def)

lemma finite_dom_drop_where [simp, intro]: "finite (dom m) \<Longrightarrow> finite (dom (drop_where P m))"
  by (rule finite_subset[OF dom_drop_where_subset])

lemma card_dom_drop_where: "finite (dom m) \<Longrightarrow> card (dom (drop_where P m)) \<le> card (dom m)"
  by (rule card_mono) (auto simp: dom_def)

subsection \<open>Lists\<close>

text \<open>Go's \<open>x != nil && len(x) > n\<close> style trimming keeps the newest elements of a queue.\<close>

lemma distinct_tl_append: "distinct (xs @ [x]) \<Longrightarrow> distinct (tl xs @ [x])"
  by (cases xs) auto

lemma sorted_split_at:
  fixes xs :: "int list"
  assumes "sorted xs"
  shows "xs = filter (\<lambda>x. x < a) xs @ filter (\<lambda>x. a \<le> x) xs"
  using assms
proof (induction xs)
  case (Cons x xs)
  show ?case
  proof (cases "x < a")
    case False
    with Cons.prems have "\<forall>y \<in> set xs. \<not> y < a" by auto
    then have "filter (\<lambda>y. y < a) xs = []" by (simp add: filter_empty_conv)
    with False Cons show ?thesis by simp
  qed (use Cons in simp)
qed simp

lemma length_filter_Cons:
  "length (filter P (x # xs)) = (if P x then 1 else 0) + length (filter P xs)"
  by simp

end
