(* ===== verification/Signal_Types.thy ===== *)
theory Signal_Types
  imports Prelude
begin

text \<open>
  The message vocabulary of \<open>internal/protocol/signaling.go\<close> and
  \<open>control.go\<close>: the string-valued enumerations \<open>SignalType\<close> and
  \<open>ControlType\<close> as datatypes with their wire names, the classification
  predicates on them, the size and length limits, and the message structs.
\<close>

subsection \<open>Limits\<close>

definition ProtocolVersion :: int where "ProtocolVersion = 2"
definition MaxSignalMessageSize :: nat where "MaxSignalMessageSize = 65536"
definition MaxSDPMessageSize :: nat where "MaxSDPMessageSize = 262144"
definition MaxICECandidateSize :: nat where "MaxICECandidateSize = 4096"
definition MaxICECandidates :: nat where "MaxICECandidates = 256"
definition MinBaseNameLength :: nat where "MinBaseNameLength = 3"
definition MaxBaseNameLength :: nat where "MaxBaseNameLength = 19"
definition FingerprintLength :: nat where "FingerprintLength = 52"
definition AddressSuffixLength :: nat where "AddressSuffixLength = 12"
definition MaxAddressLength :: nat where
  "MaxAddressLength = MaxBaseNameLength + 1 + AddressSuffixLength"
definition MaxControlMessageSize :: nat where "MaxControlMessageSize = 16384"
definition MaxChatTextSize :: nat where "MaxChatTextSize = 4096"

lemmas protocol_limits =
  ProtocolVersion_def MaxSignalMessageSize_def MaxSDPMessageSize_def MaxICECandidateSize_def
  MaxICECandidates_def MinBaseNameLength_def MaxBaseNameLength_def FingerprintLength_def
  AddressSuffixLength_def MaxAddressLength_def MaxControlMessageSize_def MaxChatTextSize_def

subsection \<open>Signal types\<close>

text \<open>
  \<open>SignalType\<close> is a Go string type with nineteen declared constants.  The last
  constructor stands for any other string value.
\<close>

datatype signal_type =
    SignalSessionHello | SignalSessionReady | SignalSessionPing | SignalSessionPong
  | SignalSessionError | SignalPresenceQuery | SignalPresenceResult | SignalCallInvite
  | SignalCallRinging | SignalCallAccept | SignalCallDecline | SignalCallCancel
  | SignalCallBusy | SignalCallTimeout | SignalCallEnd | SignalWebRTCOffer
  | SignalWebRTCAnswer | SignalWebRTCICE | SignalWebRTCICEComplete
  | OtherSignal string

fun signal_name :: "signal_type \<Rightarrow> string" where
  "signal_name SignalSessionHello = ''session.hello''"
| "signal_name SignalSessionReady = ''session.ready''"
| "signal_name SignalSessionPing = ''session.ping''"
| "signal_name SignalSessionPong = ''session.pong''"
| "signal_name SignalSessionError = ''session.error''"
| "signal_name SignalPresenceQuery = ''presence.query''"
| "signal_name SignalPresenceResult = ''presence.result''"
| "signal_name SignalCallInvite = ''call.invite''"
| "signal_name SignalCallRinging = ''call.ringing''"
| "signal_name SignalCallAccept = ''call.accept''"
| "signal_name SignalCallDecline = ''call.decline''"
| "signal_name SignalCallCancel = ''call.cancel''"
| "signal_name SignalCallBusy = ''call.busy''"
| "signal_name SignalCallTimeout = ''call.timeout''"
| "signal_name SignalCallEnd = ''call.end''"
| "signal_name SignalWebRTCOffer = ''webrtc.offer''"
| "signal_name SignalWebRTCAnswer = ''webrtc.answer''"
| "signal_name SignalWebRTCICE = ''webrtc.ice''"
| "signal_name SignalWebRTCICEComplete = ''webrtc.ice_complete''"
| "signal_name (OtherSignal s) = s"

text \<open>The nineteen keys of \<open>knownSignalTypes\<close>.\<close>

definition known_signals :: "signal_type list" where
  "known_signals =
    [SignalSessionHello, SignalSessionReady, SignalSessionPing, SignalSessionPong,
     SignalSessionError, SignalPresenceQuery, SignalPresenceResult, SignalCallInvite,
     SignalCallRinging, SignalCallAccept, SignalCallDecline, SignalCallCancel,
     SignalCallBusy, SignalCallTimeout, SignalCallEnd, SignalWebRTCOffer,
     SignalWebRTCAnswer, SignalWebRTCICE, SignalWebRTCICEComplete]"

definition signal_of :: "string \<Rightarrow> signal_type" where
  "signal_of s = (case List.find (\<lambda>t. signal_name t = s) known_signals of
      Some t \<Rightarrow> t | None \<Rightarrow> OtherSignal s)"

definition IsKnown :: "signal_type \<Rightarrow> bool" where
  "IsKnown t \<longleftrightarrow> signal_name t \<in> signal_name ` set known_signals"

fun IsSDP :: "signal_type \<Rightarrow> bool" where
  "IsSDP t = (t = SignalWebRTCOffer \<or> t = SignalWebRTCAnswer)"

fun RequiresCallID :: "signal_type \<Rightarrow> bool" where
  "RequiresCallID t \<longleftrightarrow> t \<in> set
    [SignalCallInvite, SignalCallRinging, SignalCallAccept, SignalCallDecline,
     SignalCallCancel, SignalCallBusy, SignalCallTimeout, SignalCallEnd,
     SignalWebRTCOffer, SignalWebRTCAnswer, SignalWebRTCICE, SignalWebRTCICEComplete]"

lemma signal_name_signal_of [simp]: "signal_name (signal_of s) = s"
  by (auto simp: signal_of_def find_Some_iff split: option.splits)

lemma signal_of_signal_name: "t \<in> set known_signals \<Longrightarrow> signal_of (signal_name t) = t"
proof -
  have "list_all (\<lambda>t. signal_of (signal_name t) = t) known_signals" by code_simp
  then show "t \<in> set known_signals \<Longrightarrow> signal_of (signal_name t) = t"
    by (simp add: list_all_iff)
qed

subsection \<open>Control types\<close>

datatype control_type =
    ControlPeerHello | ControlChatMessage | ControlVideoKeyframe | ControlAudioState
  | ControlSessionHangup | OtherControl string

fun control_name :: "control_type \<Rightarrow> string" where
  "control_name ControlPeerHello = ''peer.hello''"
| "control_name ControlChatMessage = ''chat.message''"
| "control_name ControlVideoKeyframe = ''video.keyframe_request''"
| "control_name ControlAudioState = ''audio.state''"
| "control_name ControlSessionHangup = ''session.hangup''"
| "control_name (OtherControl s) = s"

definition known_controls :: "control_type list" where
  "known_controls = [ControlPeerHello, ControlChatMessage, ControlVideoKeyframe,
     ControlAudioState, ControlSessionHangup]"

definition control_of :: "string \<Rightarrow> control_type" where
  "control_of s = (case List.find (\<lambda>t. control_name t = s) known_controls of
      Some t \<Rightarrow> t | None \<Rightarrow> OtherControl s)"

definition control_IsKnown :: "control_type \<Rightarrow> bool" where
  "control_IsKnown t \<longleftrightarrow> control_name t \<in> control_name ` set known_controls"

lemma control_name_control_of [simp]: "control_name (control_of s) = s"
  by (auto simp: control_of_def find_Some_iff split: option.splits)

subsection \<open>Messages\<close>

text \<open>
  \<open>Payload\<close> is a \<open>json.RawMessage\<close>: the undecoded JSON text, empty when absent.
\<close>

record signal_message =
  sm_version :: int
  sm_id :: string
  sm_type :: signal_type
  sm_timestamp :: time
  sm_call_id :: string
  sm_from :: string
  sm_to :: string
  sm_payload :: string

record control_message =
  cm_version :: int
  cm_id :: string
  cm_type :: control_type
  cm_sent_at :: time
  cm_payload :: string

end
