(* ===== verification/Rate_Limit.thy ===== *)
theory Rate_Limit
  imports Prelude
begin

text \<open>
  The invitation rate limiters of \<open>internal/server/websocket/ratelimit.go\<close>: a fixed
  window per connection and a table of fixed windows per user.  The contract of one
  window is the locale \<open>window_limiter\<close>; the per-user table is shown to behave as
  one independent window per user although it prunes expired windows of every user on
  each call.
\<close>

subsection \<open>The limiters\<close>

record fixed_limiter =
  fl_limit :: int
  fl_window :: duration
  fl_start :: time
  fl_count :: int

record window_counter =
  wc_start :: time
  wc_count :: int

record keyed_limiter =
  kl_limit :: int
  kl_window :: duration
  kl_counters :: "string \<rightharpoonup> window_counter"

definition newFixedWindowLimiter :: "int \<Rightarrow> duration \<Rightarrow> fixed_limiter" where
  "newFixedWindowLimiter limit window =
    \<lparr>fl_limit = limit, fl_window = window, fl_start = 0, fl_count = 0\<rparr>"

definition newKeyedFixedWindowLimiter :: "int \<Rightarrow> duration \<Rightarrow> keyed_limiter" where
  "newKeyedFixedWindowLimiter limit window =
    \<lparr>kl_limit = limit, kl_window = window, kl_counters = Map.empty\<rparr>"

definition fixed_allow :: "fixed_limiter \<Rightarrow> time \<Rightarrow> fixed_limiter \<times> bool" where
  "fixed_allow l now = (
    let l = (if is_zero (fl_start l) \<or> \<not> now < fl_start l + fl_window l
             then l\<lparr>fl_start := now, fl_count := 0\<rparr> else l)
    in if fl_limit l \<le> fl_count l then (l, False)
       else (l\<lparr>fl_count := fl_count l + 1\<rparr>, True))"

definition keyed_allow :: "string \<Rightarrow> time \<Rightarrow> keyed_limiter \<Rightarrow> keyed_limiter \<times> bool" where
  "keyed_allow key now l = (
    let l = l\<lparr>kl_counters := drop_where (\<lambda>k c. \<not> now < wc_start c + kl_window l) (kl_counters l)\<rparr>;
        counter = (case kl_counters l key of Some c \<Rightarrow> c | None \<Rightarrow> \<lparr>wc_start = 0, wc_count = 0\<rparr>);
        counter = (if is_zero (wc_start counter) then counter\<lparr>wc_start := now\<rparr> else counter)
    in if kl_limit l \<le> wc_count counter
       then (l\<lparr>kl_counters := (kl_counters l)(key \<mapsto> counter)\<rparr>, False)
       else let counter = counter\<lparr>wc_count := wc_count counter + 1\<rparr>
            in (l\<lparr>kl_counters := (kl_counters l)(key \<mapsto> counter)\<rparr>, True))"

subsection \<open>The contract of one window\<close>

text \<open>The times at which a sequence of requests was granted.\<close>

fun granted :: "('s \<Rightarrow> time \<Rightarrow> 's \<times> bool) \<Rightarrow> 's \<Rightarrow> time list \<Rightarrow> time list" where
  "granted allow s [] = []"
| "granted allow s (t # ts) =
    (if snd (allow s t) then t # granted allow (fst (allow s t)) ts
     else granted allow (fst (allow s t)) ts)"

definition within :: "time \<Rightarrow> time \<Rightarrow> time list \<Rightarrow> time list" where
  "within a b ts = filter (\<lambda>t. a \<le> t \<and> t < b) ts"

lemma within_simps [simp]:
  "within a b [] = []"
  "within a b (t # ts) = (if a \<le> t \<and> t < b then t # within a b ts else within a b ts)"
  by (simp_all add: within_def)

lemma set_granted: "set (granted allow s ts) \<subseteq> set ts"
  by (induction ts arbitrary: s) auto

lemma within_late: "\<forall>t \<in> set ts. b \<le> t \<Longrightarrow> within a b (granted allow s ts) = []"
  using set_granted[of allow s ts] by (fastforce simp: within_def filter_empty_conv)

locale window_limiter =
  fixes allow :: "'s \<Rightarrow> time \<Rightarrow> 's \<times> bool"
    and start :: "'s \<Rightarrow> time" and used :: "'s \<Rightarrow> int"
    and limit :: "'s \<Rightarrow> int" and window :: "'s \<Rightarrow> duration" and wf :: "'s \<Rightarrow> bool"
  assumes frame: "limit (fst (allow s t)) = limit s" "window (fst (allow s t)) = window s"
    and wf_allow: "wf s \<Longrightarrow> 0 < t \<Longrightarrow> wf (fst (allow s t))"
    and fresh: "wf s \<Longrightarrow> 0 < t \<Longrightarrow> start s = 0 \<or> start s + window s \<le> t \<Longrightarrow>
      start (fst (allow s t)) = t \<and> snd (allow s t) = (0 < limit s) \<and>
      used (fst (allow s t)) = (if 0 < limit s then 1 else 0)"
    and current: "wf s \<Longrightarrow> 0 < t \<Longrightarrow> start s \<noteq> 0 \<Longrightarrow> t < start s + window s \<Longrightarrow>
      start (fst (allow s t)) = start s \<and> snd (allow s t) = (used s < limit s) \<and>
      used (fst (allow s t)) = used s + (if used s < limit s then 1 else 0)"
begin

text \<open>
  How many more grants can fall into the interval from \<open>a\<close> to \<open>b\<close>, all requests being
  at \<open>a\<close> or later: what is left of the current window, and one further window unless
  the current one was opened inside the interval.
\<close>

definition headroom :: "time \<Rightarrow> 's \<Rightarrow> int" where
  "headroom a s = (if start s = 0 then limit s
     else if a \<le> start s then limit s - used s
     else (limit s - used s) + limit s)"

lemma grants_bounded:
  assumes "wf s" "sorted ts" "\<forall>t \<in> set ts. 0 < t \<and> a \<le> t" "b \<le> a + window s" "0 < a"
    and "0 < limit s" "start s \<noteq> 0 \<longrightarrow> 1 \<le> used s \<and> used s \<le> limit s"
  shows "int (length (within a b (granted allow s ts))) \<le> headroom a s"
  using assms
proof (induction ts arbitrary: s)
  case Nil
  then show ?case by (auto simp: headroom_def)
next
  case (Cons t ts)
  let ?s = "fst (allow s t)"
  have t: "0 < t" "a \<le> t" using Cons.prems by auto
  show ?case
  proof (cases "start s \<noteq> 0 \<and> a \<le> start s \<and> start s + window s \<le> t")
    case True
    then have "\<forall>u \<in> set (t # ts). b \<le> u" using Cons.prems by auto
    then have "within a b (granted allow s (t # ts)) = []" by (rule within_late)
    then show ?thesis using Cons.prems by (auto simp: headroom_def)
  next
    case False
    have step: "int (length (within a b (granted allow ?s ts))) \<le> headroom a ?s"
    proof (rule Cons.IH)
      show "wf ?s" using Cons.prems(1) t by (auto intro: wf_allow)
      show "start ?s \<noteq> 0 \<longrightarrow> 1 \<le> used ?s \<and> used ?s \<le> limit ?s"
        using Cons.prems fresh[OF Cons.prems(1) t(1)] current[OF Cons.prems(1) t(1)] frame
        by (cases "start s = 0 \<or> start s + window s \<le> t") auto
    qed (use Cons.prems frame in auto)
    have "headroom a ?s + (if snd (allow s t) then 1 else 0) \<le> headroom a s"
    proof (cases "start s = 0 \<or> start s + window s \<le> t")
      case True
      with False have "start s = 0 \<or> start s < a" by auto
      with fresh[OF Cons.prems(1) t(1) True] t Cons.prems frame show ?thesis
        by (auto simp: headroom_def)
    next
      case cur: False
      with current[OF Cons.prems(1) t(1)] frame show ?thesis by (auto simp: headroom_def)
    qed
    with step show ?thesis by (auto split: if_splits)
  qed
qed

lemma granted_split:
  assumes "sorted ts" "\<forall>t \<in> set ts. 0 < t" "wf s"
    and ok: "0 < limit s" "start s \<noteq> 0 \<longrightarrow> 1 \<le> used s \<and> used s \<le> limit s"
  obtains s' where "within a b (granted allow s ts) =
      within a b (granted allow s' (filter (\<lambda>t. a \<le> t) ts))" "wf s'" "limit s' = limit s"
    "window s' = window s" "start s' \<noteq> 0 \<longrightarrow> 1 \<le> used s' \<and> used s' \<le> limit s'"
  using assms
proof (induction ts arbitrary: s thesis)
  case Nil
  then show ?case by simp
next
  case (Cons t ts)
  show ?case
  proof (cases "a \<le> t")
    case True
    then have "filter (\<lambda>t. a \<le> t) (t # ts) = t # ts"
      using Cons.prems(2) by (fastforce intro: filter_True)
    then show ?thesis using Cons.prems by metis
  next
    case False
    let ?s = "fst (allow s t)"
    have t: "0 < t" using Cons.prems by simp
    have "wf ?s" using Cons.prems(4) t by (rule wf_allow)
    moreover have "start ?s \<noteq> 0 \<longrightarrow> 1 \<le> used ?s \<and> used ?s \<le> limit ?s"
      using Cons.prems fresh[OF Cons.prems(4) t] current[OF Cons.prems(4) t] frame
      by (cases "start s = 0 \<or> start s + window s \<le> t") auto
    ultimately show ?thesis
      using Cons.IH[of ?s thesis] Cons.prems False frame by auto
  qed
qed

text \<open>Fewer than twice the limit in any interval of one window's length, wherever it begins.\<close>

lemma grants_per_interval:
  assumes "sorted ts" "\<forall>t \<in> set ts. 0 < t" "wf s" "start s = 0" "0 < limit s" "0 < a"
  shows "int (length (within a (a + window s) (granted allow s ts))) \<le> 2 * limit s - 1"
proof -
  obtain s' where s': "within a (a + window s) (granted allow s ts) =
      within a (a + window s) (granted allow s' (filter (\<lambda>t. a \<le> t) ts))" "wf s'"
    "limit s' = limit s" "window s' = window s"
    "start s' \<noteq> 0 \<longrightarrow> 1 \<le> used s' \<and> used s' \<le> limit s'"
    using granted_split[OF assms(1,2,3,5), of a "a + window s"] assms(4) by metis
  have "int (length (within a (a + window s) (granted allow s' (filter (\<lambda>t. a \<le> t) ts)))) \<le> headroom a s'"
    using assms s' by (intro grants_bounded) (auto intro: sorted_filter[of id, simplified])
  also have "headroom a s' \<le> 2 * limit s - 1" using s' assms(5) by (auto simp: headroom_def)
  finally show ?thesis using s'(1) by simp
qed

end

interpretation per_connection: window_limiter fixed_allow fl_start fl_count fl_limit fl_window "\<lambda>_. True"
  by unfold_locales (auto simp: fixed_allow_def is_zero_def Let_def)


text \<open>
  One user's entry of the keyed table, seen on its own, obeys the same contract, as
  long as stored windows have a non-zero start.
\<close>

definition key_start :: "string \<Rightarrow> keyed_limiter \<Rightarrow> time" where
  "key_start k l = (case kl_counters l k of Some c \<Rightarrow> wc_start c | None \<Rightarrow> 0)"

definition key_used :: "string \<Rightarrow> keyed_limiter \<Rightarrow> int" where
  "key_used k l = (case kl_counters l k of Some c \<Rightarrow> wc_count c | None \<Rightarrow> 0)"

definition keyed_wf :: "keyed_limiter \<Rightarrow> bool" where
  "keyed_wf l \<longleftrightarrow> (\<forall>k c. kl_counters l k = Some c \<longrightarrow> 0 < wc_start c)"

lemma keyed_wf_allow: "keyed_wf l \<Longrightarrow> 0 < now \<Longrightarrow> keyed_wf (fst (keyed_allow key now l))"
  by (auto simp: keyed_allow_def keyed_wf_def is_zero_def Let_def split: option.splits)

lemma keyed_allow_frame [simp]:
  "kl_limit (fst (keyed_allow key now l)) = kl_limit l"
  "kl_window (fst (keyed_allow key now l)) = kl_window l"
  by (simp_all add: keyed_allow_def Let_def)

interpretation per_user: window_limiter "\<lambda>l t. keyed_allow k t l" "key_start k" "key_used k"
    kl_limit kl_window keyed_wf for k
proof unfold_locales
  fix l :: keyed_limiter and t :: time
  assume wf: "keyed_wf l" and t: "0 < t"
  then show "keyed_wf (fst (keyed_allow k t l))" by (rule keyed_wf_allow)
  {
    assume "key_start k l = 0 \<or> key_start k l + kl_window l \<le> t"
    then show "key_start k (fst (keyed_allow k t l)) = t \<and>
        snd (keyed_allow k t l) = (0 < kl_limit l) \<and>
        key_used k (fst (keyed_allow k t l)) = (if 0 < kl_limit l then 1 else 0)"
    proof (cases "kl_counters l k")
      case (Some c)
      moreover from this wf have "0 < wc_start c" by (simp add: keyed_wf_def)
      ultimately show ?thesis
        using t \<open>key_start k l = 0 \<or> key_start k l + kl_window l \<le> t\<close>
        by (auto simp: keyed_allow_def key_start_def key_used_def is_zero_def Let_def drop_where_def)
    qed (use t in \<open>auto simp: keyed_allow_def key_start_def key_used_def is_zero_def Let_def drop_where_def\<close>)
  next
    assume "key_start k l \<noteq> 0" "t < key_start k l + kl_window l"
    then show "key_start k (fst (keyed_allow k t l)) = key_start k l \<and>
        snd (keyed_allow k t l) = (key_used k l < kl_limit l) \<and>
        key_used k (fst (keyed_allow k t l)) = key_used k l + (if key_used k l < kl_limit l then 1 else 0)"
      by (auto simp: keyed_allow_def key_start_def key_used_def is_zero_def Let_def drop_where_def
          split: option.splits)
  }
qed simp_all

subsection \<open>The keyed table is one window per user\<close>

fun keyed_run :: "keyed_limiter \<Rightarrow> (string \<times> time) list \<Rightarrow> bool list" where
  "keyed_run l [] = []"
| "keyed_run l ((k, t) # evs) = snd (keyed_allow k t l) # keyed_run (fst (keyed_allow k t l)) evs"

fun separate_run :: "(string \<Rightarrow> fixed_limiter) \<Rightarrow> (string \<times> time) list \<Rightarrow> bool list" where
  "separate_run F [] = []"
| "separate_run F ((k, t) # evs) =
    snd (fixed_allow (F k) t) # separate_run (F(k := fst (fixed_allow (F k) t))) evs"

text \<open>
  The simulation: a stored counter is the user's window; a missing counter stands for
  a window that was never opened or had run out at the last call.
\<close>

definition keyed_sim :: "time \<Rightarrow> keyed_limiter \<Rightarrow> (string \<Rightarrow> fixed_limiter) \<Rightarrow> bool" where
  "keyed_sim prev l F \<longleftrightarrow> (\<forall>k. fl_limit (F k) = kl_limit l \<and> fl_window (F k) = kl_window l \<and>
     (case kl_counters l k of
        Some c \<Rightarrow> 0 < wc_start c \<and> fl_start (F k) = wc_start c \<and> fl_count (F k) = wc_count c
      | None \<Rightarrow> fl_start (F k) = 0 \<or> fl_start (F k) + kl_window l \<le> prev))"

lemma keyed_sim_step:
  assumes "keyed_sim prev l F" "prev \<le> t" "0 < t"
  shows "snd (keyed_allow k t l) = snd (fixed_allow (F k) t)"
    and "keyed_sim t (fst (keyed_allow k t l)) (F(k := fst (fixed_allow (F k) t)))"
proof -
  have *: "fl_limit (F j) = kl_limit l" "fl_window (F j) = kl_window l"
    "case kl_counters l j of
        Some c \<Rightarrow> 0 < wc_start c \<and> fl_start (F j) = wc_start c \<and> fl_count (F j) = wc_count c
      | None \<Rightarrow> fl_start (F j) = 0 \<or> fl_start (F j) + kl_window l \<le> prev" for j
    using assms(1) by (auto simp: keyed_sim_def)
  show "snd (keyed_allow k t l) = snd (fixed_allow (F k) t)"
    using *[of k] assms(2,3)
    by (auto simp: keyed_allow_def fixed_allow_def is_zero_def Let_def drop_where_def
        split: option.splits)
  show "keyed_sim t (fst (keyed_allow k t l)) (F(k := fst (fixed_allow (F k) t)))"
    unfolding keyed_sim_def
  proof (intro allI)
    fix j
    show "fl_limit ((F(k := fst (fixed_allow (F k) t))) j) = kl_limit (fst (keyed_allow k t l)) \<and>
      fl_window ((F(k := fst (fixed_allow (F k) t))) j) = kl_window (fst (keyed_allow k t l)) \<and>
      (case kl_counters (fst (keyed_allow k t l)) j of
        Some c \<Rightarrow> 0 < wc_start c \<and> fl_start ((F(k := fst (fixed_allow (F k) t))) j) = wc_start c \<and>
           fl_count ((F(k := fst (fixed_allow (F k) t))) j) = wc_count c
      | None \<Rightarrow> fl_start ((F(k := fst (fixed_allow (F k) t))) j) = 0 \<or>
          fl_start ((F(k := fst (fixed_allow (F k) t))) j) + kl_window (fst (keyed_allow k t l)) \<le> t)"
      using *[of j] assms(2,3)
      by (cases "j = k") (auto simp: keyed_allow_def fixed_allow_def is_zero_def Let_def
          drop_where_def split: option.splits)
  qed
qed

lemma keyed_run_separate:
  assumes "keyed_sim prev l F" "sorted (map snd evs)" "\<forall>(k, t) \<in> set evs. prev \<le> t \<and> 0 < t"
  shows "keyed_run l evs = separate_run F evs"
  using assms
proof (induction evs arbitrary: prev l F)
  case (Cons ev evs)
  obtain k t where ev: "ev = (k, t)" by (cases ev)
  with Cons.prems have t: "prev \<le> t" "0 < t" by auto
  note step = keyed_sim_step[OF Cons.prems(1) t, of k]
  have "keyed_run (fst (keyed_allow k t l)) evs = separate_run (F(k := fst (fixed_allow (F k) t))) evs"
    using Cons.prems(2,3) ev by (intro Cons.IH[OF step(2)]) auto
  with step(1) ev show ?case by simp
qed simp

lemma keyed_sim_new:
  "keyed_sim prev (newKeyedFixedWindowLimiter limit window) (\<lambda>_. newFixedWindowLimiter limit window)"
  by (simp add: keyed_sim_def newKeyedFixedWindowLimiter_def newFixedWindowLimiter_def)

text \<open>The times at which user \<open>k\<close> was granted, in a run that interleaves users.\<close>

definition grants_of :: "string \<Rightarrow> (string \<times> time) list \<Rightarrow> bool list \<Rightarrow> time list" where
  "grants_of k evs bs = map (\<lambda>p. snd (fst p)) (filter (\<lambda>p. fst (fst p) = k \<and> snd p) (zip evs bs))"

lemma grants_of_separate:
  "grants_of k evs (separate_run F evs) =
    granted fixed_allow (F k) (map snd (filter (\<lambda>ev. fst ev = k) evs))"
proof (induction evs arbitrary: F)
  case (Cons ev evs)
  obtain j t where ev: "ev = (j, t)" by (cases ev)
  show ?case
    using Cons[of "F(j := fst (fixed_allow (F j) t))"]
    by (cases "j = k") (auto simp: ev grants_of_def fun_upd_def cong: if_cong)
qed (simp add: grants_of_def)

subsection \<open>Properties\<close>

text \<open>
  C14: the per-user limiter decides every request as a separate fixed window per user
  would, whatever the interleaving of users and although each call prunes the windows
  of all users, provided the clock does not run backwards.
\<close>

theorem keyed_limiter_refines_separate_windows:
  assumes "sorted (map snd evs)" "\<forall>(k, t) \<in> set evs. 0 < t"
  shows "keyed_run (newKeyedFixedWindowLimiter limit window) evs =
    separate_run (\<lambda>_. newFixedWindowLimiter limit window) evs"
  using assms by (intro keyed_run_separate[OF keyed_sim_new, of _ 0]) auto

theorem keyed_limiter_refines_separate_windows_witness:
  "keyed_run (newKeyedFixedWindowLimiter 1 10) [(''a'', 5), (''b'', 6), (''a'', 7), (''a'', 15)] =
    [True, True, False, True] \<and>
   separate_run (\<lambda>_. newFixedWindowLimiter 1 10) [(''a'', 5), (''b'', 6), (''a'', 7), (''a'', 15)] =
    [True, True, False, True]"
  using keyed_limiter_refines_separate_windows
    [of "[(''a'', 5), (''b'', 6), (''a'', 7), (''a'', 15)]" 1 10]
  by (simp add: fixed_allow_def newFixedWindowLimiter_def is_zero_def)

text \<open>
  whatever the requests of other users, one user is granted fewer than twice
  the limit of call invitations in any interval of one window's length, wherever it begins.
\<close>

theorem invitations_per_interval:
  assumes "sorted (map snd evs)" "\<forall>(k, t) \<in> set evs. 0 < t" "0 < limit" "0 < a"
  shows "int (length (within a (a + window)
      (grants_of k evs (keyed_run (newKeyedFixedWindowLimiter limit window) evs)))) \<le> 2 * limit - 1"
proof -
  let ?l = "newFixedWindowLimiter limit window"
  have "keyed_run (newKeyedFixedWindowLimiter limit window) evs = separate_run (\<lambda>_. ?l) evs"
    using assms(1,2) by (intro keyed_run_separate[OF keyed_sim_new, of _ 0]) auto
  moreover have "0 < t" if "(k, t) \<in> set evs" for t using assms(2) that by auto
  ultimately show ?thesis
    using per_connection.grants_per_interval[of "map snd (filter (\<lambda>ev. fst ev = k) evs)" ?l a] assms
    by (simp add: grants_of_separate newFixedWindowLimiter_def sorted_filter)
qed

text \<open>The bound is reached when a full window ends just as the next one fills.\<close>

theorem invitations_per_interval_witness:
  "let evs = [(''a'', 5), (''b'', 13), (''a'', 14), (''a'', 15), (''b'', 15), (''a'', 16), (''a'', 17)] in
   length (within 14 24 (grants_of ''a'' evs (keyed_run (newKeyedFixedWindowLimiter 2 10) evs))) = 3 \<and>
   int (length (within 14 (14 + 10)
     (grants_of ''a'' evs (keyed_run (newKeyedFixedWindowLimiter 2 10) evs)))) \<le> 2 * 2 - 1"
proof -
  let ?evs = "[(''a'', 5), (''b'', 13), (''a'', 14), (''a'', 15), (''b'', 15), (''a'', 16), (''a'', 17)]"
  have "length (within 14 24 (grants_of ''a'' ?evs (keyed_run (newKeyedFixedWindowLimiter 2 10) ?evs))) = 3"
    by code_simp
  then show ?thesis
    using invitations_per_interval[of ?evs 2 14 10 "''a''"] by (simp add: Let_def)
qed

end
