(* ===== verification/Dedup.thy ===== *)
theory Dedup
  imports Prelude
begin

text \<open>
  The contract of a bounded duplicate filter on message identifiers.  Two components
  keep one: a signaling connection of the server (\<open>clientConnection.duplicate\<close>) and a
  peer (\<open>Peer.seen\<close>).  Both hold a set of identifiers, the order they arrived in and a
  limit; the lemmas here are proved once and interpreted on both.
\<close>

definition lastn :: "nat \<Rightarrow> 'a list \<Rightarrow> 'a list" where
  "lastn n xs = drop (length xs - n) xs"

lemma length_lastn [simp]: "length (lastn n xs) = min n (length xs)"
  by (simp add: lastn_def)

lemma set_lastn_subset: "set (lastn n xs) \<subseteq> set xs"
  by (simp add: lastn_def set_drop_subset)

lemma nth_in_lastn:
  assumes "k < length xs" "length xs \<le> k + n"
  shows "xs ! k \<in> set (lastn n xs)"
proof -
  have "xs ! k = lastn n xs ! (k - (length xs - n))" using assms by (simp add: lastn_def)
  moreover have "k - (length xs - n) < length (lastn n xs)" using assms by auto
  ultimately show ?thesis by (metis nth_mem)
qed

lemma lastn_snoc:
  "lastn n (xs @ [x]) =
    (if n < length (lastn n xs @ [x]) then tl (lastn n xs @ [x]) else lastn n xs @ [x])"
proof (cases "n \<le> length xs")
  case True
  then have "length (xs @ [x]) - n = Suc (length xs - n)" by simp
  then have "lastn n (xs @ [x]) = tl (drop (length xs - n) (xs @ [x]))"
    unfolding lastn_def by (simp only: drop_Suc drop_tl)
  moreover have "drop (length xs - n) (xs @ [x]) = lastn n xs @ [x]" by (simp add: lastn_def)
  ultimately show ?thesis using True by simp
qed (simp add: lastn_def)

text \<open>Feeding a list of identifiers through a filter; the identifiers let through.\<close>

fun pass :: "(string \<Rightarrow> 's \<Rightarrow> 's \<times> bool) \<Rightarrow> 's \<Rightarrow> string list \<Rightarrow> 's \<times> string list" where
  "pass check s [] = (s, [])"
| "pass check s (i # is) =
    (let (s1, dup) = check i s; (s2, out) = pass check s1 is
     in (s2, if dup then out else i # out))"

locale id_window =
  fixes check :: "string \<Rightarrow> 's \<Rightarrow> 's \<times> bool"
    and ids :: "'s \<Rightarrow> string set" and order :: "'s \<Rightarrow> string list" and cap :: "'s \<Rightarrow> nat"
  assumes known: "i \<in> ids s \<Longrightarrow> check i s = (s, True)"
    and unknown: "i \<notin> ids s \<Longrightarrow> \<not> snd (check i s) \<and> cap (fst (check i s)) = cap s \<and>
      (if cap s < length (order s @ [i])
       then order (fst (check i s)) = tl (order s @ [i]) \<and>
            ids (fst (check i s)) = insert i (ids s) - {hd (order s @ [i])}
       else order (fst (check i s)) = order s @ [i] \<and> ids (fst (check i s)) = insert i (ids s))"
begin

definition window_inv :: "'s \<Rightarrow> bool" where
  "window_inv s \<longleftrightarrow> ids s = set (order s) \<and> distinct (order s) \<and> length (order s) \<le> cap s"

lemma check_result: "snd (check i s) \<longleftrightarrow> i \<in> ids s"
  using known[of i s] unknown[of i s] by (cases "i \<in> ids s") auto

lemma check_cap [simp]: "cap (fst (check i s)) = cap s"
  using known[of i s] unknown[of i s] by (cases "i \<in> ids s") auto

lemma check_inv: "window_inv s \<Longrightarrow> window_inv (fst (check i s))"
proof (cases "i \<in> ids s")
  case False
  assume inv: "window_inv s"
  show ?thesis
  proof (cases "cap s < length (order s @ [i])")
    case True
    with inv False unknown[OF False] show ?thesis
      by (cases "order s") (auto simp: window_inv_def)
  next
    case small: False
    with inv False unknown[OF False] show ?thesis by (auto simp: window_inv_def)
  qed
qed (simp add: known)

text \<open>
  The filter remembers exactly the last \<open>cap\<close> identifiers it has let through.
\<close>

lemma check_remembers:
  assumes "window_inv s" "order s = lastn (cap s) p"
  shows "snd (check i s) \<longleftrightarrow> i \<in> set (lastn (cap s) p)"
    and "order (fst (check i s)) = lastn (cap s) (if snd (check i s) then p else p @ [i])"
proof -
  show "snd (check i s) \<longleftrightarrow> i \<in> set (lastn (cap s) p)"
    using assms by (simp add: check_result window_inv_def)
  show "order (fst (check i s)) = lastn (cap s) (if snd (check i s) then p else p @ [i])"
  proof (cases "i \<in> ids s")
    case True
    then show ?thesis using assms(2) by (simp add: known)
  next
    case False
    then show ?thesis
      using unknown[OF False] assms(2) by (simp add: lastn_snoc split: if_splits)
  qed
qed

lemma pass_state:
  assumes "window_inv s" "order s = lastn (cap s) p"
  shows "window_inv (fst (pass check s is)) \<and> cap (fst (pass check s is)) = cap s \<and>
    order (fst (pass check s is)) = lastn (cap s) (p @ snd (pass check s is))"
  using assms
proof (induction "is" arbitrary: s p)
  case (Cons i "is")
  note step = check_remembers[OF Cons.prems, of i]
  show ?case
    using Cons.IH[OF check_inv[OF Cons.prems(1), of i], of "if snd (check i s) then p else p @ [i]"]
      step(2) by (simp add: Let_def split_beta)
qed simp

text \<open>An identifier let through again is preceded by more than \<open>cap\<close> others since.\<close>

lemma pass_apart:
  assumes "window_inv s" "order s = lastn (cap s) p"
    and "\<forall>a b. a < b \<and> b < length p \<and> p ! a = p ! b \<longrightarrow> cap s < b - a"
    and "q = p @ snd (pass check s is)" "a < b" "b < length q" "q ! a = q ! b"
  shows "cap s < b - a"
  using assms
proof (induction "is" arbitrary: s p)
  case (Cons i "is")
  let ?s = "fst (check i s)" and ?p = "if snd (check i s) then p else p @ [i]"
  note step = check_remembers[OF Cons.prems(1,2), of i]
  have "cap ?s < b - a"
  proof (rule Cons.IH[OF check_inv[OF Cons.prems(1)]])
    show "order ?s = lastn (cap ?s) ?p" using step(2) by simp
    show "\<forall>a b. a < b \<and> b < length ?p \<and> ?p ! a = ?p ! b \<longrightarrow> cap ?s < b - a"
    proof (cases "snd (check i s)")
      case False
      have "cap s < length p - a" if "a < length p" "p ! a = i" for a
        using False step(1) nth_in_lastn[of a p "cap s"] that by (metis add.commute less_diff_conv not_less)
      then show ?thesis
        using Cons.prems(3) False by (auto simp: nth_append less_Suc_eq)
    qed (use Cons.prems(3) in simp)
  qed (use Cons.prems in \<open>auto simp: Let_def split_beta\<close>)
  then show ?case by simp
qed simp

end

end
