(* ===== verification/Connection.thy ===== *)
theory Connection
  imports Signal_Types Rate_Limit Dedup
begin

text \<open>
  One client of the signaling server, the type \<open>clientConnection\<close> of
  \<open>internal/server/websocket/server.go\<close>: its outbound queue, the channel \<open>done\<close>, the
  window of seen message identifiers, and its own invitation limiter.  Queued messages
  are kept decoded: the bytes in the channel are their JSON text.
\<close>

record client_connection =
  cc_username :: string
  cc_fingerprint :: string
  cc_send :: "signal_message list"
  cc_queue_size :: nat
  cc_done :: bool
  cc_closing :: bool
  cc_registered :: bool
  cc_last_seen :: time
  cc_seen_ids :: "string set"
  cc_seen_order :: "string list"
  cc_seen_limit :: nat
  cc_invites :: fixed_limiter

definition newClientConnection :: "nat \<Rightarrow> int \<Rightarrow> duration \<Rightarrow> client_connection" where
  "newClientConnection queueSize inviteLimit inviteWindow =
    \<lparr>cc_username = [], cc_fingerprint = [], cc_send = [], cc_queue_size = queueSize, cc_done = False,
     cc_closing = False, cc_registered = False, cc_last_seen = unix_epoch, cc_seen_ids = {},
     cc_seen_order = [], cc_seen_limit = queueSize * 4,
     cc_invites = newFixedWindowLimiter inviteLimit inviteWindow\<rparr>"

datatype deliver_error = DeliverOffline | DeliverSlow

text \<open>
  \<open>Deliver\<close>: the \<open>select\<close> takes a ready case, either one when both are ready (\<open>pick\<close>), and the
  default otherwise, which starts \<open>go c.Close()\<close>; the started goroutine runs later
  (\<open>run_close\<close>).
\<close>

definition conn_deliver :: "bool \<Rightarrow> signal_message \<Rightarrow> client_connection \<Rightarrow> client_connection \<times> deliver_error option" where
  "conn_deliver pick message c = (
     let room = length (cc_send c) < cc_queue_size c in
     if room \<and> (pick \<or> \<not> cc_done c) then (c\<lparr>cc_send := cc_send c @ [message]\<rparr>, None)
     else if cc_done c then (c, Some DeliverOffline)
     else (c\<lparr>cc_closing := True\<rparr>, Some DeliverSlow))"

definition conn_close :: "client_connection \<Rightarrow> client_connection" where
  "conn_close c = c\<lparr>cc_done := True\<rparr>"

definition run_close :: "client_connection \<Rightarrow> client_connection" where
  "run_close c = (if cc_closing c then (conn_close c)\<lparr>cc_closing := False\<rparr> else c)"

definition conn_touch :: "time \<Rightarrow> client_connection \<Rightarrow> client_connection" where
  "conn_touch now c = c\<lparr>cc_last_seen := now\<rparr>"

definition conn_duplicate :: "string \<Rightarrow> client_connection \<Rightarrow> client_connection \<times> bool" where
  "conn_duplicate ident c =
    (if ident \<in> cc_seen_ids c then (c, True)
     else let c = c\<lparr>cc_seen_ids := insert ident (cc_seen_ids c), cc_seen_order := cc_seen_order c @ [ident]\<rparr> in
       if length (cc_seen_order c) > cc_seen_limit c
       then (c\<lparr>cc_seen_order := tl (cc_seen_order c),
               cc_seen_ids := cc_seen_ids c - {hd (cc_seen_order c)}\<rparr>, False)
       else (c, False))"

interpretation seen_messages: id_window conn_duplicate cc_seen_ids cc_seen_order cc_seen_limit
  by unfold_locales (auto simp: conn_duplicate_def Let_def)

text \<open>\<open>writeLoop\<close>, one iteration: it ends once \<open>done\<close> is closed, else takes the oldest message.\<close>

definition write_one :: "bool \<Rightarrow> client_connection \<Rightarrow> (client_connection \<times> signal_message) option" where
  "write_one write_fails c = (case cc_send c of [] \<Rightarrow> None | m # ms \<Rightarrow>
     let c = c\<lparr>cc_send := ms\<rparr> in Some (if write_fails then conn_close c else c, m))"

text \<open>\<open>heartbeatLoop\<close> at a tick: close an idle client, ping the others.\<close>

definition heartbeat ::
  "duration \<Rightarrow> bool \<Rightarrow> signal_message \<Rightarrow> time \<Rightarrow> client_connection \<Rightarrow> client_connection" where
  "heartbeat idle pick ping now c =
    (if cc_done c then c
     else if now - cc_last_seen c > idle then conn_close c
     else case conn_deliver pick ping c of
       (c, None) \<Rightarrow> c
     | (c, Some e) \<Rightarrow> conn_close c)"

text \<open>
  A connection lets a repeated message identifier through only after more than four
  times its queue size of other messages came in between.
\<close>

theorem duplicates_far_apart:
  assumes "ids = snd (pass conn_duplicate (newClientConnection q l w) received)"
    "a < b" "b < length ids" "ids ! a = ids ! b"
  shows "4 * q < b - a"
proof -
  have "cc_seen_limit (newClientConnection q l w) < b - a"
    by (rule seen_messages.pass_apart[where p = "[]"])
      (use assms in \<open>auto simp: seen_messages.window_inv_def newClientConnection_def lastn_def\<close>)
  then show ?thesis by (simp add: newClientConnection_def mult.commute)
qed

theorem duplicates_far_apart_witness:
  "snd (pass conn_duplicate (newClientConnection 1 5 60) [''a'', ''b'', ''a'', ''c'', ''d'', ''e'', ''a'']) =
     [''a'', ''b'', ''c'', ''d'', ''e'', ''a''] \<and> 4 * 1 < (5::nat) - 0"
proof -
  have ids: "snd (pass conn_duplicate (newClientConnection 1 5 60) [''a'', ''b'', ''a'', ''c'', ''d'', ''e'', ''a'']) =
     [''a'', ''b'', ''c'', ''d'', ''e'', ''a'']"
    by (simp add: conn_duplicate_def newClientConnection_def Let_def)
  show ?thesis using ids duplicates_far_apart[OF ids[symmetric], of 0 5] by simp
qed

subsection \<open>The queue\<close>

definition queue_ok :: "client_connection \<Rightarrow> bool" where
  "queue_ok c \<longleftrightarrow> length (cc_send c) \<le> cc_queue_size c"

lemma deliver_queue_ok [inv_intros]: "queue_ok c \<Longrightarrow> queue_ok (fst (conn_deliver pick m c))"
  by (auto simp: queue_ok_def conn_deliver_def Let_def)

lemma deliver_fields [step_simps]:
  "cc_username (fst (conn_deliver pick m c)) = cc_username c"
  "cc_fingerprint (fst (conn_deliver pick m c)) = cc_fingerprint c"
  "cc_registered (fst (conn_deliver pick m c)) = cc_registered c"
  "cc_done (fst (conn_deliver pick m c)) = cc_done c"
  "cc_queue_size (fst (conn_deliver pick m c)) = cc_queue_size c"
  "cc_seen_order (fst (conn_deliver pick m c)) = cc_seen_order c"
  by (simp_all add: conn_deliver_def Let_def)

lemma duplicate_fields [step_simps]:
  "cc_username (fst (conn_duplicate i c)) = cc_username c"
  "cc_fingerprint (fst (conn_duplicate i c)) = cc_fingerprint c"
  "cc_registered (fst (conn_duplicate i c)) = cc_registered c"
  "cc_done (fst (conn_duplicate i c)) = cc_done c"
  "cc_send (fst (conn_duplicate i c)) = cc_send c"
  "cc_queue_size (fst (conn_duplicate i c)) = cc_queue_size c"
  by (simp_all add: conn_duplicate_def Let_def)

lemma close_fields [step_simps]:
  "cc_username (conn_close c) = cc_username c" "cc_fingerprint (conn_close c) = cc_fingerprint c"
  "cc_registered (conn_close c) = cc_registered c" "cc_send (conn_close c) = cc_send c"
  "cc_queue_size (conn_close c) = cc_queue_size c" "cc_done (conn_close c)"
  by (simp_all add: conn_close_def)

lemma deliver_send:
  "cc_send (fst (conn_deliver pick m c)) = cc_send c \<or>
   cc_send (fst (conn_deliver pick m c)) = cc_send c @ [m]"
  by (simp add: conn_deliver_def Let_def)

end
