(* ===== verification/Calls.thy ===== *)
theory Calls
  imports Signal_Types
begin

text \<open>
  The call manager of \<open>internal/server/calls/manager.go\<close>: the call record and its
  state machine, the table of calls, the \<open>active\<close> index that makes a user busy, and
  the operations \<open>Invite\<close>, \<open>Transition\<close>, \<open>Expire\<close>, \<open>Disconnect\<close> and \<open>Get\<close>.
  Every operation runs under the manager's mutex, so it is one atomic step on the
  manager record.
\<close>

subsection \<open>Data\<close>

datatype call_state =
    StateRinging | StateAccepted | StateNegotiating | StateConnected
  | StateDeclined | StateCancelled | StateTimedOut | StateEnded

fun state_name :: "call_state \<Rightarrow> string" where
  "state_name StateRinging = ''RINGING''"
| "state_name StateAccepted = ''ACCEPTED''"
| "state_name StateNegotiating = ''NEGOTIATING''"
| "state_name StateConnected = ''CONNECTED''"
| "state_name StateDeclined = ''DECLINED''"
| "state_name StateCancelled = ''CANCELLED''"
| "state_name StateTimedOut = ''TIMED_OUT''"
| "state_name StateEnded = ''ENDED''"

datatype calls_error =
    ErrCallExists | ErrCallNotFound | ErrUserBusy string | ErrNotParticipant
  | ErrInvalidTransition string | ErrCandidateLimit

fun calls_error_text :: "calls_error \<Rightarrow> string" where
  "calls_error_text ErrCallExists = ''call already exists''"
| "calls_error_text ErrCallNotFound = ''call not found''"
| "calls_error_text (ErrUserBusy u) = ''user is busy: '' @ u"
| "calls_error_text ErrNotParticipant = ''user is not a call participant''"
| "calls_error_text (ErrInvalidTransition d) = ''invalid call state transition: '' @ d"
| "calls_error_text ErrCandidateLimit = ''ICE candidate limit exceeded''"

record call =
  c_id :: string
  caller :: string
  callee :: string
  c_state :: call_state
  created_at :: time
  updated_at :: time
  deadline :: time
  cleanup_at :: time
  caller_candidates :: nat
  callee_candidates :: nat

record calls_config =
  ring_timeout :: duration
  negotiation_timeout :: duration
  cleanup_after :: duration

record manager =
  m_config :: calls_config
  m_calls :: "string \<rightharpoonup> call"
  m_active :: "string \<rightharpoonup> string"

subsection \<open>Operations\<close>

definition call_other :: "call \<Rightarrow> string \<Rightarrow> calls_error + string" where
  "call_other c username =
    (if username = caller c then Inr (callee c)
     else if username = callee c then Inr (caller c)
     else Inl ErrNotParticipant)"

definition terminal :: "call \<Rightarrow> bool" where
  "terminal c \<longleftrightarrow> c_state c \<in> {StateDeclined, StateCancelled, StateTimedOut, StateEnded}"

definition calls_new :: "calls_config \<Rightarrow> manager" where
  "calls_new config = (
    let config = (if ring_timeout config \<le> 0 then config\<lparr>ring_timeout := 45 * second\<rparr> else config);
        config = (if negotiation_timeout config \<le> 0 then config\<lparr>negotiation_timeout := 30 * second\<rparr> else config);
        config = (if cleanup_after config \<le> 0 then config\<lparr>cleanup_after := minute\<rparr> else config)
    in \<lparr>m_config = config, m_calls = Map.empty, m_active = Map.empty\<rparr>)"

definition invite :: "string \<Rightarrow> string \<Rightarrow> string \<Rightarrow> time \<Rightarrow> manager \<Rightarrow> manager \<times> (calls_error + call)" where
  "invite callID clr cle now m =
    (if clr = cle then (m, Inl (ErrInvalidTransition ''caller and callee are identical''))
     else if m_calls m callID \<noteq> None then (m, Inl ErrCallExists)
     else if m_active m clr \<noteq> None then (m, Inl (ErrUserBusy clr))
     else if m_active m cle \<noteq> None then (m, Inl (ErrUserBusy cle))
     else let call = \<lparr>c_id = callID, caller = clr, callee = cle, c_state = StateRinging,
                       created_at = now, updated_at = now,
                       deadline = now + ring_timeout (m_config m), cleanup_at = 0,
                       caller_candidates = 0, callee_candidates = 0\<rparr>
          in (m\<lparr>m_calls := (m_calls m)(callID \<mapsto> call),
                m_active := (m_active m)(clr \<mapsto> callID, cle \<mapsto> callID)\<rparr>, Inr call))"

definition set_state :: "call \<Rightarrow> call_state \<Rightarrow> time \<Rightarrow> time \<Rightarrow> call" where
  "set_state c st now dl = c\<lparr>c_state := st, updated_at := now, deadline := dl\<rparr>"

text \<open>
  \<open>store\<close> writes a call back through the pointer found under \<open>callID\<close>.
\<close>

definition store :: "string \<Rightarrow> call \<Rightarrow> manager \<Rightarrow> manager" where
  "store callID c m = m\<lparr>m_calls := (m_calls m)(callID \<mapsto> c)\<rparr>"

definition finish :: "string \<Rightarrow> call \<Rightarrow> call_state \<Rightarrow> time \<Rightarrow> manager \<Rightarrow> manager \<times> call" where
  "finish callID c st now m =
    (let c = (set_state c st now 0)\<lparr>cleanup_at := now + cleanup_after (m_config m)\<rparr>;
         m = store callID c m
     in (m\<lparr>m_active := (m_active m)(caller c := None, callee c := None)\<rparr>, c))"

definition transition_error :: "call \<Rightarrow> signal_type \<Rightarrow> calls_error" where
  "transition_error c mt = ErrInvalidTransition (signal_name mt @ '' from '' @ state_name (c_state c))"

definition transition ::
  "signal_type \<Rightarrow> string \<Rightarrow> string \<Rightarrow> string \<Rightarrow> time \<Rightarrow> manager \<Rightarrow> manager \<times> (calls_error + call)" where
  "transition mt callID actor recipient now m =
    (case m_calls m callID of
      None \<Rightarrow> (m, Inl ErrCallNotFound)
    | Some c \<Rightarrow>
       if call_other c actor \<noteq> Inr recipient then (m, Inl ErrNotParticipant)
       else let bad = (m, Inl (transition_error c mt)) in
       (case mt of
         SignalCallAccept \<Rightarrow>
           if c_state c \<noteq> StateRinging \<or> actor \<noteq> callee c then bad
           else let c' = set_state c StateAccepted now (now + negotiation_timeout (m_config m))
                in (store callID c' m, Inr c')
       | SignalCallDecline \<Rightarrow>
           if c_state c \<noteq> StateRinging \<or> actor \<noteq> callee c then bad
           else let (m', c') = finish callID c StateDeclined now m in (m', Inr c')
       | SignalCallCancel \<Rightarrow>
           if c_state c \<noteq> StateRinging \<or> actor \<noteq> caller c then bad
           else let (m', c') = finish callID c StateCancelled now m in (m', Inr c')
       | SignalWebRTCOffer \<Rightarrow>
           if (c_state c \<noteq> StateAccepted \<and> c_state c \<noteq> StateConnected) \<or> actor \<noteq> caller c then bad
           else let c0 = (if c_state c = StateConnected
                          then c\<lparr>caller_candidates := 0, callee_candidates := 0\<rparr> else c);
                    c' = set_state c0 StateNegotiating now (now + negotiation_timeout (m_config m))
                in (store callID c' m, Inr c')
       | SignalWebRTCAnswer \<Rightarrow>
           if c_state c \<noteq> StateNegotiating \<or> actor \<noteq> callee c then bad
           else let c' = set_state c StateConnected now 0 in (store callID c' m, Inr c')
       | SignalWebRTCICE \<Rightarrow>
           if c_state c \<noteq> StateAccepted \<and> c_state c \<noteq> StateNegotiating \<and> c_state c \<noteq> StateConnected then bad
           else if actor = caller c then
             (if MaxICECandidates \<le> caller_candidates c then (m, Inl ErrCandidateLimit)
              else let c' = c\<lparr>caller_candidates := Suc (caller_candidates c), updated_at := now\<rparr>
                   in (store callID c' m, Inr c'))
           else
             (if MaxICECandidates \<le> callee_candidates c then (m, Inl ErrCandidateLimit)
              else let c' = c\<lparr>callee_candidates := Suc (callee_candidates c), updated_at := now\<rparr>
                   in (store callID c' m, Inr c'))
       | SignalWebRTCICEComplete \<Rightarrow>
           if c_state c \<noteq> StateAccepted \<and> c_state c \<noteq> StateNegotiating \<and> c_state c \<noteq> StateConnected then bad
           else let c' = c\<lparr>updated_at := now\<rparr> in (store callID c' m, Inr c')
       | SignalCallEnd \<Rightarrow>
           if c_state c \<noteq> StateAccepted \<and> c_state c \<noteq> StateNegotiating \<and> c_state c \<noteq> StateConnected then bad
           else let (m', c') = finish callID c StateEnded now m in (m', Inr c')
       | _ \<Rightarrow> bad))"

text \<open>
  \<open>Expire\<close> ranges over the map \<open>m.calls\<close>; the iteration order is the runtime's
  choice and is a parameter.  An entry deleted before it is reached is not visited.
\<close>

fun expire_loop :: "time \<Rightarrow> string list \<Rightarrow> manager \<Rightarrow> call list \<Rightarrow> manager \<times> call list" where
  "expire_loop now [] m expired = (m, expired)"
| "expire_loop now (i # ids) m expired =
    (case m_calls m i of
      None \<Rightarrow> expire_loop now ids m expired
    | Some c \<Rightarrow>
        if terminal c then
          (if \<not> is_zero (cleanup_at c) \<and> \<not> now < cleanup_at c
           then expire_loop now ids (m\<lparr>m_calls := (m_calls m)(i := None)\<rparr>) expired
           else expire_loop now ids m expired)
        else if \<not> is_zero (deadline c) \<and> \<not> now < deadline c then
          (let (m', c') = finish i c StateTimedOut now m
           in expire_loop now ids m' (expired @ [c']))
        else expire_loop now ids m expired)"

definition expire :: "string list \<Rightarrow> time \<Rightarrow> manager \<Rightarrow> manager \<times> call list" where
  "expire order now m = expire_loop now order m []"

definition disconnect_user :: "string \<Rightarrow> time \<Rightarrow> manager \<Rightarrow> manager \<times> call list" where
  "disconnect_user username now m =
    (case m_active m username of
      None \<Rightarrow> (m, [])
    | Some callID \<Rightarrow>
       (case m_calls m callID of
         None \<Rightarrow> (m\<lparr>m_active := (m_active m)(username := None)\<rparr>, [])
       | Some c \<Rightarrow>
          if terminal c then (m\<lparr>m_active := (m_active m)(username := None)\<rparr>, [])
          else let (m', c') = finish callID c StateEnded now m in (m', [c'])))"

definition get_call :: "string \<Rightarrow> manager \<Rightarrow> call option" where
  "get_call callID m = m_calls m callID"


subsection \<open>Invariant\<close>

text \<open>
  \<open>manager_inv\<close> ties the two maps together: the key of a call is its identifier, its
  two parties differ, the \<open>active\<close> index maps a user to a call exactly when that
  call is stored, not terminal and has the user as a party, and neither party has
  spent more than the candidate budget.
\<close>

definition party :: "string \<Rightarrow> call \<Rightarrow> bool" where
  "party u c \<longleftrightarrow> u = caller c \<or> u = callee c"

definition live_call :: "manager \<Rightarrow> string \<Rightarrow> call \<Rightarrow> bool" where
  "live_call m i c \<longleftrightarrow> m_calls m i = Some c \<and> \<not> terminal c"

definition calls_wf :: "manager \<Rightarrow> bool" where
  "calls_wf m \<longleftrightarrow> (\<forall>i c. m_calls m i = Some c \<longrightarrow>
     c_id c = i \<and> caller c \<noteq> callee c \<and>
     caller_candidates c \<le> MaxICECandidates \<and> callee_candidates c \<le> MaxICECandidates)"

definition active_exact :: "manager \<Rightarrow> bool" where
  "active_exact m \<longleftrightarrow> (\<forall>u i. m_active m u = Some i \<longleftrightarrow> (\<exists>c. live_call m i c \<and> party u c))"

definition manager_inv :: "manager \<Rightarrow> bool" where
  "manager_inv m \<longleftrightarrow> calls_wf m \<and> active_exact m"

lemma manager_invI: "calls_wf m \<Longrightarrow> active_exact m \<Longrightarrow> manager_inv m"
  by (simp add: manager_inv_def)

lemma manager_inv_wf:
  assumes "manager_inv m" "m_calls m i = Some c"
  shows "c_id c = i" "caller c \<noteq> callee c"
    "caller_candidates c \<le> MaxICECandidates" "callee_candidates c \<le> MaxICECandidates"
  using assms by (auto simp: manager_inv_def calls_wf_def)

lemma manager_inv_active:
  "manager_inv m \<Longrightarrow> m_active m u = Some i \<longleftrightarrow> (\<exists>c. live_call m i c \<and> party u c)"
  by (simp add: manager_inv_def active_exact_def)

lemma manager_inv_unique:
  assumes "manager_inv m" "live_call m i c" "party u c" "live_call m j d" "party u d"
  shows "i = j"
  using manager_inv_active[OF assms(1), of u i] manager_inv_active[OF assms(1), of u j] assms(2-)
  by auto

lemma terminal_set_state [simp]:
  "terminal (set_state c st now dl) \<longleftrightarrow> st \<in> {StateDeclined, StateCancelled, StateTimedOut, StateEnded}"
  by (simp add: terminal_def set_state_def)

lemma set_state_fields [simp]:
  "caller (set_state c st now dl) = caller c" "callee (set_state c st now dl) = callee c"
  "c_id (set_state c st now dl) = c_id c" "c_state (set_state c st now dl) = st"
  "caller_candidates (set_state c st now dl) = caller_candidates c"
  "callee_candidates (set_state c st now dl) = callee_candidates c"
  "updated_at (set_state c st now dl) = now" "deadline (set_state c st now dl) = dl"
  "cleanup_at (set_state c st now dl) = cleanup_at c" "created_at (set_state c st now dl) = created_at c"
  by (simp_all add: set_state_def)

lemma store_fields [simp]:
  "m_calls (store i c m) = (m_calls m)(i \<mapsto> c)" "m_active (store i c m) = m_active m"
  "m_config (store i c m) = m_config m"
  by (simp_all add: store_def)

definition finished :: "call \<Rightarrow> call_state \<Rightarrow> time \<Rightarrow> manager \<Rightarrow> call" where
  "finished c st now m = (set_state c st now 0)\<lparr>cleanup_at := now + cleanup_after (m_config m)\<rparr>"

lemma finish_eq: "finish i c st now m =
    ((store i (finished c st now m) m)\<lparr>m_active := (m_active m)(caller c := None, callee c := None)\<rparr>,
     finished c st now m)"
  by (simp add: finish_def finished_def Let_def)

lemma finished_fields [simp]:
  "caller (finished c st now m) = caller c" "callee (finished c st now m) = callee c"
  "c_id (finished c st now m) = c_id c" "c_state (finished c st now m) = st"
  "caller_candidates (finished c st now m) = caller_candidates c"
  "callee_candidates (finished c st now m) = callee_candidates c"
  "updated_at (finished c st now m) = now" "deadline (finished c st now m) = 0"
  "cleanup_at (finished c st now m) = now + cleanup_after (m_config m)"
  by (simp_all add: finished_def)

lemma party_finished [simp]: "party u (finished c st now m) = party u c"
  by (simp add: party_def)

text \<open>Rewriting a live call to another live call of the same parties keeps the invariant.\<close>

lemma manager_inv_store:
  assumes inv: "manager_inv m" and old: "m_calls m i = Some c" and "\<not> terminal c" "\<not> terminal c'"
    and same: "caller c' = caller c" "callee c' = callee c" "c_id c' = c_id c"
    and "caller_candidates c' \<le> MaxICECandidates" "callee_candidates c' \<le> MaxICECandidates"
  shows "manager_inv (store i c' m)"
proof (rule manager_invI)
  show "calls_wf (store i c' m)"
    using assms manager_inv_wf[OF inv] by (auto simp: calls_wf_def)
  have "live_call (store i c' m) j d \<and> party u d \<Longrightarrow> \<exists>e. live_call m j e \<and> party u e" for u j d
    using assms by (cases "j = i") (auto simp: live_call_def party_def)
  moreover have "live_call m j e \<and> party u e \<Longrightarrow> \<exists>d. live_call (store i c' m) j d \<and> party u d" for u j e
    using assms by (cases "j = i") (auto simp: live_call_def party_def)
  ultimately show "active_exact (store i c' m)"
    unfolding active_exact_def store_fields manager_inv_active[OF inv] by blast
qed

text \<open>Finishing a live call frees exactly its two parties.\<close>

lemma manager_inv_finish:
  assumes inv: "manager_inv m" and old: "m_calls m i = Some c" and live: "\<not> terminal c"
    and ends: "st \<in> {StateDeclined, StateCancelled, StateTimedOut, StateEnded}"
  shows "manager_inv (fst (finish i c st now m))"
proof (rule manager_invI)
  let ?m = "fst (finish i c st now m)"
  have tm: "terminal (finished c st now m)"
    using ends by (simp add: terminal_def)
  show "calls_wf ?m"
    using manager_inv_wf[OF inv] old inv by (auto simp: calls_wf_def finish_eq)
  have live_iff: "live_call ?m j d \<longleftrightarrow> live_call m j d \<and> j \<noteq> i" for j d
    using tm by (auto simp: live_call_def finish_eq)
  have "live_call m i c" using old live by (simp add: live_call_def)
  then have other: "live_call m j d \<Longrightarrow> j \<noteq> i \<Longrightarrow> party u d \<Longrightarrow> \<not> party u c" for u j d
    using manager_inv_unique[OF inv] by blast
  show "active_exact ?m"
    unfolding active_exact_def
  proof (intro allI)
    fix u j
    show "m_active ?m u = Some j \<longleftrightarrow> (\<exists>d. live_call ?m j d \<and> party u d)"
    proof (cases "party u c")
      case True
      then have "m_active ?m u = None" by (auto simp: finish_eq party_def)
      with True other show ?thesis by (auto simp: live_iff)
    next
      case False
      then have "m_active ?m u = m_active m u" by (auto simp: finish_eq party_def)
      moreover have "live_call m i d \<Longrightarrow> d = c" for d using old by (simp add: live_call_def)
      ultimately show ?thesis
        using False by (auto simp: manager_inv_active[OF inv] live_iff)
    qed
  qed
qed

text \<open>Deleting a terminal call, and adding a fresh one between two idle users.\<close>

lemma manager_inv_forget:
  assumes inv: "manager_inv m" and "m_calls m i = Some c" "terminal c"
  shows "manager_inv (m\<lparr>m_calls := (m_calls m)(i := None)\<rparr>)"
proof (rule manager_invI)
  let ?m = "m\<lparr>m_calls := (m_calls m)(i := None)\<rparr>"
  show "calls_wf ?m" using inv by (auto simp: manager_inv_def calls_wf_def)
  have "live_call ?m j d \<longleftrightarrow> live_call m j d" for j d
    using assms(2,3) by (auto simp: live_call_def)
  then show "active_exact ?m" using manager_inv_active[OF inv] by (simp add: active_exact_def)
qed

lemma manager_inv_add:
  assumes inv: "manager_inv m" and fresh: "m_calls m i = None"
    and idle: "m_active m (caller c) = None" "m_active m (callee c) = None"
    and new: "c_id c = i" "caller c \<noteq> callee c" "\<not> terminal c"
      "caller_candidates c = 0" "callee_candidates c = 0"
  shows "manager_inv (m\<lparr>m_calls := (m_calls m)(i \<mapsto> c),
           m_active := (m_active m)(caller c \<mapsto> i, callee c \<mapsto> i)\<rparr>)" (is "manager_inv ?m")
proof (rule manager_invI)
  show "calls_wf ?m" using inv new by (auto simp: manager_inv_def calls_wf_def)
  have live_iff: "live_call ?m j d \<longleftrightarrow> (j = i \<and> d = c) \<or> live_call m j d" for j d
    using fresh new by (auto simp: live_call_def)
  have busy: "party u c \<Longrightarrow> live_call m j d \<Longrightarrow> \<not> party u d" for u j d
    using idle manager_inv_active[OF inv, of u j] by (auto simp: party_def)
  show "active_exact ?m"
    unfolding active_exact_def live_iff
  proof (intro allI)
    fix u j
    show "m_active ?m u = Some j \<longleftrightarrow>
        (\<exists>d. ((j = i \<and> d = c) \<or> live_call m j d) \<and> party u d)"
    proof (cases "party u c")
      case True
      then have "m_active ?m u = Some i" by (auto simp: party_def)
      then show ?thesis using True busy[OF True] by auto
    next
      case False
      then have "m_active ?m u = m_active m u" by (simp add: party_def)
      then show ?thesis using False manager_inv_active[OF inv, of u j] by auto
    qed
  qed
qed

subsection \<open>Every operation preserves the invariant\<close>

lemma manager_inv_new: "manager_inv (calls_new config)"
  by (simp add: calls_new_def Let_def manager_inv_def calls_wf_def active_exact_def live_call_def)

lemma invite_cases:
  assumes "invite i u v now m = (m', r)"
  obtains (error) e where "r = Inl e" "m' = m"
  | (ok) c where "r = Inr c" "u \<noteq> v" "m_calls m i = None" "m_active m u = None" "m_active m v = None"
      "caller c = u" "callee c = v" "c_id c = i" "c_state c = StateRinging"
      "caller_candidates c = 0" "callee_candidates c = 0" "cleanup_at c = 0"
      "deadline c = now + ring_timeout (m_config m)"
      "m' = m\<lparr>m_calls := (m_calls m)(i \<mapsto> c), m_active := (m_active m)(u \<mapsto> i, v \<mapsto> i)\<rparr>"
  using assms by (auto simp: invite_def Let_def split: if_splits)

lemma manager_inv_invite:
  assumes "manager_inv m" shows "manager_inv (fst (invite i u v now m))"
proof -
  obtain m' r where eq: "invite i u v now m = (m', r)" by fastforce
  from eq show ?thesis
  proof (cases rule: invite_cases)
    case (ok c)
    then show ?thesis
      using manager_inv_add[OF assms, of i c] eq by (simp add: terminal_def)
  qed (use assms eq in simp)
qed


subsection \<open>The call protocol as a step relation\<close>

text \<open>
  The specification of \<open>Transition\<close>: which side of a call may send which signal in
  which state, and the state it leads to.
\<close>

datatype side = CallerSide | CalleeSide

definition side_of :: "call \<Rightarrow> string \<Rightarrow> side" where
  "side_of c actor = (if actor = caller c then CallerSide else CalleeSide)"

definition in_session :: "call_state \<Rightarrow> bool" where
  "in_session st \<longleftrightarrow> st \<in> {StateAccepted, StateNegotiating, StateConnected}"

inductive call_edge :: "side \<Rightarrow> signal_type \<Rightarrow> call_state \<Rightarrow> call_state \<Rightarrow> bool" where
  accept: "call_edge CalleeSide SignalCallAccept StateRinging StateAccepted"
| decline: "call_edge CalleeSide SignalCallDecline StateRinging StateDeclined"
| cancel: "call_edge CallerSide SignalCallCancel StateRinging StateCancelled"
| offer: "call_edge CallerSide SignalWebRTCOffer StateAccepted StateNegotiating"
| ice_restart: "call_edge CallerSide SignalWebRTCOffer StateConnected StateNegotiating"
| answer: "call_edge CalleeSide SignalWebRTCAnswer StateNegotiating StateConnected"
| ice: "in_session st \<Longrightarrow> call_edge sd SignalWebRTCICE st st"
| ice_complete: "in_session st \<Longrightarrow> call_edge sd SignalWebRTCICEComplete st st"
| hang_up: "in_session st \<Longrightarrow> call_edge sd SignalCallEnd st StateEnded"

inductive_cases call_edge_from: "call_edge sd mt st st'"

inductive_simps call_edge_simps:
  "call_edge sd SignalCallAccept st st'" "call_edge sd SignalCallDecline st st'"
  "call_edge sd SignalCallCancel st st'" "call_edge sd SignalWebRTCOffer st st'"
  "call_edge sd SignalWebRTCAnswer st st'" "call_edge sd SignalWebRTCICE st st'"
  "call_edge sd SignalWebRTCICEComplete st st'" "call_edge sd SignalCallEnd st st'"
  "call_edge sd SignalSessionHello st st'" "call_edge sd SignalSessionReady st st'"
  "call_edge sd SignalSessionPing st st'" "call_edge sd SignalSessionPong st st'"
  "call_edge sd SignalSessionError st st'" "call_edge sd SignalPresenceQuery st st'"
  "call_edge sd SignalPresenceResult st st'" "call_edge sd SignalCallInvite st st'"
  "call_edge sd SignalCallRinging st st'" "call_edge sd SignalCallBusy st st'"
  "call_edge sd SignalCallTimeout st st'" "call_edge sd (OtherSignal x) st st'"

lemma call_edge_deterministic:
  "call_edge sd mt st st1 \<Longrightarrow> call_edge sd mt st st2 \<Longrightarrow> st1 = st2"
  by (auto elim!: call_edge_from)

lemma call_edge_from_live: "call_edge sd mt st st' \<Longrightarrow> st \<notin> {StateDeclined, StateCancelled, StateTimedOut, StateEnded}"
  by (auto elim!: call_edge_from simp: in_session_def)

text \<open>The candidates one side has spent in the current negotiation round.\<close>

definition spent :: "side \<Rightarrow> call \<Rightarrow> nat" where
  "spent sd c = (case sd of CallerSide \<Rightarrow> caller_candidates c | CalleeSide \<Rightarrow> callee_candidates c)"

lemma side_of_simps [simp]:
  "side_of c (caller c) = CallerSide" "caller c \<noteq> callee c \<Longrightarrow> side_of c (callee c) = CalleeSide"
  by (simp_all add: side_of_def)

lemma call_other_Inr:
  "call_other c a = Inr r \<longleftrightarrow> (a = caller c \<and> r = callee c) \<or> (a \<noteq> caller c \<and> a = callee c \<and> r = caller c)"
  by (auto simp: call_other_def)

text \<open>
  The shape of a successful transition: an edge of the protocol was taken, the parties
  are unchanged, the call is written back, and the two parties are freed exactly when
  the new state is terminal.
\<close>

lemma transition_Inr:
  assumes "transition mt i a r now m = (m', Inr c')" "m_calls m i = Some c" "caller c \<noteq> callee c"
  shows "call_other c a = Inr r" "call_edge (side_of c a) mt (c_state c) (c_state c')"
    "caller c' = caller c" "callee c' = callee c" "c_id c' = c_id c" "updated_at c' = now"
    "m_config m' = m_config m"
    "m' = (if terminal c' then fst (finish i c (c_state c') now m) else store i c' m)"
    "mt = SignalWebRTCICE \<longrightarrow> spent (side_of c a) c < MaxICECandidates"
    "caller_candidates c \<le> MaxICECandidates \<Longrightarrow> caller_candidates c' \<le> MaxICECandidates"
    "callee_candidates c \<le> MaxICECandidates \<Longrightarrow> callee_candidates c' \<le> MaxICECandidates"
  using assms
  by (cases mt; force simp: transition_def call_other_Inr call_edge_simps in_session_def terminal_def
      side_of_def spent_def finish_eq store_def Let_def split: if_splits)+


text \<open>A refused transition changes nothing, and says why.\<close>

lemma transition_Inl:
  assumes "transition mt i a r now m = (m', Inl e)"
  shows "m' = m"
  using assms by (cases mt) (auto simp: transition_def Let_def finish_eq split: option.splits if_splits)

lemma transition_refusal:
  assumes "m_calls m i = Some c" "caller c \<noteq> callee c"
  shows "(\<exists>c'. snd (transition mt i a r now m) = Inr c') \<longleftrightarrow>
      call_other c a = Inr r \<and> (\<exists>st'. call_edge (side_of c a) mt (c_state c) st') \<and>
      (mt = SignalWebRTCICE \<longrightarrow> spent (side_of c a) c < MaxICECandidates)"
  using assms
  by (cases mt; force simp: transition_def call_other_Inr call_edge_simps in_session_def
      side_of_def spent_def finish_eq Let_def split: if_splits)

lemma transition_error_kind:
  assumes "m_calls m i = Some c" "caller c \<noteq> callee c" "snd (transition mt i a r now m) = Inl e"
  shows "e = (if call_other c a \<noteq> Inr r then ErrNotParticipant
      else if \<not> (\<exists>st'. call_edge (side_of c a) mt (c_state c) st') then transition_error c mt
      else ErrCandidateLimit)"
  using assms
  by (cases mt; force simp: transition_def call_other_Inr call_edge_simps in_session_def
      side_of_def finish_eq Let_def split: if_splits)

lemma manager_inv_transition:
  assumes inv: "manager_inv m" shows "manager_inv (fst (transition mt i a r now m))"
proof (cases "m_calls m i")
  case None
  with inv show ?thesis by (simp add: transition_def)
next
  case (Some c)
  note wf = manager_inv_wf[OF inv Some]
  obtain m' res where eq: "transition mt i a r now m = (m', res)" by fastforce
  show ?thesis
  proof (cases res)
    case (Inl e)
    with transition_Inl[OF eq[unfolded Inl]] eq inv show ?thesis by simp
  next
    case (Inr c')
    note shape = transition_Inr[OF eq[unfolded Inr] Some wf(2)]
    have live: "\<not> terminal c"
      using call_edge_from_live[OF shape(2)] by (simp add: terminal_def)
    show ?thesis
    proof (cases "terminal c'")
      case True
      with manager_inv_finish[OF inv Some live] shape(8) eq show ?thesis by (auto simp: terminal_def)
    next
      case False
      with manager_inv_store[OF inv Some live False shape(3,4,5) shape(10)[OF wf(3)] shape(11)[OF wf(4)]]
        shape(8) eq show ?thesis by simp
    qed
  qed
qed

subsection \<open>Expiry\<close>

definition overdue :: "time \<Rightarrow> call \<Rightarrow> bool" where
  "overdue now c \<longleftrightarrow> \<not> terminal c \<and> deadline c \<noteq> 0 \<and> deadline c \<le> now"

definition stale :: "time \<Rightarrow> call \<Rightarrow> bool" where
  "stale now c \<longleftrightarrow> terminal c \<and> cleanup_at c \<noteq> 0 \<and> cleanup_at c \<le> now"

definition expire_one :: "time \<Rightarrow> string \<Rightarrow> manager \<Rightarrow> manager" where
  "expire_one now i m =
    (case m_calls m i of
      None \<Rightarrow> m
    | Some c \<Rightarrow> if stale now c then m\<lparr>m_calls := (m_calls m)(i := None)\<rparr>
               else if overdue now c then fst (finish i c StateTimedOut now m) else m)"

definition expired_of :: "time \<Rightarrow> manager \<Rightarrow> string \<Rightarrow> call list" where
  "expired_of now m i = (case m_calls m i of
      Some c \<Rightarrow> if overdue now c then [finished c StateTimedOut now m] else [] | None \<Rightarrow> [])"

lemma expire_loop_Cons:
  "expire_loop now (i # ids) m ex = expire_loop now ids (expire_one now i m) (ex @ expired_of now m i)"
  by (auto simp: expire_one_def expired_of_def overdue_def stale_def is_zero_def finish_eq
      split: option.splits)

lemma manager_inv_expire_one: "manager_inv m \<Longrightarrow> manager_inv (expire_one now i m)"
  by (auto simp: expire_one_def overdue_def stale_def split: option.splits
      intro: manager_inv_forget manager_inv_finish)

lemma expire_one_config [simp]: "m_config (expire_one now i m) = m_config m"
  by (simp add: expire_one_def finish_eq split: option.splits)

lemma finished_expire_one [simp]: "finished c st now (expire_one t i m) = finished c st now m"
  by (simp add: finished_def)

lemma expire_one_other: "j \<noteq> i \<Longrightarrow> m_calls (expire_one now i m) j = m_calls m j"
  by (simp add: expire_one_def finish_eq split: option.splits)

lemma expire_one_self:
  "m_calls (expire_one now i m) i = (case m_calls m i of
      None \<Rightarrow> None
    | Some c \<Rightarrow> if stale now c then None
               else if overdue now c then Some (finished c StateTimedOut now m) else Some c)"
  by (simp add: expire_one_def finish_eq split: option.splits)

lemma manager_inv_expire_loop:
  "manager_inv m \<Longrightarrow> manager_inv (fst (expire_loop now ids m ex))"
proof (induction ids arbitrary: m ex)
  case (Cons i ids)
  then show ?case
    by (simp only: expire_loop_Cons) (blast intro: manager_inv_expire_one)
qed simp

text \<open>
  The effect of a whole sweep, whatever order the map is visited in: each visited entry
  is treated exactly once, on its own.
\<close>

lemma expire_loop_calls:
  assumes "distinct ids"
  shows "m_calls (fst (expire_loop now ids m ex)) j =
    (if j \<in> set ids then m_calls (expire_one now j m) j else m_calls m j)"
  using assms
proof (induction ids arbitrary: m ex)
  case (Cons i ids)
  have same: "m_calls (expire_one now j (expire_one now i m)) j = m_calls (expire_one now j m) j"
    if "j \<noteq> i"
    using that by (simp add: expire_one_self expire_one_other split: option.splits)
  show ?case
  proof (cases "j = i")
    case True
    with Cons show ?thesis by (simp add: expire_loop_Cons del: expire_loop.simps)
  next
    case False
    with Cons same[OF False] show ?thesis
      by (simp add: expire_loop_Cons expire_one_other del: expire_loop.simps)
  qed
qed simp

lemma expire_loop_expired:
  assumes "distinct ids"
  shows "snd (expire_loop now ids m ex) = ex @ concat (map (expired_of now m) ids)"
  using assms
proof (induction ids arbitrary: m ex)
  case (Cons i ids)
  have same: "expired_of now (expire_one now i m) j = expired_of now m j" if "j \<noteq> i" for j
    using that by (simp add: expired_of_def expire_one_other split: option.split)
  have "map (expired_of now (expire_one now i m)) ids = map (expired_of now m) ids"
    using Cons.prems by (intro map_cong refl same) auto
  then have "concat (map (expired_of now (expire_one now i m)) ids) = concat (map (expired_of now m) ids)"
    by (rule arg_cong)
  then show ?case
    using Cons by (simp add: expire_loop_Cons del: expire_loop.simps)
qed simp

lemma manager_inv_expire: "manager_inv m \<Longrightarrow> manager_inv (fst (expire order now m))"
  by (simp add: expire_def manager_inv_expire_loop)

subsection \<open>Disconnection\<close>

lemma disconnect_user_inv_eq:
  assumes "manager_inv m"
  shows "disconnect_user u now m =
    (case m_active m u of None \<Rightarrow> (m, [])
     | Some i \<Rightarrow> let c = the (m_calls m i)
                in (fst (finish i c StateEnded now m), [finished c StateEnded now m]))"
proof (cases "m_active m u")
  case (Some i)
  then obtain c where "m_calls m i = Some c" "\<not> terminal c"
    using manager_inv_active[OF assms] by (auto simp: live_call_def)
  with Some show ?thesis by (simp add: disconnect_user_def finish_eq)
qed (simp add: disconnect_user_def)

lemma manager_inv_disconnect:
  assumes "manager_inv m" shows "manager_inv (fst (disconnect_user u now m))"
proof (cases "m_active m u")
  case (Some i)
  then obtain c where c: "m_calls m i = Some c" "\<not> terminal c"
    using manager_inv_active[OF assms] by (auto simp: live_call_def)
  then show ?thesis
    using Some manager_inv_finish[OF assms c, of StateEnded now]
    by (simp add: disconnect_user_inv_eq[OF assms])
qed (simp add: disconnect_user_inv_eq assms)


subsection \<open>Reachable managers\<close>

datatype call_event =
    EvInvite string string string time
  | EvSignal signal_type string string string time
  | EvSweep "string list" time
  | EvDrop string time

fun manager_step :: "call_event \<Rightarrow> manager \<Rightarrow> manager" where
  "manager_step (EvInvite i u v now) m = fst (invite i u v now m)"
| "manager_step (EvSignal mt i a r now) m = fst (transition mt i a r now m)"
| "manager_step (EvSweep order now) m = fst (expire order now m)"
| "manager_step (EvDrop u now) m = fst (disconnect_user u now m)"

text \<open>A sweep visits every stored call once; every other event is always enabled.\<close>

fun event_enabled :: "call_event \<Rightarrow> manager \<Rightarrow> bool" where
  "event_enabled (EvSweep order now) m \<longleftrightarrow> distinct order \<and> set order = dom (m_calls m)"
| "event_enabled _ m \<longleftrightarrow> True"

inductive manager_reachable :: "calls_config \<Rightarrow> manager \<Rightarrow> bool" for cfg where
  start: "manager_reachable cfg (calls_new cfg)"
| step: "manager_reachable cfg m \<Longrightarrow> event_enabled ev m \<Longrightarrow> manager_reachable cfg (manager_step ev m)"

lemma manager_inv_step: "manager_inv m \<Longrightarrow> manager_inv (manager_step ev m)"
  by (cases ev) (simp_all add: manager_inv_invite manager_inv_transition manager_inv_expire
      manager_inv_disconnect)

lemma manager_reachable_inv: "manager_reachable cfg m \<Longrightarrow> manager_inv m"
  by (induction rule: manager_reachable.induct) (simp_all add: manager_inv_new manager_inv_step)

subsection \<open>What the signaling server relies on\<close>

text \<open>
  The contract between the server and the call manager: a table of live calls, a busy
  index that agrees with it, and the three ways the server changes it.
\<close>

locale call_service =
  fixes inv :: "'m \<Rightarrow> bool"
    and parties :: "'m \<Rightarrow> string \<Rightarrow> (string \<times> string) option"
    and busy :: "'m \<Rightarrow> string \<Rightarrow> string option"
    and open_call :: "string \<Rightarrow> string \<Rightarrow> string \<Rightarrow> time \<Rightarrow> 'm \<Rightarrow> 'm \<times> ('e + 'c)"
    and drop_user :: "string \<Rightarrow> time \<Rightarrow> 'm \<Rightarrow> 'm \<times> 'd"
  assumes busy_iff: "inv m \<Longrightarrow> busy m u = Some i \<longleftrightarrow>
      (\<exists>a b. parties m i = Some (a, b) \<and> (u = a \<or> u = b))"
    and proper: "inv m \<Longrightarrow> parties m i = Some (a, b) \<Longrightarrow> a \<noteq> b"
    and open_inv: "inv m \<Longrightarrow> inv (fst (open_call i u v now m))"
    and open_ok: "inv m \<Longrightarrow> open_call i u v now m = (m', Inr c) \<Longrightarrow>
      busy m u = None \<and> busy m v = None \<and> parties m' = (parties m)(i \<mapsto> (u, v))"
    and drop_inv: "inv m \<Longrightarrow> inv (fst (drop_user u now m))"
    and drop_effect: "inv m \<Longrightarrow> parties (fst (drop_user u now m)) =
      (\<lambda>i. if busy m u = Some i then None else parties m i)"
begin

definition partner :: "'m \<Rightarrow> string \<Rightarrow> string option" where
  "partner m u = (case busy m u of None \<Rightarrow> None
     | Some i \<Rightarrow> map_option (\<lambda>(a, b). if u = a then b else a) (parties m i))"

lemma partner_Some:
  assumes "inv m"
  shows "partner m u = Some v \<longleftrightarrow> (\<exists>i. parties m i = Some (u, v) \<or> parties m i = Some (v, u))"
proof
  assume "partner m u = Some v"
  then obtain i a b where "busy m u = Some i" "parties m i = Some (a, b)" "v = (if u = a then b else a)"
    by (auto simp: partner_def split: option.splits)
  then show "\<exists>i. parties m i = Some (u, v) \<or> parties m i = Some (v, u)"
    using busy_iff[OF assms, of u i] by (auto split: if_splits)
next
  assume "\<exists>i. parties m i = Some (u, v) \<or> parties m i = Some (v, u)"
  then obtain i where i: "parties m i = Some (u, v) \<or> parties m i = Some (v, u)" ..
  then have "busy m u = Some i" using busy_iff[OF assms, of u i] by auto
  with i proper[OF assms, of i] show "partner m u = Some v" by (auto simp: partner_def)
qed

lemma partner_sym: "inv m \<Longrightarrow> partner m u = Some v \<longleftrightarrow> partner m v = Some u"
  by (auto simp: partner_Some)

lemma partner_irrefl: "inv m \<Longrightarrow> partner m u \<noteq> Some u"
  using proper by (auto simp: partner_Some)

lemma open_pairs_idle_users:
  assumes "inv m" "open_call i u v now m = (m', Inr c)"
  shows "partner m u = None" "partner m v = None" "partner m' u = Some v" "partner m' v = Some u"
proof -
  from open_ok[OF assms] have *: "busy m u = None" "busy m v = None"
    "parties m' = (parties m)(i \<mapsto> (u, v))" by auto
  then show "partner m u = None" "partner m v = None" by (simp_all add: partner_def)
  have "inv m'" using open_inv[OF assms(1), of i u v now] assms(2) by simp
  with * show "partner m' u = Some v" "partner m' v = Some u"
    by (auto simp: partner_Some)
qed

lemma drop_frees_both:
  assumes "inv m"
  shows "partner (fst (drop_user u now m)) u = None"
    and "partner m u = Some v \<Longrightarrow> partner (fst (drop_user u now m)) v = None"
proof -
  note inv' = drop_inv[OF assms, of u now] and eff = drop_effect[OF assms, of u now]
  have gone: "partner (fst (drop_user u now m)) w = Some x \<Longrightarrow> w \<noteq> u \<and> x \<noteq> u" for w x
    using busy_iff[OF assms, of u] by (auto simp: partner_Some[OF inv'] eff split: if_splits)
  then show "partner (fst (drop_user u now m)) u = None" by (metis not_None_eq)
  assume "partner m u = Some v"
  then obtain i where i: "busy m u = Some i" "busy m v = Some i"
    using partner_Some[OF assms, of u v] busy_iff[OF assms] by auto
  show "partner (fst (drop_user u now m)) v = None"
  proof (rule ccontr)
    assume "partner (fst (drop_user u now m)) v \<noteq> None"
    then obtain x where "partner (fst (drop_user u now m)) v = Some x" by auto
    then obtain j where "parties m j = Some (v, x) \<or> parties m j = Some (x, v)" "j \<noteq> i"
      by (auto simp: partner_Some[OF inv'] eff i split: if_splits)
    with i busy_iff[OF assms, of v j] show False by auto
  qed
qed

end

definition live_parties :: "manager \<Rightarrow> string \<Rightarrow> (string \<times> string) option" where
  "live_parties m i = (case m_calls m i of
      Some c \<Rightarrow> if terminal c then None else Some (caller c, callee c) | None \<Rightarrow> None)"

lemma live_parties_Some:
  "live_parties m i = Some (a, b) \<longleftrightarrow> (\<exists>c. live_call m i c \<and> a = caller c \<and> b = callee c)"
  by (auto simp: live_parties_def live_call_def split: option.splits if_splits)

lemma live_parties_invite:
  assumes "invite i u v now m = (m', Inr c)"
  shows "live_parties m' = (live_parties m)(i \<mapsto> (u, v))"
  using assms
  by (cases rule: invite_cases) (auto simp: live_parties_def terminal_def fun_eq_iff)

lemma live_parties_disconnect:
  assumes "manager_inv m"
  shows "live_parties (fst (disconnect_user u now m)) =
    (\<lambda>i. if m_active m u = Some i then None else live_parties m i)"
proof (cases "m_active m u")
  case None
  then show ?thesis by (simp add: disconnect_user_inv_eq[OF assms])
next
  case (Some i)
  then obtain c where "m_calls m i = Some c"
    using manager_inv_active[OF assms] by (auto simp: live_call_def)
  with Some show ?thesis
    by (simp add: disconnect_user_inv_eq[OF assms] live_parties_def finish_eq terminal_def fun_eq_iff)
qed

interpretation call_table: call_service manager_inv live_parties m_active invite disconnect_user
proof unfold_locales
  fix m u i assume "manager_inv m"
  then show "m_active m u = Some i \<longleftrightarrow>
      (\<exists>a b. live_parties m i = Some (a, b) \<and> (u = a \<or> u = b))"
    by (auto simp: live_parties_Some manager_inv_active party_def)
next
  fix m i a b assume "manager_inv m" "live_parties m i = Some (a, b)"
  then show "a \<noteq> b" by (auto simp: live_parties_Some live_call_def dest: manager_inv_wf)
next
  fix m i u v now m' and c :: call
  assume *: "manager_inv m" "invite i u v now m = (m', Inr c)"
  then have "m_active m u = None \<and> m_active m v = None"
    by (auto elim: invite_cases)
  with live_parties_invite[OF *(2)]
  show "m_active m u = None \<and> m_active m v = None \<and> live_parties m' = (live_parties m)(i \<mapsto> (u, v))"
    by simp
qed (simp_all add: manager_inv_invite manager_inv_disconnect live_parties_disconnect)


subsection \<open>Properties\<close>

text \<open>
  C1: in every reachable manager a user takes part in at most one live call, the two
  parties of a live call differ, and the \<open>active\<close> index marks a user busy with a
  call exactly when that call is live and has the user as a party.
\<close>

theorem one_live_call_per_user:
  assumes "manager_reachable cfg m"
  shows "(m_active m u = Some i) = (\<exists>c. live_call m i c \<and> party u c) \<and>
    (live_call m i c \<and> party u c \<longrightarrow>
      caller c \<noteq> callee c \<and> (\<forall>j d. live_call m j d \<and> party u d \<longrightarrow> j = i \<and> d = c))"
proof -
  have inv: "manager_inv m" using assms by (rule manager_reachable_inv)
  have "j = i \<and> d = c" if "live_call m i c" "party u c" "live_call m j d" "party u d" for j d
    using manager_inv_unique[OF inv that] that(1,3) by (auto simp: live_call_def)
  then show ?thesis
    using manager_inv_active[OF inv, of u i] manager_inv_wf(2)[OF inv, of i c]
    by (auto simp: live_call_def)
qed

definition demo_config :: calls_config where
  "demo_config = \<lparr>ring_timeout = 0, negotiation_timeout = 0, cleanup_after = 0\<rparr>"

definition demo_manager :: manager where
  "demo_manager = fst (invite ''c1'' ''ann'' ''bob'' 100 (calls_new demo_config))"

lemma demo_manager_reachable: "manager_reachable demo_config demo_manager"
  using manager_reachable.step[OF manager_reachable.start, of "EvInvite ''c1'' ''ann'' ''bob'' 100"]
  by (simp add: demo_manager_def)

lemma demo_manager_call:
  "m_calls demo_manager ''c1'' = Some \<lparr>c_id = ''c1'', caller = ''ann'', callee = ''bob'',
     c_state = StateRinging, created_at = 100, updated_at = 100, deadline = 100 + 45 * second,
     cleanup_at = 0, caller_candidates = 0, callee_candidates = 0\<rparr>"
  by (simp add: demo_manager_def demo_config_def invite_def calls_new_def Let_def)

theorem one_live_call_per_user_witness:
  "m_active demo_manager ''bob'' = Some ''c1'' \<and>
   {j. \<exists>d. live_call demo_manager j d \<and> party ''bob'' d} = {''c1''}"
proof -
  let ?c = "the (m_calls demo_manager ''c1'')"
  have "live_call demo_manager ''c1'' ?c" "party ''bob'' ?c"
    by (simp_all add: live_call_def demo_manager_call terminal_def party_def)
  then show ?thesis
    using one_live_call_per_user[OF demo_manager_reachable, of "''bob''" "''c1''" ?c] by blast
qed




text \<open>
  a terminal call is final.  No operation of a reachable manager changes a call
  that was declined, cancelled, timed out or ended; only a sweep removes it, and only
  once its cleanup time has come.
\<close>

theorem terminal_call_final:
  assumes "manager_reachable cfg m" "event_enabled ev m" "m_calls m i = Some c" "terminal c"
  shows "m_calls (manager_step ev m) i = Some c \<or>
    (\<exists>order now. ev = EvSweep order now \<and> stale now c \<and> m_calls (manager_step ev m) i = None)"
proof -
  have inv: "manager_inv m" using assms(1) by (rule manager_reachable_inv)
  show ?thesis
  proof (cases ev)
    case (EvInvite j u v now)
    then show ?thesis using assms(3) by (auto simp: invite_def Let_def)
  next
    case (EvSignal mt j a r now)
    obtain m' res where eq: "transition mt j a r now m = (m', res)" by fastforce
    show ?thesis
    proof (cases "j = i")
      case True
      have "\<not> (\<exists>st'. call_edge (side_of c a) mt (c_state c) st')"
        using assms(4) call_edge_from_live by (auto simp: terminal_def)
      then show ?thesis
        using transition_refusal[of m i c mt a r now] manager_inv_wf(2)[OF inv] assms(3)
          eq EvSignal True by (cases res) (auto dest: transition_Inl)
    next
      case False
      then show ?thesis
        using eq EvSignal assms(3) transition_Inl[of mt j a r now m]
        by (cases mt) (auto simp: transition_def Let_def finish_eq split: option.splits if_splits)
    qed
  next
    case (EvSweep order now)
    then show ?thesis
      using assms(2,3,4) expire_loop_calls[of order now m "[]" i]
      by (auto simp: expire_def expire_one_self overdue_def)
  next
    case (EvDrop u now)
    then show ?thesis
      using assms(3,4) by (auto simp: disconnect_user_def finish_eq split: option.splits)
  qed
qed

theorem terminal_call_final_witness:
  "let m = manager_step (EvDrop ''bob'' 200) demo_manager in
   terminal (the (m_calls m ''c1'')) \<and>
   m_calls (manager_step (EvSignal SignalCallAccept ''c1'' ''bob'' ''ann'' 300) m) ''c1'' = m_calls m ''c1''"
proof -
  let ?m = "manager_step (EvDrop ''bob'' 200) demo_manager"
  have r: "manager_reachable demo_config ?m"
    by (rule manager_reachable.step[OF demo_manager_reachable]) simp
  have act: "m_active demo_manager ''bob'' = Some ''c1''"
    by (simp add: demo_manager_def demo_config_def invite_def calls_new_def Let_def)
  obtain c where c: "m_calls ?m ''c1'' = Some c" "terminal c"
    by (simp add: disconnect_user_def act demo_manager_call terminal_def finish_eq)
  then show ?thesis
    using terminal_call_final[OF r _ c, of "EvSignal SignalCallAccept ''c1'' ''bob'' ''ann'' 300"]
    by (simp add: Let_def)
qed

lemma expired_of_Some: "m_calls m i = Some c \<Longrightarrow> expired_of now m i = (if overdue now c then [finished c StateTimedOut now m] else [])"
  by (simp add: expired_of_def)

text \<open>
  C3: A sweep treats every stored call by its own times alone, in whatever order the map is
  visited: it drops the terminal calls whose cleanup time has come, times out exactly the live
  calls whose deadline has come, reports exactly those, and frees their parties.
\<close>

theorem sweep_exact:
  assumes "manager_reachable cfg m" "event_enabled (EvSweep order now) m" "expire order now m = (m', expired)"
  shows "m_calls m' i = (case m_calls m i of
        None \<Rightarrow> None
      | Some c \<Rightarrow> if stale now c then None else if overdue now c then Some (finished c StateTimedOut now m) else Some c) \<and>
    (c \<in> set expired \<longleftrightarrow> (\<exists>j d. m_calls m j = Some d \<and> overdue now d \<and> c = finished d StateTimedOut now m)) \<and>
    (m_calls m i = Some d \<and> overdue now d \<and> party u d \<longrightarrow> m_active m' u = None)"
proof -
  have inv: "manager_inv m" using assms(1) by (rule manager_reachable_inv)
  have inv': "manager_inv m'" using manager_inv_expire[OF inv, of order now] assms(3) by simp
  have dist: "distinct order" and dom: "set order = dom (m_calls m)" using assms(2) by simp_all
  have calls: "m_calls m' j = (case m_calls m j of
        None \<Rightarrow> None
      | Some c \<Rightarrow> if stale now c then None else if overdue now c then Some (finished c StateTimedOut now m) else Some c)" for j
    using expire_loop_calls[OF dist, of now m "[]" j] assms(3) dom
    by (auto simp: expire_def expire_one_self split: option.split)
  have "expired = concat (map (expired_of now m) order)"
    using expire_loop_expired[OF dist, of now m "[]"] assms(3) by (simp add: expire_def)
  then have set: "c \<in> set expired \<longleftrightarrow> (\<exists>j d. m_calls m j = Some d \<and> overdue now d \<and> c = finished d StateTimedOut now m)"
    using dom by (force simp: expired_of_Some dom_def)
  have free: "m_active m' u = None" if "m_calls m i = Some d" "overdue now d" "party u d"
  proof (rule ccontr)
    assume "m_active m' u \<noteq> None"
    then obtain k e where e: "live_call m' k e" "party u e" using manager_inv_active[OF inv'] by auto
    then have "m_calls m k = Some e" "\<not> overdue now e" "\<not> terminal e"
      using calls[of k] by (auto simp: live_call_def terminal_def split: option.splits if_splits)
    moreover have "live_call m i d" using that by (simp add: live_call_def overdue_def)
    ultimately have "k = i" using manager_inv_unique[OF inv _ e(2) _ that(3), of k i] by (simp add: live_call_def)
    with \<open>m_calls m k = Some e\<close> \<open>\<not> overdue now e\<close> that show False by simp
  qed
  show ?thesis using calls set free by blast
qed

theorem sweep_exact_witness:
  "c_state (the (m_calls (fst (expire [''c1''] (100 + 45 * second) demo_manager)) ''c1'')) = StateTimedOut"
proof -
  obtain m' expired where e: "expire [''c1''] (100 + 45 * second) demo_manager = (m', expired)" by fastforce
  have "event_enabled (EvSweep [''c1''] (100 + 45 * second)) demo_manager"
    by (simp add: demo_manager_def demo_config_def invite_def calls_new_def Let_def)
  note sweep = sweep_exact[OF demo_manager_reachable this e, of "''c1''"]
  have "100 + 45 * second \<noteq> 0" using second_pos by linarith
  with sweep e show ?thesis
    by (simp add: demo_manager_call stale_def overdue_def terminal_def is_zero_def)
qed

end
