(* ===== verification/Presence.thy ===== *)
theory Presence
  imports Prelude
begin

text \<open>
  Who is connected: \<open>internal/server/presence/registry.go\<close>.  An endpoint is a connection's
  identity, a number; \<open>Username()\<close> is passed along with it.
\<close>

type_synonym registry = "string \<rightharpoonup> nat"

datatype presence_error = ErrUsernameInUse

definition registry_new :: registry where
  "registry_new = Map.empty"

definition Register :: "string \<Rightarrow> nat \<Rightarrow> registry \<Rightarrow> registry \<times> presence_error option" where
  "Register username endpoint r =
    (if r username \<noteq> None then (r, Some ErrUsernameInUse) else (r(username \<mapsto> endpoint), None))"

definition registry_get :: "string \<Rightarrow> registry \<Rightarrow> nat option" where
  "registry_get username r = r username"

definition Unregister :: "string \<Rightarrow> nat \<Rightarrow> registry \<Rightarrow> registry" where
  "Unregister username endpoint r = (if r username = Some endpoint then r(username := None) else r)"

definition registry_len :: "registry \<Rightarrow> nat" where
  "registry_len r = card (dom r)"

text \<open>A table of who holds a name: taken once, and given up only by the holder.\<close>

locale name_table =
  fixes holder :: "'r \<Rightarrow> string \<Rightarrow> nat option"
    and enter :: "string \<Rightarrow> nat \<Rightarrow> 'r \<Rightarrow> 'r \<times> bool"
    and leave :: "string \<Rightarrow> nat \<Rightarrow> 'r \<Rightarrow> 'r"
  assumes enter_free: "holder r u = None \<Longrightarrow> snd (enter u i r) \<and> holder (fst (enter u i r)) = (holder r)(u \<mapsto> i)"
    and enter_taken: "holder r u \<noteq> None \<Longrightarrow> enter u i r = (r, False)"
    and leave_holder: "holder r u = Some i \<Longrightarrow> holder (leave u i r) = (holder r)(u := None)"
    and leave_other: "holder r u \<noteq> Some i \<Longrightarrow> leave u i r = r"
begin

lemma enter_keeps: "holder r v = Some j \<Longrightarrow> holder (fst (enter u i r)) v = Some j"
  using enter_free[of r u i] enter_taken[of r u i] by (cases "holder r u") auto

lemma enter_success: "snd (enter u i r) \<longleftrightarrow> holder r u = None"
  using enter_free[of r u i] enter_taken[of r u i] by (cases "holder r u") auto

lemma leave_keeps: "holder r v = Some j \<Longrightarrow> j \<noteq> i \<Longrightarrow> holder (leave u i r) v = Some j"
  using leave_holder[of r u i] leave_other[of r u i] by (cases "holder r u = Some i") auto

lemma leave_gone: "holder (leave u i r) u \<noteq> Some i"
  using leave_holder[of r u i] leave_other[of r u i] by (cases "holder r u = Some i") auto

lemma leave_shrinks: "holder (leave u i r) v = Some j \<Longrightarrow> holder r v = Some j"
  using leave_holder[of r u i] leave_other[of r u i]
  by (cases "holder r u = Some i") (auto split: if_splits)

end

definition enter :: "string \<Rightarrow> nat \<Rightarrow> registry \<Rightarrow> registry \<times> bool" where
  "enter u i r = (fst (Register u i r), snd (Register u i r) = None)"

interpretation online: name_table "\<lambda>r u. registry_get u r" enter Unregister
  by unfold_locales (auto simp: enter_def Register_def registry_get_def Unregister_def fun_eq_iff)

lemma Register_enter: "Register u i r = (fst (enter u i r), if snd (enter u i r) then None else Some ErrUsernameInUse)"
  by (auto simp: enter_def Register_def)

end
