(* ===== verification/Encoding.thy ===== *)
theory Encoding
  imports Prelude "HOL-Library.Sublist"
begin

text \<open>
  The parts of Go's standard library for byte strings that the program uses:
  \<open>strings.TrimSpace\<close>, \<open>strings.ToLower\<close>, \<open>strings.ContainsAny\<close>, and the
  encodings \<open>base32.StdEncoding\<close> without padding and \<open>base64.RawURLEncoding\<close> /
  \<open>StdEncoding\<close>.  A Go string or byte slice is a \<open>string\<close>, whose characters are
  bytes.  Both encodings are described on bit lists: the bytes' bits are regrouped into
  groups of five or six.
\<close>

abbreviation code :: "char \<Rightarrow> nat" where
  "code \<equiv> of_char"

lemma code_lt [simp]: "code c < 256"
proof -
  have "code c mod 256 < 256" by simp
  then show ?thesis by (simp only: of_char_mod_256)
qed

subsection \<open>Bit lists\<close>

fun bits :: "nat \<Rightarrow> nat \<Rightarrow> bool list" where
  "bits 0 v = []"
| "bits (Suc n) v = odd (v div 2 ^ n) # bits n v"

fun bits_val :: "bool list \<Rightarrow> nat" where
  "bits_val [] = 0"
| "bits_val (b # bs) = (if b then 2 ^ length bs else 0) + bits_val bs"

lemma length_bits [simp]: "length (bits n v) = n"
  by (induction n) auto

lemma bits_val_less: "bits_val bs < 2 ^ length bs"
  by (induction bs) auto

lemma bits_val_bits: "bits_val (bits n v) = v mod 2 ^ n"
proof (induction n)
  case (Suc n)
  have "v mod 2 ^ Suc n = 2 ^ n * (v div 2 ^ n mod 2) + v mod 2 ^ n"
    using mod_mult2_eq[of v "2 ^ n" 2] by (simp add: mult.commute)
  with Suc show ?case by (auto simp: odd_iff_mod_2_eq_one)
qed simp

lemma bits_mod: "bits n (v mod 2 ^ n) = bits n v"
proof -
  have "k \<le> n \<Longrightarrow> bits k (v mod 2 ^ n) = bits k v" for k
  proof (induction k)
    case (Suc k)
    have "2 ^ n = (2::nat) ^ k * 2 ^ (n - k)" using Suc.prems by (simp flip: power_add)
    then have "v mod 2 ^ n div 2 ^ k = v div 2 ^ k mod 2 ^ (n - k)"
      by (simp add: div_mult2_eq mod_mult2_eq)
    moreover have "even ((v div 2 ^ k) mod 2 ^ (n - k)) = even (v div 2 ^ k)"
      using Suc.prems by (intro dvd_mod_iff) (cases "n - k", auto)
    ultimately show ?case using Suc by simp
  qed simp
  then show ?thesis by simp
qed

lemma bits_bits_val: "bits (length bs) (bits_val bs) = bs"
proof (induction bs)
  case (Cons b bs)
  have lt: "bits_val bs < 2 ^ length bs" by (rule bits_val_less)
  have "bits (length bs) (bits_val (b # bs)) = bits (length bs) (bits_val (b # bs) mod 2 ^ length bs)"
    by (rule bits_mod[symmetric])
  also have "bits_val (b # bs) mod 2 ^ length bs = bits_val bs" using lt by simp
  finally have "bits (length bs) (bits_val (b # bs)) = bs" using Cons by simp
  moreover have "odd (bits_val (b # bs) div 2 ^ length bs) = b"
  proof (cases b)
    case True
    then have "bits_val (b # bs) div 2 ^ length bs = Suc (bits_val bs div 2 ^ length bs)"
      using div_add_self1[of "2 ^ length bs" "bits_val bs"] by simp
    with lt True show ?thesis by simp
  qed (use lt in simp)
  ultimately show ?case by simp
qed simp

text \<open>Regrouping; the last group is padded with zero bits.\<close>

function chunks :: "nat \<Rightarrow> bool list \<Rightarrow> bool list list" where
  "chunks k bs = (if bs = [] \<or> k = 0 then []
     else (take k bs @ replicate (k - length bs) False) # chunks k (drop k bs))"
  by pat_completeness auto
termination
  by (relation "measure (\<lambda>(k, bs). length bs)") auto

declare chunks.simps [simp del]

lemma chunks_Nil [simp]: "chunks k [] = []"
  by (simp add: chunks.simps)

lemma chunks_Cons: "0 < k \<Longrightarrow> bs \<noteq> [] \<Longrightarrow>
    chunks k bs = (take k bs @ replicate (k - length bs) False) # chunks k (drop k bs)"
  by (simp add: chunks.simps[of k bs])

lemma chunks_lengths: "g \<in> set (chunks k bs) \<Longrightarrow> length g = k"
proof (induction k bs rule: chunks.induct)
  case (1 k bs)
  show ?case
  proof (cases "bs = [] \<or> k = 0")
    case True
    with "1.prems" show ?thesis by (simp add: chunks.simps[of k bs])
  next
    case False
    with "1" show ?thesis by (auto simp: chunks_Cons)
  qed
qed

lemma length_chunks: "0 < k \<Longrightarrow> length (chunks k bs) = (length bs + k - 1) div k"
proof (induction k bs rule: chunks.induct)
  case (1 k bs)
  show ?case
  proof (cases "bs = []")
    case True
    with "1.prems" show ?thesis by simp
  next
    case False
    then have "length (chunks k bs) = Suc ((length bs - k + k - 1) div k)"
      using "1.IH" "1.prems" by (simp add: chunks_Cons)
    also have "(length bs - k + k - 1) div k = (length bs - 1) div k"
      using "1.prems" False by (cases "k \<le> length bs") auto
    also have "Suc ((length bs - 1) div k) = (length bs - 1 + k) div k"
      using "1.prems" div_add_self2[of k "length bs - 1"] by simp
    also have "length bs - 1 + k = length bs + k - 1" using False by (cases bs) auto
    finally show ?thesis .
  qed
qed

lemma concat_chunks:
  assumes "0 < k" obtains pad where "concat (chunks k bs) = bs @ replicate pad False" "pad < k"
  using assms
proof (induction k bs arbitrary: thesis rule: chunks.induct)
  case (1 k bs)
  show ?case
  proof (cases "bs = []")
    case True
    with "1.prems" show ?thesis by (metis append_Nil chunks_Nil concat.simps(1) replicate_0)
  next
    case False
    show ?thesis
    proof (cases "k \<le> length bs")
      case True
      obtain pad where "concat (chunks k (drop k bs)) = drop k bs @ replicate pad False" "pad < k"
        using "1.IH" False "1.prems"(2) by blast
      with False True "1.prems" show ?thesis by (auto simp: chunks_Cons simp flip: append_assoc)
    next
      case small: False
      then have "concat (chunks k bs) = bs @ replicate (k - length bs) False"
        using False "1.prems"(2) by (simp add: chunks_Cons)
      moreover have "k - length bs < k" using False "1.prems"(2) by (cases bs) auto
      ultimately show ?thesis using "1.prems"(1) by blast
    qed
  qed
qed

lemma chunks_concat:
  assumes "0 < k" "\<forall>g \<in> set gs. length g = k"
  shows "chunks k (concat gs) = gs"
  using assms(2)
proof (induction gs)
  case (Cons g gs)
  then have "concat (g # gs) \<noteq> []" using assms(1) by (cases g) auto
  with Cons assms(1) show ?case by (simp add: chunks_Cons)
qed simp

subsection \<open>Encodings\<close>

definition byte_bits :: "string \<Rightarrow> bool list" where
  "byte_bits s = concat (map (\<lambda>c. bits 8 (code c)) s)"

lemma length_byte_bits [simp]: "length (byte_bits s) = 8 * length s"
  by (induction s) (auto simp: byte_bits_def)

definition base32_lower_alphabet :: string where
  "base32_lower_alphabet = ''abcdefghijklmnopqrstuvwxyz234567''"

definition base64_url_alphabet :: string where
  "base64_url_alphabet = ''ABCDEFGHIJKLMNOPQRSTUVWXYZabcdefghijklmnopqrstuvwxyz0123456789-_''"

text \<open>\<open>strings.ToLower(base32.StdEncoding.WithPadding(NoPadding).EncodeToString(b))\<close>.\<close>

definition base32_lower :: "string \<Rightarrow> string" where
  "base32_lower s = map (\<lambda>g. base32_lower_alphabet ! bits_val g) (chunks 5 (byte_bits s))"

definition base64_url_encode :: "string \<Rightarrow> string" where
  "base64_url_encode s = map (\<lambda>g. base64_url_alphabet ! bits_val g) (chunks 6 (byte_bits s))"

text \<open>
  \<open>base64.RawURLEncoding.DecodeString\<close>: carriage returns and line feeds are skipped,
  any other character outside the alphabet is an error, and so is a final group of one
  character; left-over bits of the final group are not checked.
\<close>

fun index_of :: "char \<Rightarrow> string \<Rightarrow> nat option" where
  "index_of c [] = None"
| "index_of c (x # xs) = (if c = x then Some 0 else map_option Suc (index_of c xs))"

fun sextets :: "string \<Rightarrow> bool list option" where
  "sextets [] = Some []"
| "sextets (c # cs) = (case index_of c base64_url_alphabet of
      None \<Rightarrow> None
    | Some v \<Rightarrow> map_option (\<lambda>bs. bits 6 v @ bs) (sextets cs))"

definition base64_url_decode :: "string \<Rightarrow> string option" where
  "base64_url_decode s = (
    let s = filter (\<lambda>c. c \<noteq> CHR 0x0D \<and> c \<noteq> CHR 0x0A) s
    in if length s mod 4 = 1 then None
       else map_option (\<lambda>bs. map (\<lambda>g. char_of (bits_val g)) (chunks 8 (take (8 * (length bs div 8)) bs)))
              (sextets s))"

lemma length_alphabets: "length base32_lower_alphabet = 32" "length base64_url_alphabet = 64"
  by (simp_all add: base32_lower_alphabet_def base64_url_alphabet_def)

lemma distinct_base64: "distinct base64_url_alphabet"
  by code_simp

lemma index_of_nth: "distinct xs \<Longrightarrow> k < length xs \<Longrightarrow> index_of (xs ! k) xs = Some k"
  by (induction xs arbitrary: k) (auto simp: nth_Cons split: nat.splits)

lemma sextets_map:
  assumes "\<forall>g \<in> set gs. length g = 6"
  shows "sextets (map (\<lambda>g. base64_url_alphabet ! bits_val g) gs) = Some (concat gs)"
  using assms
proof (induction gs)
  case (Cons g gs)
  then have g: "length g = 6" by simp
  then have "bits_val g < length base64_url_alphabet"
    using bits_val_less[of g] by (simp add: length_alphabets)
  then have "index_of (base64_url_alphabet ! bits_val g) base64_url_alphabet = Some (bits_val g)"
    by (rule index_of_nth[OF distinct_base64])
  with Cons g bits_bits_val[of g] show ?case by simp
qed simp

lemma base64_alphabet_printable:
  "c \<in> set base64_url_alphabet \<Longrightarrow> c \<noteq> CHR 0x0D \<and> c \<noteq> CHR 0x0A"
proof -
  have "list_all (\<lambda>c. c \<noteq> CHR 0x0D \<and> c \<noteq> CHR 0x0A) base64_url_alphabet" by code_simp
  then show "c \<in> set base64_url_alphabet \<Longrightarrow> c \<noteq> CHR 0x0D \<and> c \<noteq> CHR 0x0A"
    by (auto simp: list_all_iff)
qed

lemma set_base64_encode: "set (base64_url_encode s) \<subseteq> set base64_url_alphabet"
proof
  fix c assume "c \<in> set (base64_url_encode s)"
  then obtain g where g: "g \<in> set (chunks 6 (byte_bits s))" "c = base64_url_alphabet ! bits_val g"
    by (auto simp: base64_url_encode_def)
  have "bits_val g < length base64_url_alphabet"
    using bits_val_less[of g] chunks_lengths[OF g(1)] by (simp add: length_alphabets)
  with g show "c \<in> set base64_url_alphabet" by simp
qed

lemma length_base64_encode: "length (base64_url_encode s) = (8 * length s + 5) div 6"
  by (simp add: base64_url_encode_def length_chunks)

lemma length_base32: "length (base32_lower s) = (8 * length s + 4) div 5"
  by (simp add: base32_lower_def length_chunks)

lemma set_base32: "set (base32_lower s) \<subseteq> set base32_lower_alphabet"
proof
  fix c assume "c \<in> set (base32_lower s)"
  then obtain g where g: "g \<in> set (chunks 5 (byte_bits s))" "c = base32_lower_alphabet ! bits_val g"
    by (auto simp: base32_lower_def)
  have "bits_val g < length base32_lower_alphabet"
    using bits_val_less[of g] chunks_lengths[OF g(1)] by (simp add: length_alphabets)
  with g show "c \<in> set base32_lower_alphabet" by simp
qed

lemma chunks_byte_bits: "chunks 8 (byte_bits s) = map (\<lambda>c. bits 8 (code c)) s"
  unfolding byte_bits_def by (rule chunks_concat) auto

theorem base64_roundtrip: "base64_url_decode (base64_url_encode s) = Some s"
proof -
  obtain pad where pad: "concat (chunks 6 (byte_bits s)) = byte_bits s @ replicate pad False" "pad < 6"
    using concat_chunks[of 6 "byte_bits s"] by auto
  have clean: "filter (\<lambda>c. c \<noteq> CHR 0x0D \<and> c \<noteq> CHR 0x0A) (base64_url_encode s) = base64_url_encode s"
    using set_base64_encode[of s] base64_alphabet_printable by (intro filter_True) blast
  have sx: "sextets (base64_url_encode s) = Some (byte_bits s @ replicate pad False)"
    unfolding base64_url_encode_def pad(1)[symmetric] by (rule sextets_map) (auto dest: chunks_lengths)
  have len: "length (base64_url_encode s) mod 4 \<noteq> 1"
    unfolding length_base64_encode by presburger
  have "8 * ((8 * length s + pad) div 8) = 8 * length s" using pad(2) by simp
  then have "take (8 * ((8 * length s + pad) div 8)) (byte_bits s @ replicate pad False) = byte_bits s"
    by simp
  then show ?thesis
    using len by (simp add: base64_url_decode_def clean sx chunks_byte_bits bits_val_bits comp_def)
qed

lemma base64_url_encode_inj: "base64_url_encode a = base64_url_encode b \<Longrightarrow> a = b"
  by (metis base64_roundtrip option.inject)

subsection \<open>Strings\<close>

text \<open>
  The UTF-8 encodings of the code points \<open>unicode.IsSpace\<close> accepts.  A trailing
  encoding is recognised by its last bytes: UTF-8 is self-synchronising.
\<close>

definition go_spaces :: "string list" where
  "go_spaces =
    [[CHR 0x09], [CHR 0x0A], [CHR 0x0B], [CHR 0x0C], [CHR 0x0D], [CHR 0x20],
     [CHR 0xC2, CHR 0x85], [CHR 0xC2, CHR 0xA0], [CHR 0xE1, CHR 0x9A, CHR 0x80],
     [CHR 0xE2, CHR 0x80, CHR 0x80], [CHR 0xE2, CHR 0x80, CHR 0x81], [CHR 0xE2, CHR 0x80, CHR 0x82],
     [CHR 0xE2, CHR 0x80, CHR 0x83], [CHR 0xE2, CHR 0x80, CHR 0x84], [CHR 0xE2, CHR 0x80, CHR 0x85],
     [CHR 0xE2, CHR 0x80, CHR 0x86], [CHR 0xE2, CHR 0x80, CHR 0x87], [CHR 0xE2, CHR 0x80, CHR 0x88],
     [CHR 0xE2, CHR 0x80, CHR 0x89], [CHR 0xE2, CHR 0x80, CHR 0x8A], [CHR 0xE2, CHR 0x80, CHR 0xA8],
     [CHR 0xE2, CHR 0x80, CHR 0xA9], [CHR 0xE2, CHR 0x80, CHR 0xAF], [CHR 0xE2, CHR 0x81, CHR 0x9F],
     [CHR 0xE3, CHR 0x80, CHR 0x80]]"

text \<open>Strip, \<open>n\<close> times at most, a leading member of the list.\<close>

fun strip_prefixes :: "nat \<Rightarrow> string list \<Rightarrow> string \<Rightarrow> string" where
  "strip_prefixes 0 ps s = s"
| "strip_prefixes (Suc n) ps s = (case List.find (\<lambda>p. prefix p s) ps of
      None \<Rightarrow> s | Some p \<Rightarrow> strip_prefixes n ps (drop (length p) s))"

definition trim_space :: "string \<Rightarrow> string" where
  "trim_space s = (
    let l = strip_prefixes (length s) go_spaces s
    in rev (strip_prefixes (length l) (map rev go_spaces) (rev l)))"

definition to_lower_char :: "char \<Rightarrow> char" where
  "to_lower_char c = (if 65 \<le> code c \<and> code c \<le> 90 then char_of (code c + 32) else c)"

text \<open>
  \<open>strings.ToLower\<close> on the characters the program compares with: ASCII capitals, and
  the two code points outside ASCII whose lower case is an ASCII letter (the Kelvin sign
  and the dotted capital I).  Every other byte is left as it is; the callers reject any
  string that still holds one.
\<close>

fun to_lower :: "string \<Rightarrow> string" where
  "to_lower (a # b # c # s) =
    (if [a, b, c] = [CHR 0xE2, CHR 0x84, CHR 0xAA] then CHR ''k'' # to_lower s
     else if [a, b] = [CHR 0xC4, CHR 0xB0] then CHR ''i'' # to_lower (c # s)
     else to_lower_char a # to_lower (b # c # s))"
| "to_lower [a, b] = (if [a, b] = [CHR 0xC4, CHR 0xB0] then [CHR ''i''] else [to_lower_char a, to_lower_char b])"
| "to_lower [a] = [to_lower_char a]"
| "to_lower [] = []"

definition contains_any :: "string \<Rightarrow> string \<Rightarrow> bool" where
  "contains_any s chars \<longleftrightarrow> (\<exists>c \<in> set s. c \<in> set chars)"

definition whitespace_set :: string where
  "whitespace_set = [CHR 0x0D, CHR 0x0A, CHR 0x09, CHR 0x20]"

text \<open>\<open>strings.Join(parts, separator)\<close> for a one-byte separator.\<close>

fun join_with :: "char \<Rightarrow> string list \<Rightarrow> string" where
  "join_with sep [] = []"
| "join_with sep [s] = s"
| "join_with sep (s # t # ss) = s @ sep # join_with sep (t # ss)"

lemma join_with_Cons: "ss \<noteq> [] \<Longrightarrow> join_with sep (s # ss) = s @ sep # join_with sep ss"
  by (cases ss) simp_all

lemma append_sep_inject:
  assumes "sep \<notin> set a" "sep \<notin> set b" "a @ sep # x = b @ sep # y"
  shows "a = b \<and> x = y"
  using assms
proof (induction a arbitrary: b)
  case Nil
  then show ?case by (cases b) auto
next
  case (Cons c a)
  then show ?case by (cases b) auto
qed

end
