(* ===== verification/Address.thy ===== *)
theory Address
  imports Signal_Types Encoding
begin

text \<open>
  User names and addresses, \<open>internal/protocol/validation.go\<close>: the three regular
  expressions of the package as values of a regex datatype, matched by Brzozowski
  derivatives; \<open>ValidBaseName\<close>, \<open>ValidAddress\<close>, \<open>validUUID\<close>, and the two URL checks of
  \<open>signaling.go\<close>.  The matcher is proved against the language a regex denotes, and the
  address check against the shape \<open><base name>-<suffix>\<close> the rest of the program cuts
  addresses into.
\<close>

subsection \<open>Regular expressions\<close>

datatype regex = Nothing | Empty | Class string | Seq regex regex | Alt regex regex | Star regex

fun nullable :: "regex \<Rightarrow> bool" where
  "nullable Nothing = False"
| "nullable Empty = True"
| "nullable (Class cs) = False"
| "nullable (Seq r s) = (nullable r \<and> nullable s)"
| "nullable (Alt r s) = (nullable r \<or> nullable s)"
| "nullable (Star r) = True"

fun deriv :: "char \<Rightarrow> regex \<Rightarrow> regex" where
  "deriv c Nothing = Nothing"
| "deriv c Empty = Nothing"
| "deriv c (Class cs) = (if c \<in> set cs then Empty else Nothing)"
| "deriv c (Seq r s) =
    (if nullable r then Alt (Seq (deriv c r) s) (deriv c s) else Seq (deriv c r) s)"
| "deriv c (Alt r s) = Alt (deriv c r) (deriv c s)"
| "deriv c (Star r) = Seq (deriv c r) (Star r)"

text \<open>\<open>MatchString\<close> of a pattern anchored by \<open>^\<close> and \<open>$\<close>.\<close>

fun MatchString :: "regex \<Rightarrow> string \<Rightarrow> bool" where
  "MatchString r [] = nullable r"
| "MatchString r (c # s) = MatchString (deriv c r) s"

fun repeat :: "nat \<Rightarrow> regex \<Rightarrow> regex" where
  "repeat 0 r = Empty"
| "repeat (Suc n) r = Seq r (repeat n r)"

inductive in_lang :: "regex \<Rightarrow> string \<Rightarrow> bool" where
  Empty: "in_lang Empty []"
| Class: "c \<in> set cs \<Longrightarrow> in_lang (Class cs) [c]"
| Seq: "in_lang r u \<Longrightarrow> in_lang s v \<Longrightarrow> in_lang (Seq r s) (u @ v)"
| Alt1: "in_lang r u \<Longrightarrow> in_lang (Alt r s) u"
| Alt2: "in_lang s u \<Longrightarrow> in_lang (Alt r s) u"
| Star0: "in_lang (Star r) []"
| Star1: "in_lang r u \<Longrightarrow> in_lang (Star r) v \<Longrightarrow> in_lang (Star r) (u @ v)"

inductive_simps lang_simps [simp]:
  "in_lang Nothing s" "in_lang Empty s" "in_lang (Class cs) s" "in_lang (Alt r1 r2) s"
inductive_simps lang_Seq: "in_lang (Seq r1 r2) s"

lemma nullable_iff: "nullable r \<longleftrightarrow> in_lang r []"
  by (induction r) (auto simp: lang_Seq intro: in_lang.Star0)

lemma star_Cons: "in_lang (Star r) (c # s) \<Longrightarrow> \<exists>u v. s = u @ v \<and> in_lang r (c # u) \<and> in_lang (Star r) v"
proof (induction "Star r" "c # s" arbitrary: s rule: in_lang.induct)
  case (Star1 u v)
  then show ?case by (cases u) auto
qed

lemma deriv_iff: "in_lang (deriv c r) s \<longleftrightarrow> in_lang r (c # s)"
proof (induction r arbitrary: s)
  case (Seq r1 r2)
  have split: "(\<exists>u v. c # s = u @ v \<and> in_lang r1 u \<and> in_lang r2 v) \<longleftrightarrow>
     (nullable r1 \<and> in_lang r2 (c # s)) \<or> (\<exists>u v. s = u @ v \<and> in_lang r1 (c # u) \<and> in_lang r2 v)"
    by (auto simp: nullable_iff Cons_eq_append_conv)
  have seq: "in_lang (Seq (deriv c r1) r2) s \<longleftrightarrow> (\<exists>u v. s = u @ v \<and> in_lang r1 (c # u) \<and> in_lang r2 v)"
    by (simp only: lang_Seq Seq.IH(1))
  show ?case unfolding lang_Seq[of r1 r2 "c # s"] split using seq Seq.IH(2) by auto
next
  case (Star r)
  have star: "in_lang r (c # u) \<Longrightarrow> in_lang (Star r) v \<Longrightarrow> in_lang (Star r) (c # u @ v)" for u v
    using in_lang.Star1[of r "c # u" v] by simp
  have "in_lang (deriv c (Star r)) s \<longleftrightarrow> (\<exists>u v. s = u @ v \<and> in_lang r (c # u) \<and> in_lang (Star r) v)"
    by (simp only: deriv.simps lang_Seq Star.IH)
  also have "\<dots> \<longleftrightarrow> in_lang (Star r) (c # s)"
    using star_Cons[of r c s] star by blast
  finally show ?case .
qed auto

lemma MatchString_iff: "MatchString r s \<longleftrightarrow> in_lang r s"
  by (induction s arbitrary: r) (simp_all add: nullable_iff deriv_iff)

lemma lang_repeat_class:
  "in_lang (repeat n (Class cs)) s \<longleftrightarrow> length s = n \<and> set s \<subseteq> set cs"
proof (induction n arbitrary: s)
  case (Suc n)
  have "in_lang (repeat (Suc n) (Class cs)) s \<longleftrightarrow>
      (\<exists>c t. s = c # t \<and> c \<in> set cs \<and> in_lang (repeat n (Class cs)) t)"
    unfolding repeat.simps lang_Seq lang_simps by (metis append_Cons append_Nil)
  then show ?case unfolding Suc by (cases s) auto
qed auto

lemma lang_star_class: "in_lang (Star (Class cs)) s \<longleftrightarrow> set s \<subseteq> set cs"
proof
  show "in_lang (Star (Class cs)) s \<Longrightarrow> set s \<subseteq> set cs"
    by (induction "Star (Class cs)" s rule: in_lang.induct) auto
next
  show "set s \<subseteq> set cs \<Longrightarrow> in_lang (Star (Class cs)) s"
  proof (induction s)
    case (Cons c s)
    with in_lang.Star1[of "Class cs" "[c]" s] show ?case by simp
  qed (simp add: in_lang.Star0)
qed

subsection \<open>The patterns\<close>

definition hex_lower :: string where "hex_lower = ''0123456789abcdef''"
definition name_edge :: string where "name_edge = ''abcdefghijklmnopqrstuvwxyz0123456789''"
definition name_inner :: string where "name_inner = ''abcdefghijklmnopqrstuvwxyz0123456789_-''"

definition uuidPattern :: regex where
  "uuidPattern =
    Seq (repeat 8 (Class hex_lower)) (Seq (Class ''-'')
    (Seq (repeat 4 (Class hex_lower)) (Seq (Class ''-'')
    (Seq (Class ''12345678'') (Seq (repeat 3 (Class hex_lower)) (Seq (Class ''-'')
    (Seq (Class ''89ab'') (Seq (repeat 3 (Class hex_lower)) (Seq (Class ''-'')
    (repeat 12 (Class hex_lower)))))))))))"

definition baseNamePattern :: regex where
  "baseNamePattern =
    Seq (Class name_edge) (Alt (Seq (Star (Class name_inner)) (Class name_edge)) Empty)"

definition addressPattern :: regex where
  "addressPattern =
    Seq (Class name_edge) (Seq (Alt (Seq (Star (Class name_inner)) (Class name_edge)) Empty)
      (Seq (Class ''-'') (repeat 12 (Class base32_lower_alphabet))))"

subsection \<open>Checks\<close>

definition ValidBaseName :: "string \<Rightarrow> bool" where
  "ValidBaseName name \<longleftrightarrow> length name \<ge> MinBaseNameLength \<and> length name \<le> MaxBaseNameLength
     \<and> MatchString baseNamePattern name"

definition ValidAddress :: "string \<Rightarrow> bool" where
  "ValidAddress address \<longleftrightarrow>
    (if length address < MinBaseNameLength + 1 + AddressSuffixLength \<or>
        length address > MaxAddressLength \<or> \<not> MatchString addressPattern address
     then False
     else ValidBaseName (take (length address - 1 - AddressSuffixLength) address))"

definition validUUID :: "string \<Rightarrow> bool" where
  "validUUID value = MatchString uuidPattern value"

definition ValidSTUNURL :: "string \<Rightarrow> bool" where
  "ValidSTUNURL value \<longleftrightarrow> length value \<ge> 8 \<and> length value \<le> 512 \<and>
     (prefix ''stun:'' value \<or> prefix ''stuns:'' value) \<and> \<not> contains_any value whitespace_set"

definition ValidTURNURL :: "string \<Rightarrow> bool" where
  "ValidTURNURL value \<longleftrightarrow> length value \<ge> 8 \<and> length value \<le> 512 \<and>
     (prefix ''turn:'' value \<or> prefix ''turns:'' value) \<and> \<not> contains_any value whitespace_set"

subsection \<open>What the checks accept\<close>

lemma name_edge_inner: "set name_edge \<subseteq> set name_inner"
  by (auto simp: name_edge_def name_inner_def)

text \<open>The optional tail \<open>(?:[a-z0-9_-]*[a-z0-9])?\<close> the two patterns share.\<close>

definition name_tail :: regex where
  "name_tail = Alt (Seq (Star (Class name_inner)) (Class name_edge)) Empty"

lemma lang_name_tail:
  "in_lang name_tail t \<longleftrightarrow> t = [] \<or> last t \<in> set name_edge \<and> set t \<subseteq> set name_inner"
proof
  assume "in_lang name_tail t"
  then consider "t = []" | u v where "t = u @ v" "in_lang (Star (Class name_inner)) u"
      "in_lang (Class name_edge) v"
    unfolding name_tail_def lang_simps(4) lang_Seq by auto
  then show "t = [] \<or> last t \<in> set name_edge \<and> set t \<subseteq> set name_inner"
    by cases (use name_edge_inner in \<open>auto simp: lang_star_class\<close>)
next
  assume t: "t = [] \<or> last t \<in> set name_edge \<and> set t \<subseteq> set name_inner"
  show "in_lang name_tail t"
  proof (cases "t = []")
    case False
    with t have "in_lang (Star (Class name_inner)) (butlast t)" "in_lang (Class name_edge) [last t]"
      by (auto simp: lang_star_class dest: in_set_butlastD)
    then have "in_lang (Seq (Star (Class name_inner)) (Class name_edge)) (butlast t @ [last t])"
      by (rule in_lang.Seq)
    with False show ?thesis by (simp add: name_tail_def)
  qed (simp add: name_tail_def)
qed

lemma baseNamePattern_tail: "baseNamePattern = Seq (Class name_edge) name_tail"
  by (simp add: baseNamePattern_def name_tail_def)

lemma lang_baseName:
  "in_lang baseNamePattern s \<longleftrightarrow>
     s \<noteq> [] \<and> hd s \<in> set name_edge \<and> last s \<in> set name_edge \<and> set s \<subseteq> set name_inner"
proof (cases s)
  case (Cons c t)
  have "in_lang baseNamePattern s \<longleftrightarrow> c \<in> set name_edge \<and> in_lang name_tail t"
    unfolding baseNamePattern_tail lang_Seq Cons lang_simps by (metis append_Cons append_Nil list.inject)
  then show ?thesis using subsetD[OF name_edge_inner, of c] unfolding lang_name_tail Cons
    by (cases "t = []") auto
qed (auto simp: baseNamePattern_tail lang_Seq)

lemma lang_address:
  "in_lang addressPattern a \<longleftrightarrow> (\<exists>base sfx. a = base @ ''-'' @ sfx \<and> in_lang baseNamePattern base
     \<and> length sfx = 12 \<and> set sfx \<subseteq> set base32_lower_alphabet)"
  (is "_ \<longleftrightarrow> ?R")
proof
  assume "in_lang addressPattern a"
  then obtain u v w where a: "a = u @ v @ ''-'' @ w" and uv: "in_lang (Class name_edge) u" "in_lang name_tail v"
    and w: "in_lang (repeat 12 (Class base32_lower_alphabet)) w"
    unfolding addressPattern_def name_tail_def[symmetric] lang_Seq by auto
  from uv have "in_lang baseNamePattern (u @ v)" unfolding baseNamePattern_tail by (rule in_lang.Seq)
  with a w show ?R unfolding lang_repeat_class by (metis append_assoc)
next
  assume ?R
  then obtain base w where a: "a = base @ ''-'' @ w" and b: "in_lang baseNamePattern base"
    and w: "in_lang (repeat 12 (Class base32_lower_alphabet)) w"
    unfolding lang_repeat_class by blast
  from b obtain u v where uv: "base = u @ v" "in_lang (Class name_edge) u" "in_lang name_tail v"
    unfolding baseNamePattern_tail lang_Seq by blast
  have "in_lang (Class ''-'') ''-''" by simp
  with uv w show "in_lang addressPattern a"
    unfolding addressPattern_def name_tail_def[symmetric] a uv(1) append_assoc by (intro in_lang.Seq)
qed

definition base_of :: "string \<Rightarrow> string" where
  "base_of a = take (length a - 1 - AddressSuffixLength) a"

definition suffix_of :: "string \<Rightarrow> string" where
  "suffix_of a = drop (length a - AddressSuffixLength) a"

lemma base_suffix_of:
  assumes "a = base @ ''-'' @ sfx" "length sfx = AddressSuffixLength"
  shows "base_of a = base" "suffix_of a = sfx"
  using assms by (simp_all add: base_of_def suffix_of_def AddressSuffixLength_def)

lemma ValidAddress_iff:
  "ValidAddress a \<longleftrightarrow> (\<exists>base sfx. a = base @ ''-'' @ sfx \<and> ValidBaseName base \<and>
      length sfx = AddressSuffixLength \<and> set sfx \<subseteq> set base32_lower_alphabet)"
  (is "_ \<longleftrightarrow> ?R")
proof
  assume valid: "ValidAddress a"
  then have "in_lang addressPattern a" and valid_base: "ValidBaseName (base_of a)"
    by (auto simp: ValidAddress_def base_of_def MatchString_iff split: if_splits)
  then obtain base sfx where a: "a = base @ ''-'' @ sfx" "length sfx = AddressSuffixLength"
    "set sfx \<subseteq> set base32_lower_alphabet" unfolding lang_address AddressSuffixLength_def by blast
  with base_suffix_of(1)[OF a(1,2)] valid_base show ?R by blast
next
  assume ?R
  then obtain base sfx where a: "a = base @ ''-'' @ sfx" "ValidBaseName base"
    "length sfx = AddressSuffixLength" "set sfx \<subseteq> set base32_lower_alphabet" by blast
  then have "in_lang baseNamePattern base" by (simp add: ValidBaseName_def MatchString_iff)
  then have "in_lang addressPattern a"
    using a unfolding lang_address by (auto simp: AddressSuffixLength_def)
  with a base_suffix_of(1)[OF a(1,3)] show "ValidAddress a"
    by (auto simp: ValidAddress_def MatchString_iff ValidBaseName_def MaxAddressLength_def base_of_def)
qed

text \<open>Valid addresses, names and UUIDs hold none of the characters that separate fields.\<close>

definition plain_char :: "char \<Rightarrow> bool" where
  "plain_char c \<longleftrightarrow> 45 \<le> code c \<and> code c \<le> 57 \<or> 65 \<le> code c \<and> code c \<le> 90 \<or>
     code c = 95 \<or> 97 \<le> code c \<and> code c \<le> 122"

lemma plain_alphabets:
  "list_all plain_char base32_lower_alphabet" "list_all plain_char name_inner"
  "list_all plain_char hex_lower"
  by code_simp+

lemma plain_base32: "set s \<subseteq> set base32_lower_alphabet \<Longrightarrow> list_all plain_char s"
  using plain_alphabets(1) by (auto simp: list_all_iff)

lemma plain_address: "ValidAddress a \<Longrightarrow> list_all plain_char a"
proof -
  assume "ValidAddress a"
  then obtain base sfx where a: "a = base @ ''-'' @ sfx" "ValidBaseName base"
    "set sfx \<subseteq> set base32_lower_alphabet" unfolding ValidAddress_iff by blast
  then have "set base \<subseteq> set name_inner" by (simp add: ValidBaseName_def MatchString_iff lang_baseName)
  with a plain_alphabets plain_base32[OF a(3)] show ?thesis by (auto simp: list_all_iff plain_char_def)
qed

fun class_chars :: "regex \<Rightarrow> string" where
  "class_chars (Class cs) = cs"
| "class_chars (Seq r s) = class_chars r @ class_chars s"
| "class_chars (Alt r s) = class_chars r @ class_chars s"
| "class_chars (Star r) = class_chars r"
| "class_chars _ = []"

lemma lang_class_chars: "in_lang r s \<Longrightarrow> set s \<subseteq> set (class_chars r)"
  by (induction rule: in_lang.induct) auto

lemma plain_uuid: "validUUID u \<Longrightarrow> list_all plain_char u"
proof -
  assume "validUUID u"
  then have "set u \<subseteq> set (class_chars uuidPattern)"
    unfolding validUUID_def MatchString_iff by (rule lang_class_chars)
  moreover have "list_all plain_char (class_chars uuidPattern)" by code_simp
  ultimately show ?thesis by (auto simp: list_all_iff)
qed

lemma ValidAddress_not_server: "\<not> ValidAddress ''server''" "\<not> ValidAddress []"
  by (simp_all add: ValidAddress_def protocol_limits)

lemma plain_not_nul: "list_all plain_char s \<Longrightarrow> CHR 0x00 \<notin> set s"
  by (auto simp: list_all_iff plain_char_def)

definition demo_alice :: string where "demo_alice = ''alice-abcdefghij27''"
definition demo_bob :: string where "demo_bob = ''bob-zyxwvutsrq34''"
definition demo_uuid :: string where "demo_uuid = ''01234567-89ab-4cde-8f01-23456789abcd''"

lemma demo_valid [simp]: "ValidAddress demo_alice" "ValidAddress demo_bob" "validUUID demo_uuid"
  by code_simp+

text \<open>
  The address check accepts exactly the strings that split, at the fixed offset the
  server and the identity code cut at, into a valid base name, a hyphen and twelve
  base32 characters; the base name is between three and nineteen characters, starts and
  ends with a letter or digit and holds only letters, digits, hyphen and underscore.
\<close>

theorem address_shape:
  "ValidAddress a \<longleftrightarrow>
     a = base_of a @ ''-'' @ suffix_of a \<and>
     length (suffix_of a) = 12 \<and> set (suffix_of a) \<subseteq> set base32_lower_alphabet \<and>
     3 \<le> length (base_of a) \<and> length (base_of a) \<le> 19 \<and>
     hd (base_of a) \<in> set name_edge \<and> last (base_of a) \<in> set name_edge \<and>
     set (base_of a) \<subseteq> set name_inner"
  (is "_ \<longleftrightarrow> ?R")
proof
  assume "ValidAddress a"
  then obtain base sfx where a: "a = base @ ''-'' @ sfx" "ValidBaseName base"
      "length sfx = AddressSuffixLength" "set sfx \<subseteq> set base32_lower_alphabet"
    unfolding ValidAddress_iff by blast
  with base_suffix_of[OF a(1,3)] show ?R
    by (auto simp: ValidBaseName_def MatchString_iff lang_baseName protocol_limits)
next
  assume R: ?R
  then have "base_of a \<noteq> []" by auto
  with R have "ValidBaseName (base_of a)"
    by (simp add: ValidBaseName_def MatchString_iff lang_baseName protocol_limits)
  with R show "ValidAddress a" unfolding ValidAddress_iff AddressSuffixLength_def by blast
qed

end
