(* ===== verification/Time_Format.thy ===== *)
theory Time_Format
  imports Encoding
begin

text \<open>
  Go's calendar and the \<open>time.RFC3339Nano\<close> text of a UTC instant, as the signed identity
  proofs contain it, and the text form \<open>time.Time\<close> accepts from JSON
  (\<open>time.Parse(time.RFC3339, ...)\<close>: one- or two-digit hours, a fraction after a period or a
  comma, offsets up to 24:60).
\<close>

subsection \<open>Decimal digits\<close>

definition digit :: "nat \<Rightarrow> char" where
  "digit n = char_of (48 + n mod 10)"

definition is_digit :: "char \<Rightarrow> bool" where
  "is_digit c \<longleftrightarrow> 48 \<le> code c \<and> code c \<le> 57"

definition digit_val :: "char \<Rightarrow> nat" where
  "digit_val c = code c - 48"

lemma code_digit [simp]: "code (digit n) = 48 + n mod 10"
proof -
  have "48 + n mod 10 < 256" using mod_less_divisor[of 10 n] by simp
  then show ?thesis by (simp add: digit_def)
qed

lemma is_digit_digit [simp]: "is_digit (digit n)"
  by (simp add: is_digit_def)

lemma digit_val_digit [simp]: "digit_val (digit n) = n mod 10"
  by (simp add: digit_val_def)

fun fixed_digits :: "nat \<Rightarrow> nat \<Rightarrow> string" where
  "fixed_digits 0 n = []"
| "fixed_digits (Suc w) n = fixed_digits w (n div 10) @ [digit n]"

text \<open>\<open>strconv.Itoa\<close> of a natural number.\<close>

fun decimal :: "nat \<Rightarrow> string" where
  "decimal n = (if n < 10 then [digit n] else decimal (n div 10) @ [digit n])"

declare decimal.simps [simp del]

definition append_int :: "nat \<Rightarrow> int \<Rightarrow> string" where
  "append_int w x = (let u = nat \<bar>x\<bar> in (if x < 0 then ''-'' else []) @
     (if u < 10 ^ w then fixed_digits w u else decimal u))"

definition digits_val :: "string \<Rightarrow> nat" where
  "digits_val s = foldl (\<lambda>a c. 10 * a + digit_val c) 0 s"

lemma length_fixed_digits [simp]: "length (fixed_digits w n) = w"
  by (induction w arbitrary: n) auto

lemma fixed_digits_are_digits: "list_all is_digit (fixed_digits w n)"
  by (induction w arbitrary: n) auto

lemma digits_val_snoc [simp]: "digits_val (s @ [c]) = 10 * digits_val s + digit_val c"
  by (simp add: digits_val_def)

lemma digits_val_fixed: "n < 10 ^ w \<Longrightarrow> digits_val (fixed_digits w n) = n"
proof (induction w arbitrary: n)
  case (Suc w)
  then have "digits_val (fixed_digits w (n div 10)) = n div 10" by simp
  then show ?case by simp
qed (simp add: digits_val_def)

text \<open>A field of exactly \<open>w\<close> digits.\<close>

definition take_digits :: "nat \<Rightarrow> string \<Rightarrow> (nat \<times> string) option" where
  "take_digits w s = (if length s \<ge> w \<and> list_all is_digit (take w s)
     then Some (digits_val (take w s), drop w s) else None)"

lemma take_digits_fixed [simp]:
  "n < 10 ^ w \<Longrightarrow> take_digits w (fixed_digits w n @ s) = Some (n, s)"
  by (simp add: take_digits_def digits_val_fixed fixed_digits_are_digits)

fun expect :: "char \<Rightarrow> string \<Rightarrow> string option" where
  "expect c [] = None"
| "expect c (d # s) = (if d = c then Some s else None)"

subsection \<open>Calendar\<close>

definition is_leap :: "int \<Rightarrow> bool" where
  "is_leap y \<longleftrightarrow> y mod 4 = 0 \<and> (y mod 100 \<noteq> 0 \<or> y mod 400 = 0)"

definition month_lengths :: "int \<Rightarrow> int list" where
  "month_lengths y =
    [31, if is_leap y then 29 else 28, 31, 30, 31, 30, 31, 31, 30, 31, 30, 31]"

text \<open>Days from January 1 of year 1 to January 1 of year \<open>y\<close>.\<close>

definition days_before_year :: "int \<Rightarrow> int" where
  "days_before_year y = 365 * (y - 1) + (y - 1) div 4 - (y - 1) div 100 + (y - 1) div 400"

definition days_of_civil :: "int \<Rightarrow> nat \<Rightarrow> nat \<Rightarrow> int" where
  "days_of_civil y m d = days_before_year y + sum_list (take (m - 1) (month_lengths y)) + int d - 1"

fun month_day :: "int list \<Rightarrow> nat \<Rightarrow> int \<Rightarrow> nat \<times> nat" where
  "month_day [] m d = (m, nat d + 1)"
| "month_day (l # ls) m d =
    (if d < l \<or> ls = [] then (m, nat d + 1) else month_day ls (Suc m) (d - l))"

definition year_yday :: "int \<Rightarrow> int \<times> int" where
  "year_yday days = (
    let a = days div 146097; r = days mod 146097;
        b = min 3 (r div 36524); r = r - 36524 * b;
        c = r div 1461; r = r mod 1461;
        e = min 3 (r div 365); r = r - 365 * e
    in (400 * a + 100 * b + 4 * c + e + 1, r))"

definition civil_of_days :: "int \<Rightarrow> int \<times> nat \<times> nat" where
  "civil_of_days days = (let (y, yd) = year_yday days in (y, month_day (month_lengths y) 1 yd))"

text \<open>The quotient capped at three, which leaves a leap day in the last of four parts.\<close>

lemma capped_div:
  fixes r k :: int
  assumes "0 \<le> r" "r \<le> 4 * k" "0 < k" "q = min 3 (r div k)"
  shows "0 \<le> q \<and> q \<le> 3 \<and> 0 \<le> r - k * q \<and> r - k * q \<le> k \<and> (q < 3 \<longrightarrow> r - k * q < k)"
proof (cases "3 \<le> r div k")
  case True
  then have "k * 3 \<le> k * (r div k)" using assms(3) by (intro mult_left_mono) auto
  also have "\<dots> \<le> r" using mult_div_mod_eq[of k r] pos_mod_sign[OF assms(3), of r] by linarith
  finally have "k * 3 \<le> r" .
  with True assms show ?thesis by simp
next
  case False
  then have "q = r div k" using assms(4) by simp
  moreover have "0 \<le> r div k" using assms(1,3) by (simp add: pos_imp_zdiv_nonneg_iff)
  moreover have "r - k * (r div k) = r mod k" by (simp add: minus_mult_div_eq_mod)
  ultimately show ?thesis
    using False pos_mod_sign[OF assms(3), of r] pos_mod_bound[OF assms(3), of r] by simp
qed

lemma year_yday_correct:
  assumes "year_yday days = (y, yd)"
  shows "days_before_year y + yd = days" "0 \<le> yd" "yd \<le> (if is_leap y then 365 else 364)"
proof -
  define a where "a = days div 146097"
  define r where "r = days mod 146097"
  define b where "b = min 3 (r div 36524)"
  define r2 where "r2 = r - 36524 * b"
  define c where "c = r2 div 1461"
  define r3 where "r3 = r2 mod 1461"
  define e where "e = min 3 (r3 div 365)"
  have "year_yday days = (400 * a + 100 * b + 4 * c + e + 1, r3 - 365 * e)"
    unfolding year_yday_def Let_def a_def r_def b_def r2_def c_def r3_def e_def by (rule refl)
  with assms have y: "y = 400 * a + 100 * b + 4 * c + e + 1" and yd: "yd = r3 - 365 * e"
    by (simp_all only: prod.inject)
  have days: "days = 146097 * a + r" by (simp add: a_def r_def)
  have r: "0 \<le> r" "r < 146097" by (simp_all add: r_def)
  have b: "0 \<le> b" "b \<le> 3" "0 \<le> r2" "r2 \<le> 36524" "b < 3 \<longrightarrow> r2 < 36524"
    using capped_div[of r 36524 b] r unfolding r2_def b_def by auto
  have r3: "r2 = 1461 * c + r3" "0 \<le> r3" "r3 < 1461"
    by (simp_all add: c_def r3_def)
  then have c: "0 \<le> c" "c \<le> 24" using b by linarith+
  have e: "0 \<le> e" "e \<le> 3" "0 \<le> yd" "yd \<le> 365" "e < 3 \<longrightarrow> yd < 365"
    using capped_div[of r3 365 e] r3(2,3) unfolding yd e_def by auto
  have y1: "y - 1 = 4 * (100 * a + 25 * b + c) + e" "y - 1 = 100 * (4 * a + b) + (4 * c + e)"
      "y - 1 = 400 * a + (100 * b + 4 * c + e)" unfolding y by simp_all
  have small: "e < 4" "4 * c + e < 100" "100 * b + 4 * c + e < 400" using b c e by linarith+
  have "(y - 1) div 4 = 100 * a + 25 * b + c" "(y - 1) div 100 = 4 * a + b" "(y - 1) div 400 = a"
    using int_div_pos_eq[OF y1(1)] int_div_pos_eq[OF y1(2)] int_div_pos_eq[OF y1(3)] small b(1) c(1) e(1)
    by linarith+
  then show "days_before_year y + yd = days"
    unfolding days_before_year_def days yd using r3(1) by (simp add: r2_def y)
  show "0 \<le> yd" by (rule e)
  have short: "yd \<le> 364" if "c = 24" "e = 3" "b < 3" using that b r3(1) yd by linarith
  have leap: "is_leap y" if "e = 3" "\<not> (c = 24 \<and> b < 3)"
  proof -
    have y4: "y = 4 * (100 * a + 25 * b + c + 1)" using that by (simp add: y)
    have "y mod 100 \<noteq> 0 \<or> y mod 400 = 0"
    proof (cases "c = 24")
      case True
      with that b have "y = 400 * (a + 1)" by (simp add: y)
      then show ?thesis by simp
    next
      case False
      then have "y mod 100 = 4 * c + 4"
        using c that mod_mult_self3[of "4 * a + b" 100 "4 * c + 4"] by (simp add: y algebra_simps)
      with c show ?thesis by simp
    qed
    with y4 show ?thesis by (simp add: is_leap_def)
  qed
  show "yd \<le> (if is_leap y then 365 else 364)"
  proof (cases "e = 3")
    case True
    show ?thesis
    proof (cases "c = 24 \<and> b < 3")
      case True
      with short \<open>e = 3\<close> show ?thesis by auto
    qed (use leap e(4) \<open>e = 3\<close> in auto)
  qed (use e in auto)
qed

lemma month_day_correct:
  assumes "month_day ls m d = (m', k)" "0 \<le> d" "d < sum_list ls" "\<forall>l \<in> set ls. 0 < l"
  shows "m \<le> m' \<and> m' < m + length ls \<and> 1 \<le> k \<and> int k \<le> ls ! (m' - m) \<and>
    d = sum_list (take (m' - m) ls) + int k - 1"
  using assms
proof (induction ls m d rule: month_day.induct)
  case (2 l ls m d)
  show ?case
  proof (cases "d < l \<or> ls = []")
    case True
    with 2 show ?thesis by auto
  next
    case False
    with 2 have IH: "Suc m \<le> m' \<and> m' < Suc m + length ls \<and> 1 \<le> k \<and> int k \<le> ls ! (m' - Suc m) \<and>
        d - l = sum_list (take (m' - Suc m) ls) + int k - 1" by auto
    then have "m' - m = Suc (m' - Suc m)" by linarith
    with IH show ?thesis by auto
  qed
qed auto

lemma sum_month_lengths: "sum_list (month_lengths y) = (if is_leap y then 366 else 365)"
  by (simp add: month_lengths_def)

lemma civil_of_days_correct:
  assumes "civil_of_days days = (y, m, d)"
  shows "days_of_civil y m d = days" "1 \<le> m" "m \<le> 12" "1 \<le> d" "int d \<le> month_lengths y ! (m - 1)"
proof -
  obtain yd where yd: "year_yday days = (y, yd)" "month_day (month_lengths y) 1 yd = (m, d)"
    using assms by (auto simp: civil_of_days_def split: prod.splits)
  note Y = year_yday_correct[OF yd(1)]
  have "yd < sum_list (month_lengths y)" using Y(3) by (simp add: sum_month_lengths split: if_splits)
  then have M: "1 \<le> m \<and> m < 1 + length (month_lengths y) \<and> 1 \<le> d \<and>
      int d \<le> month_lengths y ! (m - 1) \<and> yd = sum_list (take (m - 1) (month_lengths y)) + int d - 1"
    using month_day_correct[OF yd(2) Y(2)] by (simp add: month_lengths_def)
  then show "days_of_civil y m d = days" using Y(1) by (simp add: days_of_civil_def)
  show "1 \<le> m" "m \<le> 12" "1 \<le> d" "int d \<le> month_lengths y ! (m - 1)"
    using M by (auto simp: month_lengths_def)
qed

subsection \<open>RFC 3339\<close>

definition year_of :: "time \<Rightarrow> int" where
  "year_of t = fst (civil_of_days (t div second div 86400))"

text \<open>The fraction \<open>.999999999\<close>: nine digits, trailing zeros dropped, nothing when all are.\<close>

definition format_fraction :: "nat \<Rightarrow> string" where
  "format_fraction ns = (
    let ds = rev (dropWhile (\<lambda>c. c = CHR ''0'') (rev (fixed_digits 9 ns)))
    in if ds = [] then [] else CHR ''.'' # ds)"

text \<open>\<open>t.UTC().Format(time.RFC3339Nano)\<close>.\<close>

definition format_utc :: "time \<Rightarrow> string" where
  "format_utc t = (
    let s = t div second; sod = nat (s mod 86400); (y, m, d) = civil_of_days (s div 86400)
    in append_int 4 y @ CHR ''-'' # append_int 2 (int m) @ CHR ''-'' # append_int 2 (int d) @ CHR ''T'' #
       append_int 2 (int (sod div 3600)) @ CHR '':'' # append_int 2 (int (sod div 60 mod 60)) @ CHR '':'' #
       append_int 2 (int (sod mod 60)) @ format_fraction (nat (t mod second)) @ ''Z'')"

definition parse_hour :: "string \<Rightarrow> (nat \<times> string) option" where
  "parse_hour s = (case s of
      a # b # r \<Rightarrow> if is_digit a \<and> is_digit b then Some (10 * digit_val a + digit_val b, r)
                  else if is_digit a then Some (digit_val a, b # r) else None
    | [a] \<Rightarrow> if is_digit a then Some (digit_val a, []) else None
    | [] \<Rightarrow> None)"

text \<open>A fraction is read when its separator is followed by a digit; digits past the ninth are dropped.\<close>

definition parse_fraction :: "string \<Rightarrow> nat \<times> string" where
  "parse_fraction s = (case s of
      c # d # r \<Rightarrow> if (c = CHR ''.'' \<or> c = CHR '','') \<and> is_digit d
        then let ds = takeWhile is_digit (d # r)
             in (digits_val (take 9 (ds @ replicate 9 CHR ''0'')), dropWhile is_digit (d # r))
        else (0, s)
    | _ \<Rightarrow> (0, s))"

text \<open>The offset in seconds.\<close>

definition parse_zone :: "string \<Rightarrow> (int \<times> string) option" where
  "parse_zone s = (case s of
      [] \<Rightarrow> None
    | c # r \<Rightarrow>
        if c = CHR ''Z'' then Some (0, r)
        else if c = CHR ''+'' \<or> c = CHR ''-'' then
          Option.bind (take_digits 2 r) (\<lambda>(h, r).
          Option.bind (expect CHR '':'' r) (\<lambda>r.
          Option.bind (take_digits 2 r) (\<lambda>(m, r).
            if h > 24 \<or> m > 60 then None
            else Some ((if c = CHR ''-'' then -1 else 1) * int (3600 * h + 60 * m), r))))
        else None)"

definition instant :: "int \<Rightarrow> nat \<Rightarrow> nat \<Rightarrow> nat \<Rightarrow> nat \<Rightarrow> nat \<Rightarrow> nat \<Rightarrow> int \<Rightarrow> time" where
  "instant y m d hh mm ss ns zone =
     (days_of_civil y m d * 86400 + int (3600 * hh + 60 * mm + ss) - zone) * second + int ns"

definition parse_rfc3339 :: "string \<Rightarrow> time option" where
  "parse_rfc3339 s =
    Option.bind (take_digits 4 s) (\<lambda>(y, s). Option.bind (expect CHR ''-'' s) (\<lambda>s.
    Option.bind (take_digits 2 s) (\<lambda>(m, s). Option.bind (expect CHR ''-'' s) (\<lambda>s.
    Option.bind (take_digits 2 s) (\<lambda>(d, s). Option.bind (expect CHR ''T'' s) (\<lambda>s.
    Option.bind (parse_hour s) (\<lambda>(hh, s). Option.bind (expect CHR '':'' s) (\<lambda>s.
    Option.bind (take_digits 2 s) (\<lambda>(mm, s). Option.bind (expect CHR '':'' s) (\<lambda>s.
    Option.bind (take_digits 2 s) (\<lambda>(ss, s).
      let (ns, s) = parse_fraction s
      in Option.bind (parse_zone s) (\<lambda>(zone, s).
        if s \<noteq> [] \<or> m < 1 \<or> m > 12 \<or> hh \<ge> 24 \<or> mm \<ge> 60 \<or> ss \<ge> 60 \<or>
           d < 1 \<or> int d > month_lengths (int y) ! (m - 1)
        then None else Some (instant (int y) m d hh mm ss ns zone)))))))))))))"

subsection \<open>Reading back what was written\<close>

lemma append_int_fixed: "n < 10 ^ w \<Longrightarrow> append_int w (int n) = fixed_digits w n"
  by (simp add: append_int_def)

lemma fixed_digits_Suc_hd: "fixed_digits 2 n = [digit (n div 10), digit n]"
  by (simp add: numeral_2_eq_2)

lemma parse_hour_fixed: "n < 100 \<Longrightarrow> parse_hour (fixed_digits 2 n @ s) = Some (n, s)"
  by (simp add: parse_hour_def fixed_digits_Suc_hd)

lemma strip_zeros_pad:
  "length ds = k \<Longrightarrow>
   take k (rev (dropWhile (\<lambda>c. c = z) (rev ds)) @ replicate k z) = ds"
proof -
  assume k: "length ds = k"
  define zs where "zs = takeWhile (\<lambda>c. c = z) (rev ds)"
  have zs: "zs = replicate (length zs) z"
    by (rule replicate_eqI[symmetric, THEN sym]) (auto simp: zs_def dest: set_takeWhileD)
  have "rev ds = zs @ dropWhile (\<lambda>c. c = z) (rev ds)" by (simp add: zs_def)
  then have ds: "ds = rev (dropWhile (\<lambda>c. c = z) (rev ds)) @ rev zs" by (metis rev_append rev_rev_ident)
  then have len: "length (rev (dropWhile (\<lambda>c. c = z) (rev ds))) + length zs = k"
    using k by (metis length_append length_rev)
  have "take (length zs) (replicate k z) = rev zs"
    using len zs by (metis add.commute le_add1 min.absorb1 rev_replicate take_replicate)
  with ds len k show ?thesis by (metis add_diff_cancel_left' append_take_drop_id le_add1 length_append take_all_iff take_append)
qed

lemma parse_fraction_format:
  assumes "ns < 10 ^ 9"
  shows "parse_fraction (format_fraction ns @ ''Z'') = (ns, ''Z'')"
proof -
  define ds where "ds = rev (dropWhile (\<lambda>c. c = CHR ''0'') (rev (fixed_digits 9 ns)))"
  have pad: "take 9 (ds @ replicate 9 CHR ''0'') = fixed_digits 9 ns"
    unfolding ds_def by (rule strip_zeros_pad) simp
  have digs: "list_all is_digit ds"
    using fixed_digits_are_digits[of 9 ns] unfolding ds_def list_all_iff
    by (auto dest: set_dropWhileD)
  have ff: "format_fraction ns = (if ds = [] then [] else CHR ''.'' # ds)"
    by (simp only: format_fraction_def ds_def Let_def)
  show ?thesis
  proof (cases ds)
    case Nil
    then have "fixed_digits 9 ns = replicate 9 CHR ''0''" using pad by simp
    then have "digits_val (replicate 9 CHR ''0'') = ns" using digits_val_fixed[OF assms] by simp
    moreover have "digits_val (replicate 9 CHR ''0'') = 0" by code_simp
    ultimately have "format_fraction ns = []" using Nil ff by simp
    then show ?thesis using \<open>digits_val (replicate 9 CHR ''0'') = ns\<close>
        \<open>digits_val (replicate 9 CHR ''0'') = 0\<close> by (simp add: parse_fraction_def)
  next
    case (Cons d r)
    have "takeWhile is_digit (ds @ ''Z'') = ds" "dropWhile is_digit (ds @ ''Z'') = ''Z''"
      using digs by (auto simp: takeWhile_append2 dropWhile_append2 list_all_iff is_digit_def)
    with Cons digs pad digits_val_fixed[OF assms] show ?thesis
      by (simp add: ff parse_fraction_def Let_def)
  qed
qed

theorem parse_format_utc:
  assumes "0 \<le> year_of t" "year_of t \<le> 9999"
  shows "parse_rfc3339 (format_utc t) = Some t"
proof -
  define s where "s = t div second"
  define sod where "sod = nat (s mod 86400)"
  define hh mm ss where "hh = sod div 3600" and "mm = sod div 60 mod 60" and "ss = sod mod 60"
  define ns where "ns = nat (t mod second)"
  obtain y m d where ymd: "civil_of_days (s div 86400) = (y, m, d)" by (metis prod_cases3)
  note C = civil_of_days_correct[OF ymd]
  have "y = year_of t" by (simp add: year_of_def ymd flip: s_def)
  then have y: "y = int (nat y)" "nat y < 10 ^ 4" using assms by simp_all
  then obtain yn where y: "y = int yn" "yn < 10 ^ 4" by blast
  have d31: "d < 100"
  proof -
    have "month_lengths y ! (m - 1) \<le> 31"
      using C(2,3) by (auto simp: month_lengths_def nth_Cons split: nat.splits)
    with C(5) show ?thesis by linarith
  qed
  have sod: "sod < 86400" by (simp add: sod_def)
  have clock: "hh < 24" "mm < 60" "ss < 60" using sod by (auto simp: hh_def mm_def ss_def)
  have ns: "ns < 10 ^ 9" by (simp add: ns_def second_def)
  have small: "m < 10 ^ 2" "d < 10 ^ 2" "hh < 10 ^ 2" "mm < 10 ^ 2" "ss < 10 ^ 2"
    using sod C(3) d31 by (simp_all add: hh_def mm_def ss_def)
  have fmt: "format_utc t = fixed_digits 4 yn @ CHR ''-'' # fixed_digits 2 m @ CHR ''-'' #
      fixed_digits 2 d @ CHR ''T'' # fixed_digits 2 hh @ CHR '':'' # fixed_digits 2 mm @ CHR '':'' #
      fixed_digits 2 ss @ format_fraction ns @ ''Z''"
    unfolding format_utc_def Let_def s_def[symmetric] sod_def[symmetric] ns_def[symmetric]
      hh_def[symmetric] mm_def[symmetric] ss_def[symmetric] ymd prod.case y(1)
      append_int_fixed[OF y(2)] append_int_fixed[OF small(1)] append_int_fixed[OF small(2)]
      append_int_fixed[OF small(3)] append_int_fixed[OF small(4)] append_int_fixed[OF small(5)] ..
  have "parse_rfc3339 (format_utc t) = Some (instant (int yn) m d hh mm ss ns 0)"
    using C(2-5) small clock y parse_fraction_format[OF ns]
    by (simp add: fmt parse_rfc3339_def parse_hour_fixed parse_zone_def)
  also have "instant (int yn) m d hh mm ss ns 0 = t"
  proof -
    have "sod div 3600 = sod div 60 div 60" by (simp add: div_mult2_eq)
    then have "60 * hh + mm = sod div 60" by (simp add: hh_def mm_def)
    moreover have "60 * (sod div 60) + ss = sod" by (simp add: ss_def)
    ultimately have "3600 * hh + 60 * mm + ss = sod" by linarith
    then have "int (3600 * hh + 60 * mm + ss) = s mod 86400" by (simp add: sod_def)
    moreover have "int ns = t mod second" by (simp add: ns_def)
    ultimately show ?thesis using C(1) y(1) by (simp add: instant_def s_def)
  qed
  finally show ?thesis .
qed

lemma format_utc_inj:
  assumes "0 \<le> year_of t" "year_of t \<le> 9999" "0 \<le> year_of u" "year_of u \<le> 9999"
    "format_utc t = format_utc u"
  shows "t = u"
  using assms parse_format_utc by (metis option.inject)

end
