(* ===== verification/Access_Turn.thy ===== *)
theory Access_Turn
  imports Address Time_Format
begin

text \<open>
  The access gate (\<open>internal/server/access/gate.go\<close>), the TURN credential issuer
  (\<open>internal/server/turn/issuer.go\<close>) and the HTTP handler that puts them together
  (\<open>internal/server/httpapi\<close>).  HMAC-SHA1 is a parameter, a function from a key and a message
  to a byte string; its result only enters the credential.
\<close>

subsection \<open>Access gate\<close>

text \<open>A gate is its key; a nil gate is \<open>None\<close>.  A request is its \<open>Authorization\<close> header, empty when absent.\<close>

definition gate_new :: "string \<Rightarrow> string option" where
  "gate_new key = (if length key < 24 \<or> length key > 1024 then None else Some key)"

definition bearer :: string where "bearer = ''Bearer ''"

definition Authorize :: "string option \<Rightarrow> string \<Rightarrow> bool" where
  "Authorize gate header = (case gate of
      None \<Rightarrow> True
    | Some key \<Rightarrow>
        if \<not> prefix bearer header then False
        else let candidate = drop (length bearer) header
             in length candidate = length key \<and> candidate = key)"

text \<open>A gate lets in exactly the requests that carry its whole key as bearer token.\<close>

lemma gate_exact:
  "gate_new key = Some k \<Longrightarrow> Authorize (Some k) header \<longleftrightarrow> header = bearer @ key"
  by (auto simp: gate_new_def Authorize_def prefix_def Let_def split: if_splits)

subsection \<open>TURN credentials\<close>

definition base64_std_alphabet :: string where
  "base64_std_alphabet = ''ABCDEFGHIJKLMNOPQRSTUVWXYZabcdefghijklmnopqrstuvwxyz0123456789+/''"

definition base64_std_encode :: "string \<Rightarrow> string" where
  "base64_std_encode s = (
    let e = map (\<lambda>g. base64_std_alphabet ! bits_val g) (chunks 6 (byte_bits s))
    in e @ replicate ((4 - length e mod 4) mod 4) CHR ''='')"

record issuer_config =
  ic_Secret :: string
  ic_URLs :: "string list"
  ic_STUNURLs :: "string list"
  ic_TTL :: duration

record ice_server =
  ice_URLs :: "string list"
  ice_Username :: string
  ice_Credential :: string

record turn_credentials =
  tc_ExpiresAt :: time
  tc_ICEServers :: "ice_server list"

datatype issuer_error = ShortSecret | NoTURNURL | TooManyURLs | BadTURNURL string | BadSTUNURL string | BadTTL

definition issuer_new :: "issuer_config \<Rightarrow> issuer_error + issuer_config" where
  "issuer_new c =
    (if length (ic_Secret c) < 32 then Inl ShortSecret
     else if length (ic_URLs c) = 0 then Inl NoTURNURL
     else if length (ic_URLs c) > 8 \<or> length (ic_STUNURLs c) > 8 then Inl TooManyURLs
     else case List.find (\<lambda>u. \<not> ValidTURNURL u) (ic_URLs c) of
         Some u \<Rightarrow> Inl (BadTURNURL u)
       | None \<Rightarrow> (case List.find (\<lambda>u. \<not> ValidSTUNURL u) (ic_STUNURLs c) of
           Some u \<Rightarrow> Inl (BadSTUNURL u)
         | None \<Rightarrow>
             let c = (if ic_TTL c \<le> 0 then c\<lparr>ic_TTL := 10 * minute\<rparr> else c)
             in if ic_TTL c < minute \<or> ic_TTL c > hour then Inl BadTTL else Inr c))"

text \<open>\<open>Time.Unix\<close> in decimal.\<close>

definition format_unix :: "time \<Rightarrow> string" where
  "format_unix t = (let s = (t - unix_epoch) div second
     in if s < 0 then CHR ''-'' # decimal (nat (- s)) else decimal (nat s))"

definition Issue :: "(string \<Rightarrow> string \<Rightarrow> string) \<Rightarrow> time \<Rightarrow> string \<Rightarrow> issuer_config \<Rightarrow> turn_credentials" where
  "Issue hmac_sha1 now username c = (
     let expiresAt = now + ic_TTL c;
         turnUsername = format_unix expiresAt @ '':'' @ username;
         credential = base64_std_encode (hmac_sha1 (ic_Secret c) turnUsername);
         servers = (if length (ic_STUNURLs c) \<noteq> 0
           then [\<lparr>ice_URLs = ic_STUNURLs c, ice_Username = [], ice_Credential = []\<rparr>] else [])
     in \<lparr>tc_ExpiresAt = expiresAt, tc_ICEServers = servers @
          [\<lparr>ice_URLs = ic_URLs c, ice_Username = turnUsername, ice_Credential = credential\<rparr>]\<rparr>)"

text \<open>The handler: absent without an issuer, otherwise a status and, on success, the credentials.\<close>

datatype turn_response = NotRegistered | Unauthorized | RandomFailed | Issued turn_credentials

definition turn_handler ::
  "(string \<Rightarrow> string \<Rightarrow> string) \<Rightarrow> string option \<Rightarrow> issuer_config option \<Rightarrow> string \<Rightarrow> time \<Rightarrow> string option \<Rightarrow> turn_response" where
  "turn_handler hmac_sha1 gate issuer header now random = (case issuer of
      None \<Rightarrow> NotRegistered
    | Some c \<Rightarrow>
        if \<not> Authorize gate header then Unauthorized
        else case random of
            None \<Rightarrow> RandomFailed
          | Some subject \<Rightarrow> Issued (Issue hmac_sha1 now (base64_url_encode subject) c))"

lemma find_None_all: "List.find P xs = None \<longleftrightarrow> (\<forall>x \<in> set xs. \<not> P x)"
  by (induction xs) auto

lemma issuer_new_facts:
  assumes "issuer_new c = Inr i"
  shows "minute \<le> ic_TTL i \<and> ic_TTL i \<le> hour \<and> ic_URLs i = ic_URLs c \<and> ic_STUNURLs i = ic_STUNURLs c \<and>
    ic_Secret i = ic_Secret c \<and> 32 \<le> length (ic_Secret c) \<and> ic_URLs c \<noteq> [] \<and> length (ic_URLs c) \<le> 8 \<and>
    length (ic_STUNURLs c) \<le> 8 \<and> (\<forall>u \<in> set (ic_URLs c). ValidTURNURL u) \<and> (\<forall>u \<in> set (ic_STUNURLs c). ValidSTUNURL u)"
  using assms
  by (auto simp: issuer_new_def Let_def find_None_all not_less split: if_splits option.splits)

text \<open>
  Credentials are only issued to an authorised request; they expire between a minute
  and an hour later, name one or two servers with one to eight valid URLs each, and their
  password is the keyed hash of a user name that contains the expiry.
\<close>

theorem issued_credentials:
  assumes "issuer_new cfg = Inr c" "turn_handler hmac gate (Some c) header now (Some subject) = Issued creds"
  shows "Authorize gate header \<and> now + minute \<le> tc_ExpiresAt creds \<and> tc_ExpiresAt creds \<le> now + hour \<and>
    1 \<le> length (tc_ICEServers creds) \<and> length (tc_ICEServers creds) \<le> 2 \<and>
    (\<forall>s \<in> set (tc_ICEServers creds). 1 \<le> length (ice_URLs s) \<and> length (ice_URLs s) \<le> 8 \<and>
       (\<forall>u \<in> set (ice_URLs s). ValidTURNURL u \<or> ValidSTUNURL u)) \<and>
    (let s = last (tc_ICEServers creds) in
       ice_Username s = format_unix (tc_ExpiresAt creds) @ '':'' @ base64_url_encode subject \<and>
       ice_Credential s = base64_std_encode (hmac (ic_Secret cfg) (ice_Username s)))"
proof -
  note F = issuer_new_facts[OF assms(1)]
  have "Authorize gate header" and creds: "creds = Issue hmac now (base64_url_encode subject) c"
    using assms(2) by (auto simp: turn_handler_def split: if_splits)
  moreover have "1 \<le> length (ic_URLs cfg)" using F by (cases "ic_URLs cfg") auto
  ultimately show ?thesis
    using F unfolding creds Issue_def Let_def by (auto simp: Suc_leI)
qed

definition demo_issuer :: issuer_config where
  "demo_issuer = \<lparr>ic_Secret = replicate 32 CHR ''s'', ic_URLs = [''turn:relay.example:3478''],
     ic_STUNURLs = [''stun:relay.example''], ic_TTL = 0\<rparr>"

theorem issued_credentials_witness:
  "let c = demo_issuer\<lparr>ic_TTL := 10 * minute\<rparr>;
       creds = Issue (\<lambda>k m. k) unix_epoch (base64_url_encode ''subject'') c
   in issuer_new demo_issuer = Inr c \<and> tc_ExpiresAt creds = unix_epoch + 10 * minute \<and>
      length (tc_ICEServers creds) \<le> 2"
proof -
  let ?c = "demo_issuer\<lparr>ic_TTL := 10 * minute\<rparr>"
  have new: "issuer_new demo_issuer = Inr ?c" by code_simp
  have "turn_handler (\<lambda>k m. k) None (Some ?c) [] unix_epoch (Some ''subject'') =
      Issued (Issue (\<lambda>k m. k) unix_epoch (base64_url_encode ''subject'') ?c)"
    by (simp add: turn_handler_def Authorize_def)
  from issued_credentials[OF new this] new show ?thesis by (simp add: Let_def Issue_def)
qed

end
