(* ===== verification/Json.thy ===== *)
theory Json
  imports Time_Format
begin

text \<open>
  The JSON reading the program relies on, as Go's \<open>encoding/json\<close> does it: UTF-8
  decoding, the grammar, string unquoting, and the rules by which an object is stored into a
  struct (case-insensitive names, \<open>null\<close> leaves a field alone, unknown members skipped or
  refused, \<open>json.RawMessage\<close> keeps the text of the member).
\<close>

subsection \<open>UTF-8\<close>

definition in_range :: "nat \<Rightarrow> nat \<Rightarrow> char \<Rightarrow> bool" where
  "in_range lo hi c \<longleftrightarrow> lo \<le> code c \<and> code c \<le> hi"

definition cont :: "char \<Rightarrow> bool" where
  "cont = in_range 0x80 0xBF"

definition cont_val :: "char \<Rightarrow> nat" where
  "cont_val c = code c mod 64"

definition rune_error :: nat where "rune_error = 0xFFFD"

text \<open>\<open>utf8.DecodeRune\<close>: the rune and its width; an invalid byte is the error rune of width one.\<close>

definition decode_rune :: "string \<Rightarrow> nat \<times> nat" where
  "decode_rune s = (case s of [] \<Rightarrow> (rune_error, 0) | a # r \<Rightarrow>
    let x = code a in
    if x < 0x80 then (x, 1)
    else if 0xC2 \<le> x \<and> x \<le> 0xDF then (case r of
        b # _ \<Rightarrow> if cont b then ((x mod 32) * 64 + cont_val b, 2) else (rune_error, 1)
      | _ \<Rightarrow> (rune_error, 1))
    else if 0xE0 \<le> x \<and> x \<le> 0xEF then (case r of
        b # c # _ \<Rightarrow>
          if in_range (if x = 0xE0 then 0xA0 else 0x80) (if x = 0xED then 0x9F else 0xBF) b \<and> cont c
          then ((x mod 16) * 4096 + cont_val b * 64 + cont_val c, 3) else (rune_error, 1)
      | _ \<Rightarrow> (rune_error, 1))
    else if 0xF0 \<le> x \<and> x \<le> 0xF4 then (case r of
        b # c # d # _ \<Rightarrow>
          if in_range (if x = 0xF0 then 0x90 else 0x80) (if x = 0xF4 then 0x8F else 0xBF) b \<and> cont c \<and> cont d
          then ((x mod 8) * 262144 + cont_val b * 4096 + cont_val c * 64 + cont_val d, 4)
          else (rune_error, 1)
      | _ \<Rightarrow> (rune_error, 1))
    else (rune_error, 1))"

lemma decode_rune_width: "s \<noteq> [] \<Longrightarrow> 1 \<le> snd (decode_rune s)"
  by (simp add: decode_rune_def Let_def split: list.splits)

text \<open>\<open>utf8.AppendRune\<close>; surrogates and values past the last code point become the error rune.\<close>

definition encode_rune :: "nat \<Rightarrow> string" where
  "encode_rune r = (
    let r = (if (0xD800 \<le> r \<and> r \<le> 0xDFFF) \<or> 0x10FFFF < r then rune_error else r) in
    map char_of (
      if r < 0x80 then [r]
      else if r < 0x800 then [0xC0 + r div 64, 0x80 + r mod 64]
      else if r < 0x10000 then [0xE0 + r div 4096, 0x80 + r div 64 mod 64, 0x80 + r mod 64]
      else [0xF0 + r div 262144, 0x80 + r div 4096 mod 64, 0x80 + r div 64 mod 64, 0x80 + r mod 64]))"

text \<open>\<open>utf8.ValidString\<close>.\<close>

function valid_utf8 :: "string \<Rightarrow> bool" where
  "valid_utf8 s = (if s = [] then True
    else let (r, w) = decode_rune s in if r = rune_error \<and> w = 1 then False else valid_utf8 (drop (max 1 w) s))"
  by pat_completeness auto
termination by (relation "measure length") (auto simp: max_def)

declare valid_utf8.simps [simp del]

subsection \<open>Strings\<close>

definition hex_val :: "char \<Rightarrow> nat option" where
  "hex_val c = (let x = code c in
     if 48 \<le> x \<and> x \<le> 57 then Some (x - 48)
     else if 97 \<le> x \<and> x \<le> 102 then Some (x - 87)
     else if 65 \<le> x \<and> x \<le> 70 then Some (x - 55) else None)"

definition hex4 :: "string \<Rightarrow> nat option" where
  "hex4 s = (case map hex_val (take 4 s) of
      [Some a, Some b, Some c, Some d] \<Rightarrow> Some (((a * 16 + b) * 16 + c) * 16 + d)
    | _ \<Rightarrow> None)"

definition escapes :: "(char \<times> char) list" where
  "escapes = [(CHR 0x22, CHR 0x22), (CHR 0x5C, CHR 0x5C), (CHR ''/'', CHR ''/''), (CHR ''b'', CHR 0x08),
     (CHR ''f'', CHR 0x0C), (CHR ''n'', CHR 0x0A), (CHR ''r'', CHR 0x0D), (CHR ''t'', CHR 0x09)]"

text \<open>The body of a string literal up to its closing quote, and what follows.\<close>

function scan_string :: "string \<Rightarrow> (string \<times> string) option" where
  "scan_string s = (case s of [] \<Rightarrow> None | c # r \<Rightarrow>
    if c = CHR 0x22 then Some ([], r)
    else if c = CHR 0x5C then (case r of [] \<Rightarrow> None | e # _ \<Rightarrow>
      if map_of escapes e \<noteq> None then
        map_option (\<lambda>(body, rest). (take 2 s @ body, rest)) (scan_string (drop 2 s))
      else if e = CHR ''u'' \<and> hex4 (drop 2 s) \<noteq> None then
        map_option (\<lambda>(body, rest). (take 6 s @ body, rest)) (scan_string (drop 6 s))
      else None)
    else if code c < 0x20 then None
    else map_option (\<lambda>(body, rest). (c # body, rest)) (scan_string r))"
  by pat_completeness auto
termination by (relation "measure length") auto

declare scan_string.simps [simp del]

text \<open>The string a literal's body denotes, always valid UTF-8.\<close>

function unquote :: "string \<Rightarrow> string" where
  "unquote s = (case s of [] \<Rightarrow> [] | c # r \<Rightarrow>
    if c = CHR 0x5C then (case r of [] \<Rightarrow> [] | e # _ \<Rightarrow>
      if e = CHR ''u'' then
        let x = (case hex4 (drop 2 s) of Some x \<Rightarrow> x | None \<Rightarrow> rune_error);
            y = (if take 2 (drop 6 s) = [CHR 0x5C, CHR ''u''] then hex4 (drop 8 s) else None)
        in (case y of
            Some y \<Rightarrow>
              if 0xD800 \<le> x \<and> x < 0xDC00 \<and> 0xDC00 \<le> y \<and> y < 0xE000
              then encode_rune ((x - 0xD800) * 1024 + (y - 0xDC00) + 0x10000) @ unquote (drop 12 s)
              else encode_rune x @ unquote (drop 6 s)
          | None \<Rightarrow> encode_rune x @ unquote (drop 6 s))
      else (case map_of escapes e of Some x \<Rightarrow> [x] | None \<Rightarrow> []) @ unquote (drop 2 s))
    else if code c < 0x80 then c # unquote r
    else let (x, w) = decode_rune s in encode_rune x @ unquote (drop (max 1 w) s))"
  by pat_completeness auto
termination by (relation "measure length") (auto simp: max_def)

declare unquote.simps [simp del]

definition plain_text :: "string \<Rightarrow> bool" where
  "plain_text s \<longleftrightarrow> list_all (\<lambda>c. 0x20 \<le> code c \<and> code c < 0x80 \<and> c \<noteq> CHR 0x22 \<and> c \<noteq> CHR 0x5C) s"

lemma scan_plain [simp]: "plain_text s \<Longrightarrow> scan_string (s @ CHR 0x22 # r) = Some (s, r)"
proof (induction s)
  case (Cons c s)
  then show ?case by (simp add: plain_text_def scan_string.simps[of "c # s @ CHR 0x22 # r"])
qed (simp add: scan_string.simps)

lemma unquote_plain [simp]: "plain_text s \<Longrightarrow> unquote s = s"
proof (induction s)
  case (Cons c s)
  then show ?case by (simp add: plain_text_def unquote.simps[of "c # s"])
qed (simp add: unquote.simps)

lemma scan_string_step:
  assumes "scan_string s = Some (b, r)"
  shows "s \<noteq> [] \<and> (r = drop 1 s \<or> (\<exists>n b'. 0 < n \<and> scan_string (drop n s) = Some (b', r)))"
proof (cases s)
  case (Cons c t)
  have wit: "scan_string (drop n s) = Some (b', r) \<Longrightarrow> 0 < n \<Longrightarrow>
      \<exists>n b'. 0 < n \<and> scan_string (drop n s) = Some (b', r)" for n b' by blast
  show ?thesis
    using assms wit[of 2] wit[of 6] wit[of 1] unfolding scan_string.simps[of s]
    by (auto simp: Cons split: if_splits list.splits)
qed (use assms in \<open>simp add: scan_string.simps\<close>)

lemma scan_string_shorter: "scan_string s = Some (b, r) \<Longrightarrow> length r < length s"
proof (induction "length s" arbitrary: s b rule: less_induct)
  case less
  from scan_string_step[OF less.prems] consider "s \<noteq> []" "r = drop 1 s"
    | n b' where "s \<noteq> []" "0 < n" "scan_string (drop n s) = Some (b', r)" by blast
  then show ?case
  proof cases
    case 2
    then have "length (drop n s) < length s" by simp
    with less.hyps[OF _ 2(3)] show ?thesis by simp
  qed simp
qed

subsection \<open>Grammar\<close>

text \<open>
  A value keeps what decoding needs: a number its literal, a string its body, and each array
  element and object member the text it was read from.
\<close>

datatype json = JNull | JBool bool | JNumber string | JString string
  | JArray "(string \<times> json) list" | JObject "(string \<times> string \<times> json) list"

definition is_json_space :: "char \<Rightarrow> bool" where
  "is_json_space c \<longleftrightarrow> c = CHR 0x20 \<or> c = CHR 0x09 \<or> c = CHR 0x0A \<or> c = CHR 0x0D"

definition skip_space :: "string \<Rightarrow> string" where
  "skip_space s = dropWhile is_json_space s"

definition scan_digits :: "string \<Rightarrow> (string \<times> string) option" where
  "scan_digits s = (if takeWhile is_digit s = [] then None
     else Some (takeWhile is_digit s, dropWhile is_digit s))"

text \<open>A number is cut where no longer literal of the grammar fits.\<close>

definition scan_number :: "string \<Rightarrow> (string \<times> string) option" where
  "scan_number s = (
    let r = (case s of c # t \<Rightarrow> if c = CHR ''-'' then t else s | [] \<Rightarrow> s) in
    Option.bind (case r of c # t \<Rightarrow> if c = CHR ''0'' then Some t else map_option snd (scan_digits r)
        | [] \<Rightarrow> None) (\<lambda>r.
    Option.bind (case r of c # t \<Rightarrow> if c = CHR ''.'' then map_option snd (scan_digits t) else Some r
        | [] \<Rightarrow> Some r) (\<lambda>r.
    Option.bind (case r of c # t \<Rightarrow>
          if c = CHR ''e'' \<or> c = CHR ''E'' then
            map_option snd (scan_digits (case t of g # u \<Rightarrow> if g = CHR ''+'' \<or> g = CHR ''-'' then u else t | [] \<Rightarrow> t))
          else Some r
        | [] \<Rightarrow> Some r) (\<lambda>r.
      Some (take (length s - length r) s, r)))))"

definition max_nesting :: nat where "max_nesting = 10000"

text \<open>The consumed text: what precedes the remainder.\<close>

definition consumed :: "string \<Rightarrow> string \<Rightarrow> string" where
  "consumed s rest = take (length s - length rest) s"

fun parse_value :: "nat \<Rightarrow> nat \<Rightarrow> string \<Rightarrow> (json \<times> string) option"
  and parse_members :: "nat \<Rightarrow> nat \<Rightarrow> string \<Rightarrow> ((string \<times> string \<times> json) list \<times> string) option"
  and parse_elements :: "nat \<Rightarrow> nat \<Rightarrow> string \<Rightarrow> ((string \<times> json) list \<times> string) option"
where
  "parse_value 0 d s = None"
| "parse_value (Suc f) d s = (case s of [] \<Rightarrow> None | c # r \<Rightarrow>
    if c = CHR 0x22 then map_option (\<lambda>(b, rest). (JString b, rest)) (scan_string r)
    else if c = CHR ''{'' then
      (if max_nesting \<le> d then None
       else case skip_space r of
           [] \<Rightarrow> None
         | e # t \<Rightarrow> if e = CHR ''}'' then Some (JObject [], t)
                    else map_option (\<lambda>(ms, rest). (JObject ms, rest)) (parse_members f (Suc d) (e # t)))
    else if c = CHR ''['' then
      (if max_nesting \<le> d then None
       else case skip_space r of
           [] \<Rightarrow> None
         | e # t \<Rightarrow> if e = CHR '']'' then Some (JArray [], t)
                    else map_option (\<lambda>(es, rest). (JArray es, rest)) (parse_elements f (Suc d) (e # t)))
    else if take 4 s = ''true'' then Some (JBool True, drop 4 s)
    else if take 5 s = ''false'' then Some (JBool False, drop 5 s)
    else if take 4 s = ''null'' then Some (JNull, drop 4 s)
    else map_option (\<lambda>(n, rest). (JNumber n, rest)) (scan_number s))"
| "parse_members 0 d s = None"
| "parse_members (Suc f) d s = (case s of [] \<Rightarrow> None | c # r \<Rightarrow>
    if c \<noteq> CHR 0x22 then None
    else Option.bind (scan_string r) (\<lambda>(key, r).
      Option.bind (expect CHR '':'' (skip_space r)) (\<lambda>r.
      Option.bind (parse_value f d (skip_space r)) (\<lambda>(v, rest).
        let m = (key, consumed (skip_space r) rest, v) in
        case skip_space rest of
          [] \<Rightarrow> None
        | e # t \<Rightarrow> if e = CHR ''}'' then Some ([m], t)
                   else if e = CHR '','' then
                     map_option (\<lambda>(ms, rest). (m # ms, rest)) (parse_members f d (skip_space t))
                   else None))))"
| "parse_elements 0 d s = None"
| "parse_elements (Suc f) d s =
    Option.bind (parse_value f d s) (\<lambda>(v, rest).
      let m = (consumed s rest, v) in
      case skip_space rest of
        [] \<Rightarrow> None
      | e # t \<Rightarrow> if e = CHR '']'' then Some ([m], t)
                 else if e = CHR '','' then
                   map_option (\<lambda>(ms, rest). (m # ms, rest)) (parse_elements f d (skip_space t))
                 else None)"

text \<open>The first value of a text and what follows it, as \<open>json.Decoder\<close> reads it.\<close>

definition parse_json :: "string \<Rightarrow> (json \<times> string) option" where
  "parse_json s = parse_value (2 * length s + 2) 0 (skip_space s)"

lemma skip_space_le: "length (skip_space s) \<le> length s"
  by (simp add: skip_space_def length_dropWhile_le)

lemma skip_space_cons: "skip_space s = c # t \<Longrightarrow> length t < length s"
  using skip_space_le[of s] by simp

lemma scan_digits_shorter: "scan_digits s = Some (a, r) \<Longrightarrow> length r < length s"
proof -
  assume a: "scan_digits s = Some (a, r)"
  have "length s = length (takeWhile is_digit s) + length (dropWhile is_digit s)"
    by (metis length_append takeWhile_dropWhile_id)
  with a show ?thesis by (auto simp: scan_digits_def split: if_splits)
qed

lemma expect_length: "expect c s = Some r \<Longrightarrow> length r < length s"
  by (cases s) (auto split: if_splits)

lemma scan_number_shorter: "scan_number s = Some (n, r) \<Longrightarrow> length r < length s"
  unfolding scan_number_def Let_def
  by (auto split: list.splits if_splits bind_splits dest!: scan_digits_shorter)

lemma parse_value_parts:
  assumes "parse_value (Suc f) d s = Some (v, r)"
  shows "\<exists>c t. s = c # t \<and>
    ((\<exists>b. scan_string t = Some (b, r)) \<or> (\<exists>e. skip_space t = e # r) \<or>
     (\<exists>ms. parse_members f (Suc d) (skip_space t) = Some (ms, r)) \<or>
     (\<exists>es. parse_elements f (Suc d) (skip_space t) = Some (es, r)) \<or>
     (\<exists>k. r = drop (Suc k) s) \<or> (\<exists>n. scan_number s = Some (n, r)))"
proof (cases s)
  case (Cons c t)
  have drops: "drop 3 t = drop (Suc 3) s" "drop 4 t = drop (Suc 4) s" by (simp_all add: Cons)
  show ?thesis
  proof (cases "c = CHR 0x22 \<or> c = CHR ''{'' \<or> c = CHR ''[''")
    case True
    then show ?thesis using assms unfolding Cons
      by (elim disjE) (auto split: if_splits list.splits)
  next
    case False
    then have "(\<exists>k. r = drop (Suc k) s) \<or> (\<exists>n. scan_number s = Some (n, r))"
      using assms drops unfolding Cons by (auto split: if_splits)
    with Cons show ?thesis by blast
  qed
qed (use assms in simp)

lemma parse_members_parts:
  assumes "parse_members (Suc f) d s = Some (ms, r)"
  shows "\<exists>c t b u w v x e y. s = c # t \<and> scan_string t = Some (b, u) \<and>
    expect CHR '':'' (skip_space u) = Some w \<and> parse_value f d (skip_space w) = Some (v, x) \<and>
    skip_space x = e # y \<and> (r = y \<or> (\<exists>ms. parse_members f d (skip_space y) = Some (ms, r)))"
proof (cases s)
  case (Cons c t)
  then obtain b u where 1: "c = CHR 0x22" "scan_string t = Some (b, u)"
    using assms by (auto split: if_splits bind_splits)
  then obtain w where 2: "expect CHR '':'' (skip_space u) = Some w"
    using assms Cons by (auto split: bind_splits)
  then obtain v x where 3: "parse_value f d (skip_space w) = Some (v, x)"
    using assms Cons 1 by (auto split: bind_splits)
  then obtain e y where 4: "skip_space x = e # y"
    using assms Cons 1 2 by (cases "skip_space x") (auto simp: Let_def)
  then have "r = y \<or> (\<exists>ms. parse_members f d (skip_space y) = Some (ms, r))"
    using assms Cons 1 2 3 by (auto simp: Let_def split: if_splits)
  with 1 2 3 4 Cons show ?thesis by blast
qed (use assms in simp)

lemma parse_elements_parts:
  assumes "parse_elements (Suc f) d s = Some (es, r)"
  shows "\<exists>v x e y. parse_value f d s = Some (v, x) \<and> skip_space x = e # y \<and>
    (r = y \<or> (\<exists>es. parse_elements f d (skip_space y) = Some (es, r)))"
proof -
  obtain v x where 1: "parse_value f d s = Some (v, x)"
    using assms by (auto split: bind_splits)
  then obtain e y where 2: "skip_space x = e # y"
    using assms by (cases "skip_space x") (auto simp: Let_def)
  then have "r = y \<or> (\<exists>es. parse_elements f d (skip_space y) = Some (es, r))"
    using assms 1 by (auto simp: Let_def split: if_splits)
  with 1 2 show ?thesis by blast
qed

lemma parse_shorter:
  "parse_value f d s = Some (v, r) \<Longrightarrow> length r < length s"
  "parse_members f d s = Some (ms, r) \<Longrightarrow> length r < length s"
  "parse_elements f d s = Some (es, r) \<Longrightarrow> length r < length s"
proof (induction f arbitrary: d s v ms es r)
  case (Suc f)
  {
    case 1
    then obtain c t where "s = c # t" and
      "(\<exists>b. scan_string t = Some (b, r)) \<or> (\<exists>e. skip_space t = e # r) \<or>
       (\<exists>ms. parse_members f (Suc d) (skip_space t) = Some (ms, r)) \<or>
       (\<exists>es. parse_elements f (Suc d) (skip_space t) = Some (es, r)) \<or>
       (\<exists>k. r = drop (Suc k) s) \<or> (\<exists>n. scan_number s = Some (n, r))"
      by (blast dest: parse_value_parts)
    then consider b where "scan_string t = Some (b, r)" | e where "skip_space t = e # r"
      | ms where "parse_members f (Suc d) (skip_space t) = Some (ms, r)"
      | es where "parse_elements f (Suc d) (skip_space t) = Some (es, r)"
      | k where "r = drop (Suc k) s" | n where "scan_number s = Some (n, r)" by blast
    then show ?case
    proof cases
      case 1
      with \<open>s = c # t\<close> show ?thesis by (auto dest: scan_string_shorter)
    next
      case 2
      with \<open>s = c # t\<close> show ?thesis by (auto dest: skip_space_cons)
    next
      case 3
      with Suc.IH(2) skip_space_le[of t] \<open>s = c # t\<close> show ?thesis by fastforce
    next
      case 4
      with Suc.IH(3) skip_space_le[of t] \<open>s = c # t\<close> show ?thesis by fastforce
    next
      case 5
      with \<open>s = c # t\<close> show ?thesis by simp
    next
      case 6
      then show ?thesis by (rule scan_number_shorter)
    qed
  next
    case 2
    then obtain c t b u w v x e y where p: "s = c # t" "scan_string t = Some (b, u)"
      "expect CHR '':'' (skip_space u) = Some w" "parse_value f d (skip_space w) = Some (v, x)"
      "skip_space x = e # y" "r = y \<or> (\<exists>ms. parse_members f d (skip_space y) = Some (ms, r))"
      using parse_members_parts[OF 2] by (elim exE conjE) (rule that; assumption)
    have "length u < length t" "length w < length (skip_space u)" "length x < length (skip_space w)"
      "length y < length x"
      using p Suc.IH(1) scan_string_shorter expect_length skip_space_cons by blast+
    moreover have "length r \<le> length (skip_space y)" if "r \<noteq> y" using p(6) Suc.IH(2) that less_imp_le by blast
    ultimately show ?case
      using skip_space_le[of u] skip_space_le[of w] skip_space_le[of y] p(1) by (cases "r = y") auto
  next
    case 3
    then obtain v x e y where p: "parse_value f d s = Some (v, x)"
      "skip_space x = e # y" "r = y \<or> (\<exists>es. parse_elements f d (skip_space y) = Some (es, r))"
      using parse_elements_parts[OF 3] by (elim exE conjE) (rule that; assumption)
    have "length x < length s" "length y < length x"
      using p Suc.IH(1) skip_space_cons by blast+
    moreover have "length r \<le> length (skip_space y)" if "r \<noteq> y" using p(3) Suc.IH(3) that less_imp_le by blast
    ultimately show ?case using skip_space_le[of y] by (cases "r = y") auto
  }
qed auto

text \<open>Fuel beyond twice the length of the text changes nothing.\<close>

lemma parse_fuel:
  "2 * length s + 1 \<le> f \<Longrightarrow> f \<le> g \<Longrightarrow> parse_value f d s = parse_value g d s"
  "2 * length s + 2 \<le> f \<Longrightarrow> f \<le> g \<Longrightarrow> parse_members f d s = parse_members g d s"
  "2 * length s + 2 \<le> f \<Longrightarrow> f \<le> g \<Longrightarrow> parse_elements f d s = parse_elements g d s"
proof (induction f arbitrary: g d s)
  case (Suc f)
  {
    case 1
    then obtain g' where g: "g = Suc g'" "f \<le> g'" by (cases g) auto
    show ?case
    proof (cases s)
      case (Cons c t)
      have "2 * length (skip_space t) + 2 \<le> f" using 1 Cons skip_space_le[of t] by simp
      with Suc.IH(2,3)[of "skip_space t" g'] g(2) Cons show ?thesis
        by (auto simp: g(1) split: list.splits)
    qed (simp add: g)
  next
    case 2
    then obtain g' where g: "g = Suc g'" "f \<le> g'" by (cases g) auto
    have val: "parse_value f d (skip_space w) = parse_value g' d (skip_space w)"
      if "s = c # t" "scan_string t = Some (b, u)" "expect CHR '':'' (skip_space u) = Some w" for c t b u w
    proof -
      have "length (skip_space w) < length s"
        using that scan_string_shorter[OF that(2)] expect_length[OF that(3)] skip_space_le[of u] skip_space_le[of w]
        by simp
      with 2 g Suc.IH(1) show ?thesis by simp
    qed
    have rest: "parse_members f d (skip_space y) = parse_members g' d (skip_space y)"
      if "s = c # t" "scan_string t = Some (b, u)" "expect CHR '':'' (skip_space u) = Some w"
        "parse_value g' d (skip_space w) = Some (v, x)" "skip_space x = e # y" for c t b u w v x e y
    proof -
      have "length (skip_space y) < length s"
        using that scan_string_shorter[OF that(2)] expect_length[OF that(3)] parse_shorter(1)[OF that(4)]
          skip_space_cons[OF that(5)] skip_space_le[of u] skip_space_le[of w] skip_space_le[of y]
        by simp
      with 2 g Suc.IH(2) show ?thesis by simp
    qed
    show ?case unfolding g(1) parse_members.simps
      by (auto split: list.split intro!: Option.bind_cong simp: val rest Let_def)
  next
    case 3
    then obtain g' where g: "g = Suc g'" "f \<le> g'" by (cases g) auto
    have val: "parse_value f d s = parse_value g' d s" using 3 g Suc.IH(1) by simp
    have rest: "parse_elements f d (skip_space y) = parse_elements g' d (skip_space y)"
      if "parse_value g' d s = Some (v, x)" "skip_space x = e # y" for v x e y
    proof -
      have "length (skip_space y) < length s"
        using parse_shorter(1)[OF that(1)] skip_space_cons[OF that(2)] skip_space_le[of y] by simp
      with 3 g Suc.IH(3) show ?thesis by simp
    qed
    show ?case unfolding g(1) parse_elements.simps val
      by (auto split: list.split intro!: Option.bind_cong simp: rest Let_def)
  }
qed auto

subsection \<open>Storing into Go values\<close>

text \<open>Letters are matched without case; so are the two other code points that fold to a letter.\<close>

definition to_upper_char :: "char \<Rightarrow> char" where
  "to_upper_char c = (if 97 \<le> code c \<and> code c \<le> 122 then char_of (code c - 32) else c)"

fun fold_name :: "string \<Rightarrow> string" where
  "fold_name (a # b # c # s) =
    (if [a, b, c] = [CHR 0xE2, CHR 0x84, CHR 0xAA] then CHR ''K'' # fold_name s
     else if [a, b] = [CHR 0xC5, CHR 0xBF] then CHR ''S'' # fold_name (c # s)
     else to_upper_char a # fold_name (b # c # s))"
| "fold_name [a, b] = (if [a, b] = [CHR 0xC5, CHR 0xBF] then ''S'' else [to_upper_char a, to_upper_char b])"
| "fold_name [a] = [to_upper_char a]"
| "fold_name [] = []"

definition field_for :: "string list \<Rightarrow> string \<Rightarrow> string option" where
  "field_for names key = (if key \<in> set names then Some key
     else List.find (\<lambda>n. fold_name n = fold_name key) names)"

text \<open>
  Members are stored in order; one whose value does not fit its field makes the whole
  decoding fail, and so does an unknown one under \<open>DisallowUnknownFields\<close>.  \<open>store\<close> is
  given the field, the member's text and its value.
\<close>

fun store_members ::
  "(string \<Rightarrow> string \<Rightarrow> json \<Rightarrow> 'a \<Rightarrow> 'a option) \<Rightarrow> string list \<Rightarrow> bool \<Rightarrow>
   (string \<times> string \<times> json) list \<Rightarrow> 'a \<Rightarrow> 'a option" where
  "store_members store names strict [] a = Some a"
| "store_members store names strict ((key, raw, v) # ms) a =
    (case field_for names (unquote key) of
       None \<Rightarrow> if strict then None else store_members store names strict ms a
     | Some n \<Rightarrow> Option.bind (store n raw v a) (store_members store names strict ms))"

definition store_struct ::
  "(string \<Rightarrow> string \<Rightarrow> json \<Rightarrow> 'a \<Rightarrow> 'a option) \<Rightarrow> string list \<Rightarrow> bool \<Rightarrow> json \<Rightarrow> 'a \<Rightarrow> 'a option" where
  "store_struct store names strict v a = (case v of
      JObject ms \<Rightarrow> store_members store names strict ms a
    | JNull \<Rightarrow> Some a
    | _ \<Rightarrow> None)"

fun get_string :: "json \<Rightarrow> string \<Rightarrow> string option" where
  "get_string (JString b) old = Some (unquote b)"
| "get_string JNull old = Some old"
| "get_string _ old = None"

fun get_bool :: "json \<Rightarrow> bool \<Rightarrow> bool option" where
  "get_bool (JBool b) old = Some b"
| "get_bool JNull old = Some old"
| "get_bool _ old = None"

text \<open>\<open>strconv.ParseInt\<close> on a literal, in the range of \<open>int\<close>.\<close>

definition parse_int :: "string \<Rightarrow> int option" where
  "parse_int s = (
    let neg = (s \<noteq> [] \<and> hd s = CHR ''-''); ds = (if neg then tl s else s);
        v = (if neg then - int (digits_val ds) else int (digits_val ds))
    in if ds = [] \<or> \<not> list_all is_digit ds \<or> v < - (2 ^ 63) \<or> v \<ge> 2 ^ 63 then None else Some v)"

fun get_int :: "json \<Rightarrow> int \<Rightarrow> int option" where
  "get_int (JNumber n) old = parse_int n"
| "get_int JNull old = Some old"
| "get_int _ old = None"

text \<open>\<open>Time.UnmarshalJSON\<close> works on the text of the literal, escapes included.\<close>

fun get_time :: "json \<Rightarrow> time \<Rightarrow> time option" where
  "get_time (JString b) old = parse_rfc3339 b"
| "get_time JNull old = Some old"
| "get_time _ old = None"

text \<open>A \<open>[]string\<close>; a \<open>null\<close> element leaves the slot as it was.\<close>

fun get_elements :: "(string \<times> json) list \<Rightarrow> string list \<Rightarrow> string list option" where
  "get_elements [] old = Some []"
| "get_elements ((raw, v) # es) old =
    Option.bind (get_string v (case old of [] \<Rightarrow> [] | x # _ \<Rightarrow> x)) (\<lambda>x.
      map_option (\<lambda>xs. x # xs) (get_elements es (drop 1 old)))"

fun get_strings :: "json \<Rightarrow> string list \<Rightarrow> string list option" where
  "get_strings (JArray es) old = get_elements es old"
| "get_strings JNull old = Some []"
| "get_strings _ old = None"

subsection \<open>Writing objects\<close>

text \<open>
  \<open>json.Marshal\<close> of a struct: the members in declaration order without spaces, and
  \<open>json.MarshalIndent\<close> with two-space indentation.  Member texts are given; the strings the
  program writes this way hold plain text only, which needs no escapes.
\<close>

definition json_quote :: "string \<Rightarrow> string" where
  "json_quote s = CHR 0x22 # s @ [CHR 0x22]"

definition hex_digit :: "nat \<Rightarrow> char" where
  "hex_digit n = ''0123456789abcdef'' ! (n mod 16)"

text \<open>
  How \<open>json.Marshal\<close> writes the characters of a string, the HTML-sensitive ones and the two
  line separators included.
\<close>

definition escape_rune :: "nat \<Rightarrow> string" where
  "escape_rune r = (
     if r = 0x22 then [CHR 0x5C, CHR 0x22] else if r = 0x5C then [CHR 0x5C, CHR 0x5C]
     else if r = 0x08 then [CHR 0x5C, CHR ''b''] else if r = 0x0C then [CHR 0x5C, CHR ''f'']
     else if r = 0x0A then [CHR 0x5C, CHR ''n''] else if r = 0x0D then [CHR 0x5C, CHR ''r'']
     else if r = 0x09 then [CHR 0x5C, CHR ''t'']
     else if r < 0x20 \<or> r = 0x3C \<or> r = 0x3E \<or> r = 0x26 \<or> r = 0x2028 \<or> r = 0x2029
     then [CHR 0x5C, CHR ''u'', hex_digit (r div 4096), hex_digit (r div 256), hex_digit (r div 16), hex_digit r]
     else encode_rune r)"

function json_escape :: "string \<Rightarrow> string" where
  "json_escape s = (if s = [] then [] else
     let (r, w) = decode_rune s in
     (if r = rune_error \<and> w = 1 then [CHR 0x5C] @ ''ufffd'' else escape_rune r) @ json_escape (drop (max 1 w) s))"
  by pat_completeness auto
termination by (relation "measure length") (auto simp: max_def)

declare json_escape.simps [simp del]

fun gap :: "bool \<Rightarrow> string \<Rightarrow> string" where
  "gap indent s = (if indent then s else [])"

fun write_members :: "bool \<Rightarrow> (string \<times> string) list \<Rightarrow> string" where
  "write_members b [] = ''}''"
| "write_members b [(k, t)] = json_quote k @ CHR '':'' # gap b '' '' @ t @ gap b [CHR 0x0A] @ ''}''"
| "write_members b ((k, t) # ms) =
     json_quote k @ CHR '':'' # gap b '' '' @ t @ CHR '','' # gap b (CHR 0x0A # ''  '') @ write_members b ms"

definition json_object :: "(string \<times> string) list \<Rightarrow> string" where
  "json_object ms = CHR ''{'' # write_members False ms"

definition json_indented :: "(string \<times> string) list \<Rightarrow> string" where
  "json_indented ms = CHR ''{'' # CHR 0x0A # ''  '' @ write_members True ms"

definition texts :: "(string \<times> string \<times> json) list \<Rightarrow> (string \<times> string) list" where
  "texts ms = map (\<lambda>(k, t, v). (k, t)) ms"

definition string_member :: "string \<Rightarrow> string \<Rightarrow> string \<times> string \<times> json" where
  "string_member k s = (k, json_quote s, JString s)"

lemma texts_simps [simp]:
  "texts [] = []" "texts ((k, t, v) # ms) = (k, t) # texts ms"
  "texts (string_member k s # ms) = (k, json_quote s) # texts ms" "texts (ms @ ns) = texts ms @ texts ns"
  by (simp_all add: texts_def string_member_def)

definition ends_member :: "string \<Rightarrow> bool" where
  "ends_member r \<longleftrightarrow> r = [] \<or> hd r = CHR '','' \<or> hd r = CHR ''}'' \<or> hd r = CHR 0x0A"

text \<open>A text that is read back, inside an object, as a given value.\<close>

definition reads :: "nat \<Rightarrow> string \<Rightarrow> json \<Rightarrow> bool" where
  "reads d t v \<longleftrightarrow> t \<noteq> [] \<and> \<not> is_json_space (hd t) \<and>
     (\<forall>f r. 2 * length t + 1 \<le> f \<longrightarrow> ends_member r \<longrightarrow>
        parse_value f d (t @ r) = Some (v, r))"

lemma skip_space_quote [simp]: "skip_space (CHR 0x22 # s) = CHR 0x22 # s"
  and skip_space_colon [simp]: "skip_space (CHR '':'' # s) = CHR '':'' # s"
  and skip_space_comma [simp]: "skip_space (CHR '','' # s) = CHR '','' # s"
  and skip_space_open [simp]: "skip_space (CHR ''{'' # s) = CHR ''{'' # s"
  and skip_space_close [simp]: "skip_space (CHR ''}'' # s) = CHR ''}'' # s"
  and skip_space_newline [simp]: "skip_space (CHR 0x0A # s) = skip_space s"
  and skip_space_blank [simp]: "skip_space (CHR '' '' # s) = skip_space s"
  by (simp_all add: skip_space_def is_json_space_def)

lemma skip_space_reads: "reads d t v \<Longrightarrow> skip_space (t @ r) = t @ r"
  by (cases t) (auto simp: reads_def skip_space_def)

lemma consumed_append [simp]: "consumed (a @ r) r = a"
  by (simp add: consumed_def)

lemma readsI:
  assumes "t \<noteq> []" "\<not> is_json_space (hd t)"
    "\<And>g r. 2 * length t \<le> g \<Longrightarrow> ends_member r \<Longrightarrow>
       parse_value (Suc g) d (t @ r) = Some (v, r)"
  shows "reads d t v"
proof -
  have "parse_value f d (t @ r) = Some (v, r)"
    if "2 * length t + 1 \<le> f" "ends_member r" for f r
    using assms(3)[of "f - 1" r] that by (cases f) auto
  with assms(1,2) show ?thesis by (simp add: reads_def)
qed

lemma reads_string: "plain_text s \<Longrightarrow> reads d (json_quote s) (JString s)"
  by (rule readsI) (auto simp: json_quote_def is_json_space_def)

lemma reads_digit: "is_digit c \<Longrightarrow> c \<noteq> CHR ''0'' \<Longrightarrow> reads d [c] (JNumber [c])"
proof -
  assume c: "is_digit c" "c \<noteq> CHR ''0''"
  then have ne: "c \<noteq> CHR 0x22" "c \<noteq> CHR ''{''" "c \<noteq> CHR ''[''" "c \<noteq> CHR ''t''" "c \<noteq> CHR ''f''"
    "c \<noteq> CHR ''n''" "c \<noteq> CHR ''-''" "\<not> is_json_space c" by (auto simp: is_digit_def is_json_space_def)
  have dig: "\<not> is_digit CHR '',''" "\<not> is_digit CHR ''}''" "\<not> is_digit CHR 0x0A" by (simp_all add: is_digit_def)
  have "scan_number (c # r) = Some ([c], r)" if "ends_member r" for r
    using c ne dig that by (cases r) (auto simp: scan_number_def scan_digits_def ends_member_def)
  with ne show ?thesis by (intro readsI) auto
qed

lemma write_members_quote: "ms \<noteq> [] \<Longrightarrow> \<exists>t. write_members b ms = CHR 0x22 # t"
  by (cases "(b, ms)" rule: write_members.cases) (auto simp: json_quote_def)

lemma reads_value:
  "reads d t v \<Longrightarrow> 2 * length t + 1 \<le> f \<Longrightarrow> ends_member r \<Longrightarrow> parse_value f d (t @ r) = Some (v, r)"
  by (simp add: reads_def)

lemma parse_written_members:
  assumes "ms \<noteq> []" "\<forall>(k, t, v) \<in> set ms. plain_text k \<and> reads d t v"
    "2 * length (write_members b (texts ms)) \<le> f"
  shows "parse_members f d (write_members b (texts ms) @ r) = Some (ms, r)"
  using assms
proof (induction ms arbitrary: f rule: induct_list012)
  case (2 m)
  obtain k t v where m: "m = (k, t, v)" by (cases m)
  from 2 m obtain g where g: "f = Suc g" "2 * length t + 1 \<le> g"
    by (cases f) (auto simp: json_quote_def)
  from 2 m have t: "reads d t v" by simp
  have "ends_member (gap b [CHR 0x0A] @ CHR ''}'' # r)" by (simp add: ends_member_def)
  from reads_value[OF t g(2) this] 2 m g(1) skip_space_reads[OF t] show ?case
    by (simp add: json_quote_def Let_def split: if_splits)
next
  case (3 m m' ms)
  obtain k t v where m: "m = (k, t, v)" by (cases m)
  obtain k' t' v' where m': "m' = (k', t', v')" by (cases m')
  define more where "more = write_members b (texts (m' # ms))"
  from 3 m m' obtain g where g: "f = Suc g" "2 * length t + 1 \<le> g" "2 * length more \<le> g"
    by (cases f) (auto simp: json_quote_def more_def)
  have "texts (m' # ms) \<noteq> []" by (simp add: texts_def)
  then obtain u where u: "more = CHR 0x22 # u" unfolding more_def using write_members_quote by blast
  have IH: "parse_members g d (more @ r) = Some (m' # ms, r)"
    unfolding more_def by (rule 3(2)) (use 3 g(3) in \<open>auto simp: more_def\<close>)
  from 3 m have t: "reads d t v" by simp
  have "ends_member (CHR '','' # gap b (CHR 0x0A # ''  '') @ more @ r)" by (simp add: ends_member_def)
  note val = reads_value[OF t g(2) this]
  have "write_members b (texts (m # m' # ms)) @ r =
      CHR 0x22 # k @ CHR 0x22 # CHR '':'' # gap b '' '' @ t @ CHR '','' # gap b (CHR 0x0A # ''  '') @ more @ r"
    by (simp add: json_quote_def m m' more_def)
  then show ?case unfolding g(1) parse_members.simps(2)[of g]
    using 3 IH u val skip_space_reads[OF t]
    by (simp add: m Let_def del: write_members.simps texts_simps split: if_splits)
qed simp

lemma parse_written_object:
  assumes "ms \<noteq> []" "\<forall>(k, t, v) \<in> set ms. plain_text k \<and> reads (Suc d) t v" "d < max_nesting"
    "w = CHR ''{'' # gap b (CHR 0x0A # ''  '') @ write_members b (texts ms)" "2 * length w \<le> g"
  shows "parse_value (Suc g) d (w @ r) = Some (JObject ms, r)"
proof -
  have "texts ms \<noteq> []" using assms(1) by (simp add: texts_def)
  then obtain u where u: "write_members b (texts ms) = CHR 0x22 # u" using write_members_quote by blast
  have "2 * length (write_members b (texts ms)) \<le> g" using assms(4,5) by simp
  from parse_written_members[OF assms(1,2) this, of r] u assms(3) show ?thesis
    by (simp add: assms(4) split: if_splits)
qed

lemma reads_object:
  assumes "ms \<noteq> []" "\<forall>(k, t, v) \<in> set ms. plain_text k \<and> reads (Suc d) t v" "d < max_nesting"
  shows "reads d (json_object (texts ms)) (JObject ms)" "reads d (json_indented (texts ms)) (JObject ms)"
  by (rule readsI; insert parse_written_object[OF assms, of _ False] parse_written_object[OF assms, of _ True];
      simp add: json_object_def json_indented_def is_json_space_def)+

theorem parse_written:
  assumes "reads 0 t v"
  shows "parse_json t = Some (v, [])"
proof -
  have "skip_space t = t" using skip_space_reads[OF assms, of "[]"] by simp
  moreover have "parse_value (2 * length t + 2) 0 (t @ []) = Some (v, [])"
    by (rule reads_value[OF assms]) (simp_all add: ends_member_def)
  ultimately show ?thesis by (simp add: parse_json_def)
qed

end
