(* ===== verification/Validation.thy ===== *)
theory Validation
  imports Address Json
begin

text \<open>
  Decoding and validation of signaling and control messages,
  \<open>internal/protocol/validation.go\<close>, with the payload structs of \<open>signaling.go\<close> and
  \<open>control.go\<close>.  An \<open>error\<close> result is an optional \<open>protocol_error\<close>, one constructor per
  sentinel error the package wraps.
\<close>

datatype protocol_error = ErrMessageTooLarge | ErrUnsupportedVersion | ErrInvalidMessage

subsection \<open>Payload structs\<close>

record sdp_payload =
  SDP :: string

record ice_payload =
  ice_Candidate :: string
  ice_SDPMid :: "string option"
  ice_SDPMLineIndex :: "int option"

record identity_proof =
  pf_PublicKey :: string
  pf_ExpiresAt :: time
  pf_Nonce :: string
  pf_Signature :: string

record session_ready_payload =
  STUNURLs :: "string list"

record capabilities =
  cap_TextChat :: bool
  cap_ASCIIVideo :: bool
  cap_ASCIIColumns :: int
  cap_ASCIIRows :: int
  cap_ASCIIFPS :: int
  cap_Audio :: bool

definition empty_proof :: identity_proof where
  "empty_proof = \<lparr>pf_PublicKey = [], pf_ExpiresAt = 0, pf_Nonce = [], pf_Signature = []\<rparr>"

definition empty_capabilities :: capabilities where
  "empty_capabilities = \<lparr>cap_TextChat = False, cap_ASCIIVideo = False, cap_ASCIIColumns = 0,
     cap_ASCIIRows = 0, cap_ASCIIFPS = 0, cap_Audio = False\<rparr>"

definition empty_signal :: signal_message where
  "empty_signal = \<lparr>sm_version = 0, sm_id = [], sm_type = OtherSignal [], sm_timestamp = 0,
     sm_call_id = [], sm_from = [], sm_to = [], sm_payload = []\<rparr>"

definition empty_control :: control_message where
  "empty_control = \<lparr>cm_version = 0, cm_id = [], cm_type = OtherControl [], cm_sent_at = 0, cm_payload = []\<rparr>"

subsection \<open>Struct fields by their JSON names\<close>

definition store_signal :: "string \<Rightarrow> string \<Rightarrow> json \<Rightarrow> signal_message \<Rightarrow> signal_message option" where
  "store_signal n raw v m = (
     if n = ''version'' then map_option (\<lambda>x. m\<lparr>sm_version := x\<rparr>) (get_int v (sm_version m))
     else if n = ''id'' then map_option (\<lambda>x. m\<lparr>sm_id := x\<rparr>) (get_string v (sm_id m))
     else if n = ''type'' then
       map_option (\<lambda>x. m\<lparr>sm_type := signal_of x\<rparr>) (get_string v (signal_name (sm_type m)))
     else if n = ''timestamp'' then map_option (\<lambda>x. m\<lparr>sm_timestamp := x\<rparr>) (get_time v (sm_timestamp m))
     else if n = ''call_id'' then map_option (\<lambda>x. m\<lparr>sm_call_id := x\<rparr>) (get_string v (sm_call_id m))
     else if n = ''from'' then map_option (\<lambda>x. m\<lparr>sm_from := x\<rparr>) (get_string v (sm_from m))
     else if n = ''to'' then map_option (\<lambda>x. m\<lparr>sm_to := x\<rparr>) (get_string v (sm_to m))
     else Some (m\<lparr>sm_payload := raw\<rparr>))"

definition signal_fields :: "string list" where
  "signal_fields = [''version'', ''id'', ''type'', ''timestamp'', ''call_id'', ''from'', ''to'', ''payload'']"

definition store_control :: "string \<Rightarrow> string \<Rightarrow> json \<Rightarrow> control_message \<Rightarrow> control_message option" where
  "store_control n raw v m = (
     if n = ''version'' then map_option (\<lambda>x. m\<lparr>cm_version := x\<rparr>) (get_int v (cm_version m))
     else if n = ''id'' then map_option (\<lambda>x. m\<lparr>cm_id := x\<rparr>) (get_string v (cm_id m))
     else if n = ''type'' then
       map_option (\<lambda>x. m\<lparr>cm_type := control_of x\<rparr>) (get_string v (control_name (cm_type m)))
     else if n = ''sent_at'' then map_option (\<lambda>x. m\<lparr>cm_sent_at := x\<rparr>) (get_time v (cm_sent_at m))
     else Some (m\<lparr>cm_payload := raw\<rparr>))"

definition control_fields :: "string list" where
  "control_fields = [''version'', ''id'', ''type'', ''sent_at'', ''payload'']"

definition store_proof :: "string \<Rightarrow> string \<Rightarrow> json \<Rightarrow> identity_proof \<Rightarrow> identity_proof option" where
  "store_proof n raw v p = (
     if n = ''public_key'' then map_option (\<lambda>x. p\<lparr>pf_PublicKey := x\<rparr>) (get_string v (pf_PublicKey p))
     else if n = ''expires_at'' then map_option (\<lambda>x. p\<lparr>pf_ExpiresAt := x\<rparr>) (get_time v (pf_ExpiresAt p))
     else if n = ''nonce'' then map_option (\<lambda>x. p\<lparr>pf_Nonce := x\<rparr>) (get_string v (pf_Nonce p))
     else map_option (\<lambda>x. p\<lparr>pf_Signature := x\<rparr>) (get_string v (pf_Signature p)))"

definition proof_fields :: "string list" where
  "proof_fields = [''public_key'', ''expires_at'', ''nonce'', ''signature'']"

definition get_mline :: "json \<Rightarrow> int option option" where
  "get_mline v = (case v of
      JNull \<Rightarrow> Some None
    | JNumber n \<Rightarrow> (case parse_int n of
          Some x \<Rightarrow> if hd n \<noteq> CHR ''-'' \<and> x < 65536 then Some (Some x) else None
        | None \<Rightarrow> None)
    | _ \<Rightarrow> None)"

definition store_ice :: "string \<Rightarrow> string \<Rightarrow> json \<Rightarrow> ice_payload \<Rightarrow> ice_payload option" where
  "store_ice n raw v p = (
     if n = ''candidate'' then map_option (\<lambda>x. p\<lparr>ice_Candidate := x\<rparr>) (get_string v (ice_Candidate p))
     else if n = ''sdp_mid'' then
       (if v = JNull then Some (p\<lparr>ice_SDPMid := None\<rparr>)
        else map_option (\<lambda>x. p\<lparr>ice_SDPMid := Some x\<rparr>) (get_string v []))
     else map_option (\<lambda>x. p\<lparr>ice_SDPMLineIndex := x\<rparr>) (get_mline v))"

definition store_capabilities :: "string \<Rightarrow> string \<Rightarrow> json \<Rightarrow> capabilities \<Rightarrow> capabilities option" where
  "store_capabilities n raw v c = (
     if n = ''text_chat'' then map_option (\<lambda>x. c\<lparr>cap_TextChat := x\<rparr>) (get_bool v (cap_TextChat c))
     else if n = ''ascii_video'' then map_option (\<lambda>x. c\<lparr>cap_ASCIIVideo := x\<rparr>) (get_bool v (cap_ASCIIVideo c))
     else if n = ''ascii_columns'' then map_option (\<lambda>x. c\<lparr>cap_ASCIIColumns := x\<rparr>) (get_int v (cap_ASCIIColumns c))
     else if n = ''ascii_rows'' then map_option (\<lambda>x. c\<lparr>cap_ASCIIRows := x\<rparr>) (get_int v (cap_ASCIIRows c))
     else if n = ''ascii_fps'' then map_option (\<lambda>x. c\<lparr>cap_ASCIIFPS := x\<rparr>) (get_int v (cap_ASCIIFPS c))
     else map_option (\<lambda>x. c\<lparr>cap_Audio := x\<rparr>) (get_bool v (cap_Audio c)))"

definition capability_fields :: "string list" where
  "capability_fields =
     [''text_chat'', ''ascii_video'', ''ascii_columns'', ''ascii_rows'', ''ascii_fps'', ''audio'']"

subsection \<open>Decoding\<close>

text \<open>\<open>decodeJSON\<close>: exactly one value, with nothing but space after it.\<close>

definition decodeJSON :: "(json \<Rightarrow> 'a \<Rightarrow> 'a option) \<Rightarrow> string \<Rightarrow> 'a \<Rightarrow> 'a option" where
  "decodeJSON store data zero = (case parse_json data of
      None \<Rightarrow> None
    | Some (v, rest) \<Rightarrow> (case store v zero of
          None \<Rightarrow> None
        | Some a \<Rightarrow> if skip_space rest = [] then Some a else None))"

definition requiredPayload :: "(json \<Rightarrow> 'a \<Rightarrow> 'a option) \<Rightarrow> string \<Rightarrow> 'a \<Rightarrow> 'a option" where
  "requiredPayload store raw zero =
     (if length raw = 0 \<or> trim_space raw = ''null'' then None
      else case parse_json raw of
          Some (v, rest) \<Rightarrow> if skip_space rest = [] then store v zero else None
        | None \<Rightarrow> None)"

definition sdp_of :: "string \<Rightarrow> sdp_payload option" where
  "sdp_of raw = requiredPayload (store_struct (\<lambda>n raw v p. map_option (\<lambda>x. p\<lparr>SDP := x\<rparr>) (get_string v (SDP p)))
     [''sdp''] False) raw \<lparr>SDP = []\<rparr>"

definition ice_of :: "string \<Rightarrow> ice_payload option" where
  "ice_of raw = requiredPayload (store_struct store_ice [''candidate'', ''sdp_mid'', ''sdp_mline_index''] False) raw
     \<lparr>ice_Candidate = [], ice_SDPMid = None, ice_SDPMLineIndex = None\<rparr>"

definition proof_of :: "string \<Rightarrow> identity_proof option" where
  "proof_of raw = requiredPayload (store_struct store_proof proof_fields False) raw empty_proof"

definition ready_of :: "string \<Rightarrow> session_ready_payload option" where
  "ready_of raw = requiredPayload (store_struct
     (\<lambda>n raw v p. map_option (\<lambda>x. p\<lparr>STUNURLs := x\<rparr>) (get_strings v (STUNURLs p))) [''stun_urls''] False)
     raw \<lparr>STUNURLs = []\<rparr>"

definition peer_hello_of :: "string \<Rightarrow> capabilities option" where
  "peer_hello_of raw = requiredPayload (store_struct
     (\<lambda>n raw. store_struct store_capabilities capability_fields False) [''capabilities''] False)
     raw empty_capabilities"

definition chat_text_of :: "string \<Rightarrow> string option" where
  "chat_text_of raw = requiredPayload (store_struct (\<lambda>n raw. get_string) [''text''] False) raw []"

definition audio_muted_of :: "string \<Rightarrow> bool option" where
  "audio_muted_of raw = requiredPayload (store_struct (\<lambda>n raw. get_bool) [''muted''] False) raw False"

subsection \<open>Validation\<close>

text \<open>\<open>Now\<close> is \<open>None\<close> for a nil function, otherwise its reading; \<open>wall\<close> is what \<open>time.Now\<close> reads.\<close>

record validator =
  v_Now :: "time option"
  v_wall :: time
  v_MaximumAge :: duration
  v_MaximumFuture :: duration

definition NewValidator :: "time \<Rightarrow> validator" where
  "NewValidator wall = \<lparr>v_Now = Some wall, v_wall = wall, v_MaximumAge = 24 * hour, v_MaximumFuture = 5 * minute\<rparr>"

definition v_now :: "validator \<Rightarrow> time" where
  "v_now v = (case v_Now v of None \<Rightarrow> v_wall v | Some t \<Rightarrow> t)"

definition v_age :: "validator \<Rightarrow> duration" where
  "v_age v = (if v_MaximumAge v = 0 then 24 * hour else v_MaximumAge v)"

definition v_future :: "validator \<Rightarrow> duration" where
  "v_future v = (if v_MaximumFuture v = 0 then 5 * minute else v_MaximumFuture v)"

definition validateCommon :: "validator \<Rightarrow> int \<Rightarrow> string \<Rightarrow> time \<Rightarrow> protocol_error option" where
  "validateCommon v version ident timestamp =
    (if version \<noteq> ProtocolVersion then Some ErrUnsupportedVersion
     else if \<not> validUUID ident then Some ErrInvalidMessage
     else if is_zero timestamp then Some ErrInvalidMessage
     else if timestamp < v_now v - v_age v \<or> v_now v + v_future v < timestamp then Some ErrInvalidMessage
     else None)"

definition proof_shape :: "identity_proof \<Rightarrow> bool" where
  "proof_shape p \<longleftrightarrow> validUUID (pf_Nonce p) \<and> \<not> is_zero (pf_ExpiresAt p) \<and>
     40 \<le> length (pf_PublicKey p) \<and> length (pf_PublicKey p) \<le> 64 \<and>
     80 \<le> length (pf_Signature p) \<and> length (pf_Signature p) \<le> 128"

definition endpoint_ok :: "string \<Rightarrow> bool" where
  "endpoint_ok a \<longleftrightarrow> a = [] \<or> a = ''server'' \<or> ValidAddress a"

text \<open>The second \<open>switch\<close>: which ends a type needs.\<close>

fun ends_present :: "signal_type \<Rightarrow> string \<Rightarrow> string \<Rightarrow> bool" where
  "ends_present SignalSessionHello from to = (from \<noteq> [])"
| "ends_present SignalSessionReady from to = (to \<noteq> [])"
| "ends_present SignalSessionError from to = (to \<noteq> [])"
| "ends_present t from to = (from \<noteq> [] \<and> to \<noteq> [])"

text \<open>The third: the payload of each type.\<close>

definition payload_ok :: "signal_type \<Rightarrow> string \<Rightarrow> bool" where
  "payload_ok t raw = (case t of
      SignalSessionReady \<Rightarrow> length raw = 0 \<or> (case ready_of raw of
          None \<Rightarrow> False
        | Some p \<Rightarrow> length (STUNURLs p) \<le> 8 \<and> list_all ValidSTUNURL (STUNURLs p))
    | SignalWebRTCOffer \<Rightarrow> (case sdp_of raw of None \<Rightarrow> False | Some p \<Rightarrow> trim_space (SDP p) \<noteq> [])
    | SignalWebRTCAnswer \<Rightarrow> (case sdp_of raw of None \<Rightarrow> False | Some p \<Rightarrow> trim_space (SDP p) \<noteq> [])
    | SignalWebRTCICE \<Rightarrow> (case ice_of raw of
          None \<Rightarrow> False
        | Some p \<Rightarrow> ice_Candidate p \<noteq> [] \<and> length (ice_Candidate p) \<le> MaxICECandidateSize)
    | SignalSessionHello \<Rightarrow> (case proof_of raw of None \<Rightarrow> False | Some p \<Rightarrow> proof_shape p)
    | SignalCallInvite \<Rightarrow> (case proof_of raw of None \<Rightarrow> False | Some p \<Rightarrow> proof_shape p)
    | SignalCallAccept \<Rightarrow> (case proof_of raw of None \<Rightarrow> False | Some p \<Rightarrow> proof_shape p)
    | _ \<Rightarrow> True)"

definition ValidateSignal :: "validator \<Rightarrow> signal_message \<Rightarrow> protocol_error option" where
  "ValidateSignal v m = (case validateCommon v (sm_version m) (sm_id m) (sm_timestamp m) of
      Some e \<Rightarrow> Some e
    | None \<Rightarrow>
        if \<not> IsKnown (sm_type m) then Some ErrInvalidMessage
        else if \<not> endpoint_ok (sm_from m) then Some ErrInvalidMessage
        else if \<not> endpoint_ok (sm_to m) then Some ErrInvalidMessage
        else if RequiresCallID (sm_type m) \<and> \<not> validUUID (sm_call_id m) then Some ErrInvalidMessage
        else if \<not> ends_present (sm_type m) (sm_from m) (sm_to m) then Some ErrInvalidMessage
        else if \<not> payload_ok (sm_type m) (sm_payload m) then Some ErrInvalidMessage
        else None)"

definition profile_ok :: "capabilities \<Rightarrow> bool" where
  "profile_ok c \<longleftrightarrow> 1 \<le> cap_ASCIIColumns c \<and> cap_ASCIIColumns c \<le> 200 \<and>
     1 \<le> cap_ASCIIRows c \<and> cap_ASCIIRows c \<le> 80 \<and> 1 \<le> cap_ASCIIFPS c \<and> cap_ASCIIFPS c \<le> 30"

definition control_payload_ok :: "control_type \<Rightarrow> string \<Rightarrow> bool" where
  "control_payload_ok t raw = (case t of
      ControlPeerHello \<Rightarrow> (case peer_hello_of raw of
          None \<Rightarrow> False
        | Some c \<Rightarrow> cap_TextChat c \<and> (cap_ASCIIVideo c \<longrightarrow> profile_ok c))
    | ControlChatMessage \<Rightarrow> (case chat_text_of raw of
          None \<Rightarrow> False
        | Some t \<Rightarrow> t \<noteq> [] \<and> valid_utf8 t \<and> length t \<le> MaxChatTextSize)
    | ControlAudioState \<Rightarrow> audio_muted_of raw \<noteq> None
    | ControlVideoKeyframe \<Rightarrow> length raw = 0 \<or> trim_space raw = ''{}''
    | ControlSessionHangup \<Rightarrow> length raw = 0 \<or> trim_space raw = ''{}''
    | OtherControl _ \<Rightarrow> True)"

definition ValidateControl :: "validator \<Rightarrow> control_message \<Rightarrow> protocol_error option" where
  "ValidateControl v m = (case validateCommon v (cm_version m) (cm_id m) (cm_sent_at m) of
      Some e \<Rightarrow> Some e
    | None \<Rightarrow>
        if \<not> control_IsKnown (cm_type m) then Some ErrInvalidMessage
        else if \<not> control_payload_ok (cm_type m) (cm_payload m) then Some ErrInvalidMessage
        else None)"

definition DecodeSignal :: "string \<Rightarrow> validator \<Rightarrow> protocol_error + signal_message" where
  "DecodeSignal data v =
    (if length data > MaxSDPMessageSize then Inl ErrMessageTooLarge
     else case decodeJSON (store_struct store_signal signal_fields False) data empty_signal of
         None \<Rightarrow> Inl ErrInvalidMessage
       | Some m \<Rightarrow>
           let limit = (if IsSDP (sm_type m) then MaxSDPMessageSize else MaxSignalMessageSize) in
           if length data > limit then Inl ErrMessageTooLarge
           else case ValidateSignal v m of Some e \<Rightarrow> Inl e | None \<Rightarrow> Inr m)"

definition DecodeControl :: "string \<Rightarrow> validator \<Rightarrow> protocol_error + control_message" where
  "DecodeControl data v =
    (if length data > MaxControlMessageSize then Inl ErrMessageTooLarge
     else case decodeJSON (store_struct store_control control_fields False) data empty_control of
         None \<Rightarrow> Inl ErrInvalidMessage
       | Some m \<Rightarrow> (case ValidateControl v m of Some e \<Rightarrow> Inl e | None \<Rightarrow> Inr m))"

subsection \<open>Writing messages\<close>

text \<open>
  \<open>json.Marshal\<close> of a \<open>SignalMessage\<close> whose time is in UTC and whose payload text is compact;
  empty optional members are left out.
\<close>

definition itoa :: "int \<Rightarrow> string" where
  "itoa x = (if x < 0 then CHR ''-'' # decimal (nat (- x)) else decimal (nat x))"

definition optional_member :: "string \<Rightarrow> string \<Rightarrow> string \<Rightarrow> (string \<times> string) list" where
  "optional_member k s t = (if s = [] then [] else [(k, t)])"

definition marshal_signal :: "signal_message \<Rightarrow> string" where
  "marshal_signal m = json_object (
     [(''version'', itoa (sm_version m)), (''id'', json_quote (sm_id m)),
      (''type'', json_quote (signal_name (sm_type m))),
      (''timestamp'', json_quote (format_utc (sm_timestamp m)))] @
     optional_member ''call_id'' (sm_call_id m) (json_quote (sm_call_id m)) @
     optional_member ''from'' (sm_from m) (json_quote (sm_from m)) @
     optional_member ''to'' (sm_to m) (json_quote (sm_to m)) @
     optional_member ''payload'' (sm_payload m) (sm_payload m))"

lemma plain_char_text: "list_all plain_char s \<Longrightarrow> plain_text s"
  by (auto simp: list_all_iff plain_text_def plain_char_def)

lemma plain_text_append [simp]: "plain_text (a @ b) \<longleftrightarrow> plain_text a \<and> plain_text b"
  and plain_text_Nil [simp]: "plain_text []"
  by (simp_all add: plain_text_def)

lemma plain_digits: "list_all is_digit s \<Longrightarrow> plain_text s"
  by (auto simp: list_all_iff plain_text_def is_digit_def)

lemma plain_decimal: "list_all is_digit (decimal n)"
  by (induction n rule: decimal.induct) (subst decimal.simps, simp)

lemma plain_append_int: "plain_text (append_int w x)"
  unfolding append_int_def Let_def
  using plain_digits[OF plain_decimal] plain_digits[OF fixed_digits_are_digits]
  by (auto simp: plain_text_def)

lemma plain_fraction: "plain_text (format_fraction ns)"
proof -
  have "list_all is_digit (rev (dropWhile (\<lambda>c. c = CHR ''0'') (rev (fixed_digits 9 ns))))"
    using fixed_digits_are_digits[of 9 ns] unfolding list_all_iff by (auto dest: set_dropWhileD)
  from plain_digits[OF this] show ?thesis by (auto simp: format_fraction_def Let_def plain_text_def)
qed

lemma plain_text_Cons: "plain_text (c # s) \<longleftrightarrow> plain_text [c] \<and> plain_text s"
  by (simp add: plain_text_def)

lemma plain_time: "plain_text (format_utc t)"
proof -
  have "plain_text ''-''" "plain_text '':''" "plain_text ''T''" "plain_text ''Z''" by code_simp+
  then show ?thesis
    unfolding format_utc_def Let_def
    by (auto split: prod.split simp: plain_append_int plain_fraction plain_text_Cons[of _ "_ @ _"])
qed

lemma plain_known: "IsKnown t \<Longrightarrow> plain_text (signal_name t)"
proof -
  have "list_all plain_text (map signal_name known_signals)" by code_simp
  then show "IsKnown t \<Longrightarrow> plain_text (signal_name t)"
    by (auto simp: IsKnown_def list_all_iff)
qed

definition optional_read :: "string \<Rightarrow> string \<Rightarrow> string \<Rightarrow> json \<Rightarrow> (string \<times> string \<times> json) list" where
  "optional_read k s t v = (if s = [] then [] else [(k, t, v)])"

definition signal_members :: "signal_message \<Rightarrow> json \<Rightarrow> (string \<times> string \<times> json) list" where
  "signal_members m p =
     [(''version'', ''2'', JNumber ''2''), string_member ''id'' (sm_id m),
      string_member ''type'' (signal_name (sm_type m)),
      string_member ''timestamp'' (format_utc (sm_timestamp m))] @
     optional_read ''call_id'' (sm_call_id m) (json_quote (sm_call_id m)) (JString (sm_call_id m)) @
     optional_read ''from'' (sm_from m) (json_quote (sm_from m)) (JString (sm_from m)) @
     optional_read ''to'' (sm_to m) (json_quote (sm_to m)) (JString (sm_to m)) @
     optional_read ''payload'' (sm_payload m) (sm_payload m) p"

lemma texts_optional [simp]: "texts (optional_read k s t v) = optional_member k s t"
  by (simp add: optional_read_def optional_member_def texts_def)

lemma marshal_signal_members:
  "sm_version m = 2 \<Longrightarrow> marshal_signal m = json_object (texts (signal_members m p))"
proof -
  assume v: "sm_version m = 2"
  have "itoa 2 = ''2''" by code_simp
  with v show ?thesis by (simp add: marshal_signal_def signal_members_def)
qed

lemma field_for_member: "k \<in> set names \<Longrightarrow> field_for names k = Some k"
  by (simp add: field_for_def)

lemma plain_field_names:
  "list_all plain_text signal_fields" "list_all plain_text proof_fields"
  by code_simp+

lemma store_signal_members:
  assumes m: "sm_version m = 2" "plain_text (sm_id m)" "plain_text (signal_name (sm_type m))"
    "sm_type m = signal_of (signal_name (sm_type m))"
    "plain_text (sm_call_id m)" "plain_text (sm_from m)" "plain_text (sm_to m)"
    "0 \<le> year_of (sm_timestamp m)" "year_of (sm_timestamp m) \<le> 9999"
  shows "store_members store_signal signal_fields False (signal_members m p) empty_signal = Some m"
proof -
  have two: "parse_int ''2'' = Some 2" by code_simp
  have names: "plain_text ''version''" "plain_text ''id''" "plain_text ''type''" "plain_text ''timestamp''"
    "plain_text ''call_id''" "plain_text ''from''" "plain_text ''to''" "plain_text ''payload''" by code_simp+
  define m1 where "m1 = empty_signal\<lparr>sm_version := 2, sm_id := sm_id m, sm_type := sm_type m,
     sm_timestamp := sm_timestamp m\<rparr>"
  define rest where "rest = optional_read ''call_id'' (sm_call_id m) (json_quote (sm_call_id m)) (JString (sm_call_id m)) @
     optional_read ''from'' (sm_from m) (json_quote (sm_from m)) (JString (sm_from m)) @
     optional_read ''to'' (sm_to m) (json_quote (sm_to m)) (JString (sm_to m)) @
     optional_read ''payload'' (sm_payload m) (sm_payload m) p"
  have "store_members store_signal signal_fields False (signal_members m p) empty_signal =
     store_members store_signal signal_fields False rest m1"
    using m names two parse_format_utc[of "sm_timestamp m"]
    by (simp add: signal_members_def rest_def[symmetric] string_member_def field_for_member signal_fields_def
        store_signal_def m1_def plain_time)
  also have "\<dots> = Some m"
    using m names
    by (simp add: rest_def optional_read_def field_for_member signal_fields_def store_signal_def m1_def empty_signal_def)
  finally show ?thesis .
qed

lemma known_canonical: "t \<in> set known_signals \<Longrightarrow> signal_of (signal_name t) = t \<and> IsKnown t"
  by (simp add: signal_of_signal_name IsKnown_def)

lemma endpoint_plain: "endpoint_ok a \<Longrightarrow> plain_text a"
proof -
  have "plain_text ''server''" by code_simp
  then show "endpoint_ok a \<Longrightarrow> plain_text a"
    by (auto simp: endpoint_ok_def plain_address plain_char_text)
qed

lemma ValidateSignal_facts:
  assumes "ValidateSignal v m = None"
  shows "sm_version m = 2" "validUUID (sm_id m)" "v_now v - v_age v \<le> sm_timestamp m"
    "sm_timestamp m \<le> v_now v + v_future v" "sm_timestamp m \<noteq> 0" "IsKnown (sm_type m)"
    "endpoint_ok (sm_from m)" "endpoint_ok (sm_to m)"
    "RequiresCallID (sm_type m) \<Longrightarrow> validUUID (sm_call_id m)"
    "ends_present (sm_type m) (sm_from m) (sm_to m)" "payload_ok (sm_type m) (sm_payload m)"
  using assms
  by (auto simp: ValidateSignal_def validateCommon_def ProtocolVersion_def is_zero_def
      split: option.splits if_splits)

lemma DecodeSignal_Inr:
  "DecodeSignal data v = Inr m \<longleftrightarrow>
     decodeJSON (store_struct store_signal signal_fields False) data empty_signal = Some m \<and>
     length data \<le> (if IsSDP (sm_type m) then MaxSDPMessageSize else MaxSignalMessageSize) \<and>
     ValidateSignal v m = None"
  by (auto simp: DecodeSignal_def Let_def protocol_limits split: option.splits if_splits)

text \<open>
  C16: Every message the decoder lets through is of version 2 with a UUID and a known type, is at
  most 24 hours old and 5 minutes ahead, names only valid addresses or the server, has a
  call id where its type needs one, fits the size limit of its type, and, where its type must be
  signed, carries a complete identity proof.
\<close>

theorem decode_signal_sound:
  assumes "DecodeSignal data (NewValidator now) = Inr m"
  shows "sm_version m = 2 \<and> validUUID (sm_id m) \<and> IsKnown (sm_type m) \<and>
    now - 24 * hour \<le> sm_timestamp m \<and> sm_timestamp m \<le> now + 5 * minute \<and>
    (\<forall>a \<in> {sm_from m, sm_to m}. a = [] \<or> a = ''server'' \<or> ValidAddress a) \<and>
    (RequiresCallID (sm_type m) \<longrightarrow> validUUID (sm_call_id m)) \<and>
    length data \<le> (if IsSDP (sm_type m) then 262144 else 65536) \<and>
    (sm_type m \<in> {SignalSessionHello, SignalCallInvite, SignalCallAccept} \<longrightarrow>
       sm_from m \<noteq> [] \<and> (\<exists>p. proof_of (sm_payload m) = Some p \<and> proof_shape p))"
proof -
  from assms have len: "length data \<le> (if IsSDP (sm_type m) then MaxSDPMessageSize else MaxSignalMessageSize)"
    and val: "ValidateSignal (NewValidator now) m = None"
    by (simp_all only: DecodeSignal_Inr)
  note F = ValidateSignal_facts[OF val]
  have nz: "hour \<noteq> 0" "minute \<noteq> 0" using hour_pos minute_pos by linarith+
  have win: "now - 24 * hour \<le> sm_timestamp m" "sm_timestamp m \<le> now + 5 * minute"
    using F(3,4) nz by (auto simp: v_now_def v_age_def v_future_def NewValidator_def)
  have signed: "sm_type m \<in> {SignalSessionHello, SignalCallInvite, SignalCallAccept} \<longrightarrow>
       sm_from m \<noteq> [] \<and> (\<exists>p. proof_of (sm_payload m) = Some p \<and> proof_shape p)"
    using F(10,11) by (auto simp: payload_ok_def split: option.splits)
  have len': "length data \<le> (if IsSDP (sm_type m) then 262144 else 65536)"
    using len by (simp only: protocol_limits)
  have ends: "\<forall>a \<in> {sm_from m, sm_to m}. a = [] \<or> a = ''server'' \<or> ValidAddress a"
    using F(7,8) by (simp add: endpoint_ok_def)
  show ?thesis using F(1,2,6,9) win ends len' signed by blast
qed

lemma decode_written:
  assumes "ValidateSignal v m = None" "sm_type m \<in> set known_signals" "plain_text (sm_call_id m)"
    "sm_payload m = [] \<or> reads 1 (sm_payload m) p"
    "0 \<le> year_of (sm_timestamp m) \<and> year_of (sm_timestamp m) \<le> 9999"
    "length (marshal_signal m) \<le> (if IsSDP (sm_type m) then MaxSDPMessageSize else MaxSignalMessageSize)"
  shows "DecodeSignal (marshal_signal m) v = Inr m"
proof -
  note F = ValidateSignal_facts[OF assms(1)]
  note canon = known_canonical[OF assms(2)]
  have plain: "plain_text (sm_id m)" "plain_text (signal_name (sm_type m))" "plain_text (sm_from m)" "plain_text (sm_to m)"
    using F canon by (auto intro: plain_char_text plain_uuid plain_known endpoint_plain)
  have keys: "plain_text ''version''" "plain_text ''id''" "plain_text ''type''" "plain_text ''timestamp''"
    "plain_text ''call_id''" "plain_text ''from''" "plain_text ''to''" "plain_text ''payload''" "is_digit CHR ''2''"
    by code_simp+
  have "\<forall>(k, t, w) \<in> set (signal_members m p). plain_text k \<and> reads (Suc 0) t w"
    using plain keys assms(3,4) reads_digit[OF keys(9)]
    by (auto simp: signal_members_def string_member_def optional_read_def plain_time reads_string split: if_splits)
  then have "reads 0 (json_object (texts (signal_members m p))) (JObject (signal_members m p))"
    by (intro reads_object) (auto simp: signal_members_def max_nesting_def)
  then have parsed: "parse_json (marshal_signal m) = Some (JObject (signal_members m p), [])"
    using marshal_signal_members[OF F(1), of p] parse_written by simp
  have "store_members store_signal signal_fields False (signal_members m p) empty_signal = Some m"
    using F(1) plain assms(3,5) canon by (intro store_signal_members) auto
  then have "decodeJSON (store_struct store_signal signal_fields False) (marshal_signal m) empty_signal = Some m"
    by (simp add: decodeJSON_def parsed store_struct_def skip_space_def)
  with assms(1,6) show ?thesis by (simp only: DecodeSignal_Inr)
qed


definition demo_now :: time where "demo_now = unix_epoch + 1750000000 * second"

definition demo_ping :: signal_message where
  "demo_ping = \<lparr>sm_version = 2, sm_id = demo_uuid, sm_type = SignalSessionPing, sm_timestamp = demo_now,
     sm_call_id = [], sm_from = ''server'', sm_to = demo_alice, sm_payload = []\<rparr>"


definition demo_ping_text :: string where
  "demo_ping_text = marshal_signal demo_ping"

lemma demo_ping_text: "DecodeSignal demo_ping_text (NewValidator demo_now) = Inr demo_ping"
  by code_simp

theorem decode_signal_sound_witness:
  "DecodeSignal demo_ping_text (NewValidator demo_now) = Inr demo_ping \<and> validUUID (sm_id demo_ping) \<and>
   demo_now - 24 * hour \<le> sm_timestamp demo_ping"
  using decode_signal_sound[OF demo_ping_text] demo_ping_text by blast

end
