(* ===== verification/Json_Text.thy ===== *)
theory Json_Text
  imports Validation
begin

text \<open>
  Reading back what \<open>encoding/json\<close> writes for arbitrary strings: UTF-8 decoding against encoding,
  the escapes of a string literal, and with them the control messages of
  \<open>internal/protocol/control.go\<close> and the payloads of control and negotiation messages.
\<close>

subsection \<open>UTF-8\<close>

text \<open>A decoded rune is the encoding of its bytes, and does not depend on what follows them.\<close>

lemma decode_rune_cases:
  assumes "decode_rune s = (r, w)" "\<not> (r = rune_error \<and> w = 1)" "s \<noteq> []"
  obtains (one) a t where "s = a # t" "code a < 0x80" "r = code a" "w = 1"
  | (two) a b t where "s = a # b # t" "0xC2 \<le> code a" "code a \<le> 0xDF" "cont b"
      "r = (code a mod 32) * 64 + cont_val b" "w = 2"
  | (three) a b c t where "s = a # b # c # t" "0xE0 \<le> code a" "code a \<le> 0xEF"
      "in_range (if code a = 0xE0 then 0xA0 else 0x80) (if code a = 0xED then 0x9F else 0xBF) b" "cont c"
      "r = (code a mod 16) * 4096 + cont_val b * 64 + cont_val c" "w = 3"
  | (four) a b c d t where "s = a # b # c # d # t" "0xF0 \<le> code a" "code a \<le> 0xF4"
      "in_range (if code a = 0xF0 then 0x90 else 0x80) (if code a = 0xF4 then 0x8F else 0xBF) b" "cont c" "cont d"
      "r = (code a mod 8) * 262144 + cont_val b * 4096 + cont_val c * 64 + cont_val d" "w = 4"
  using assms unfolding decode_rune_def Let_def
  by (simp split: list.splits if_split_asm)

lemma char_of_eq: "n = code c \<Longrightarrow> char_of n = c"
  by simp

text \<open>The digits to the base of 64 that UTF-8 cuts a rune into.\<close>

lemma sextet:
  fixes k m :: nat
  shows "k < 64 \<Longrightarrow> (m * 64 + k) div 64 = m" "k < 64 \<Longrightarrow> (m * 64 + k) mod 64 = k"
    "m div 4096 = m div 64 div 64" "m div 262144 = m div 64 div 64 div 64"
  by (simp_all flip: div_mult2_eq)

lemma lead_digit:
  fixes i :: nat
  shows "i < 64 \<Longrightarrow> (128 + i) mod 64 = i" "i < 32 \<Longrightarrow> (192 + i) mod 32 = i" "i < 16 \<Longrightarrow> (224 + i) mod 16 = i"
    "i < 8 \<Longrightarrow> (240 + i) mod 8 = i"
proof -
  have shift: "i < n \<Longrightarrow> (n * k + i) mod n = i" for k n :: nat by simp
  show "i < 64 \<Longrightarrow> (128 + i) mod 64 = i" "i < 32 \<Longrightarrow> (192 + i) mod 32 = i" "i < 16 \<Longrightarrow> (224 + i) mod 16 = i"
    "i < 8 \<Longrightarrow> (240 + i) mod 8 = i"
    using shift[of 64 2] shift[of 32 6] shift[of 16 14] shift[of 8 30] by simp_all
qed

lemma cont_digit: "cont b \<Longrightarrow> code b = 0x80 + cont_val b \<and> cont_val b < 64"
proof -
  assume "cont b"
  then obtain k where "code b = 0x80 + k" "k < 64"
    by (auto simp: cont_def in_range_def dest: le_Suc_ex)
  then show ?thesis by (simp add: cont_val_def lead_digit)
qed

lemma decode_rune_exact:
  assumes "decode_rune s = (r, w)" "\<not> (r = rune_error \<and> w = 1)" "s \<noteq> []"
  shows "encode_rune r = take w s"
  using assms
proof (cases rule: decode_rune_cases)
  case (two a b t)
  note b = cont_digit[OF two(4)]
  obtain i where a: "code a = 0xC0 + i" "i < 32" using two(2,3) le_Suc_ex[of "0xC0" "code a"] by auto
  have r: "r = i * 64 + cont_val b" using two(5) a by (simp add: lead_digit)
  have "2 \<le> i" using two(2) a by simp
  then have "\<not> r < 0x80" "r < 0x800" using a b unfolding r by linarith+
  moreover have "0xC0 + r div 64 = code a" "0x80 + r mod 64 = code b"
    using a b unfolding r by (simp_all add: sextet)
  ultimately show ?thesis using two(1,6) by (simp add: encode_rune_def Let_def char_of_eq)
next
  case (three a b c t)
  have "cont b" using three(4) by (auto simp: cont_def in_range_def split: if_splits)
  note b = cont_digit[OF this] and c = cont_digit[OF three(5)]
  obtain i where a: "code a = 0xE0 + i" "i < 16" using three(2,3) le_Suc_ex[of "0xE0" "code a"] by auto
  have r: "r = (i * 64 + cont_val b) * 64 + cont_val c" using three(6) a by (simp add: lead_digit)
  have "i = 0 \<Longrightarrow> 32 \<le> cont_val b" "i = 13 \<Longrightarrow> cont_val b < 32"
    using three(4) a b by (simp_all add: in_range_def)
  then have size: "\<not> r < 0x800" "r < 0x10000" "\<not> (0xD800 \<le> r \<and> r \<le> 0xDFFF)"
    using a b c unfolding r by (cases "i = 0"; cases "i < 13"; cases "i = 13"; simp; linarith)+
  have "0xE0 + r div 4096 = code a" "0x80 + r div 64 mod 64 = code b" "0x80 + r mod 64 = code c"
    using a b c sextet(1,2)[of "cont_val c" "i * 64 + cont_val b"] sextet(1,2)[of "cont_val b" i] unfolding r sextet(3) by metis+
  moreover have "((0xD800 \<le> r \<and> r \<le> 0xDFFF) \<or> 0x10FFFF < r) = False" "(r < 0x80) = False" using size by auto
  ultimately show ?thesis using size three(1,7) by (simp only: encode_rune_def Let_def if_False if_True) (simp add: char_of_eq)
next
  case (four a b c d t)
  have "cont b" using four(4) by (auto simp: cont_def in_range_def split: if_splits)
  note b = cont_digit[OF this] and c = cont_digit[OF four(5)] and d = cont_digit[OF four(6)]
  obtain i where a: "code a = 0xF0 + i" "i < 5" using four(2,3) le_Suc_ex[of "0xF0" "code a"] by auto
  have r: "r = ((i * 64 + cont_val b) * 64 + cont_val c) * 64 + cont_val d" using four(7) a by (simp add: lead_digit)
  have "i = 0 \<Longrightarrow> 16 \<le> cont_val b" "i = 4 \<Longrightarrow> cont_val b < 16"
    using four(4) a b by (simp_all add: in_range_def)
  then have size: "\<not> r < 0x10000" "\<not> 0x10FFFF < r"
    using a b c d unfolding r by (cases "i = 0"; cases "i = 4"; simp; linarith)+
  have "0xF0 + r div 262144 = code a" "0x80 + r div 4096 mod 64 = code b" "0x80 + r div 64 mod 64 = code c" "0x80 + r mod 64 = code d"
    using a b c d sextet(1,2)[of "cont_val d" "(i * 64 + cont_val b) * 64 + cont_val c"]
      sextet(1,2)[of "cont_val c" "i * 64 + cont_val b"] sextet(1,2)[of "cont_val b" i] unfolding r sextet(3,4) by metis+
  with size show ?thesis using four(1,8) by (simp add: encode_rune_def Let_def char_of_eq)
qed (simp add: encode_rune_def Let_def)

lemma decode_rune_local:
  assumes "decode_rune s = (r, w)" "\<not> (r = rune_error \<and> w = 1)" "s \<noteq> []"
  shows "decode_rune (take w s @ t) = (r, w)" "length (take w s) = w" "1 \<le> w"
  using assms by (cases rule: decode_rune_cases; simp add: decode_rune_def Let_def)+

text \<open>A string with its invalid bytes replaced, as JSON carries it.\<close>

function to_valid :: "string \<Rightarrow> string" where
  "to_valid s = (if s = [] then [] else let (r, w) = decode_rune s in encode_rune r @ to_valid (drop (max 1 w) s))"
  by pat_completeness auto
termination by (relation "measure length") (auto simp: max_def)

declare to_valid.simps [simp del]

lemma to_valid_valid: "valid_utf8 s \<Longrightarrow> to_valid s = s"
proof (induction s rule: to_valid.induct)
  case (1 s)
  show ?case
  proof (cases "s = []")
    case False
    obtain r w where rw: "decode_rune s = (r, w)" by (cases "decode_rune s")
    have ok: "\<not> (r = rune_error \<and> w = 1)" "valid_utf8 (drop (max 1 w) s)"
      using 1(2) False rw valid_utf8.simps[of s] by (auto split: if_splits)
    have "max 1 w = w" using decode_rune_local(3)[OF rw ok(1) False] by simp
    with 1(1)[OF False rw[symmetric] refl] ok False rw decode_rune_exact[OF rw ok(1) False] show ?thesis
      by (subst to_valid.simps) simp
  qed (simp add: to_valid.simps)
qed

subsection \<open>String literals\<close>

text \<open>A piece of a literal's body: it is scanned as a whole, and denotes some bytes.\<close>

definition literal :: "string \<Rightarrow> string \<Rightarrow> bool" where
  "literal p bytes \<longleftrightarrow> (\<forall>t. scan_string (p @ t) = map_option (\<lambda>(body, rest). (p @ body, rest)) (scan_string t) \<and>
     unquote (p @ t) = bytes @ unquote t)"

lemma literal_escape:
  assumes "map_of escapes e = Some x"
  shows "literal [CHR 0x5C, e] [x]"
proof -
  have "e \<noteq> CHR ''u''" using assms by (auto simp: escapes_def split: if_splits)
  then show ?thesis
    using assms by (simp add: literal_def scan_string.simps[of "CHR 0x5C # e # _"] unquote.simps[of "CHR 0x5C # e # _"])
qed

lemma literal_hex:
  assumes "hex4 h = Some x" "length h = 4" "x < 0xD800 \<or> 0xDC00 \<le> x"
  shows "literal (CHR 0x5C # CHR ''u'' # h) (encode_rune x)"
proof -
  obtain a b c d where h: "h = [a, b, c, d]"
    using assms(2) by (auto simp: length_Suc_conv eval_nat_numeral)
  have x: "hex4 (a # b # c # d # t) = Some x" for t using assms(1) by (simp add: hex4_def h)
  have u: "map_of escapes CHR ''u'' = None" by code_simp
  have d: "drop 2 (CHR 0x5C # CHR ''u'' # h @ t) = a # b # c # d # t" "drop 6 (CHR 0x5C # CHR ''u'' # h @ t) = t"
    "take 6 (CHR 0x5C # CHR ''u'' # h @ t) = CHR 0x5C # CHR ''u'' # h" for t by (simp_all add: h eval_nat_numeral)
  have scan: "scan_string (CHR 0x5C # CHR ''u'' # h @ t) =
      map_option (\<lambda>(body, rest). (CHR 0x5C # CHR ''u'' # h @ body, rest)) (scan_string t)" for t
    unfolding scan_string.simps[of "CHR 0x5C # CHR ''u'' # h @ t"] d x using u by simp
  have "unquote (CHR 0x5C # CHR ''u'' # h @ t) = encode_rune x @ unquote t" for t
    unfolding unquote.simps[of "CHR 0x5C # CHR ''u'' # h @ t"] d x
    using assms(3) by (auto simp: Let_def split: option.split)
  with scan show ?thesis by (simp add: literal_def)
qed

lemma literal_ascii:
  assumes "0x20 \<le> code c" "code c < 0x80" "c \<noteq> CHR 0x22" "c \<noteq> CHR 0x5C"
  shows "literal [c] [c]"
  using assms by (simp add: literal_def scan_string.simps[of "c # _"] unquote.simps[of "c # _"])

lemma scan_high:
  assumes "list_all (\<lambda>c. 0x80 \<le> code c) p"
  shows "scan_string (p @ t) = map_option (\<lambda>(body, rest). (p @ body, rest)) (scan_string t)"
  using assms
proof (induction p)
  case (Cons c p)
  then have "c \<noteq> CHR 0x22" "c \<noteq> CHR 0x5C" by auto
  with Cons show ?case by (simp add: scan_string.simps[of "c # _"] option.map_comp comp_def split_beta)
qed (simp add: option.map_id)

lemma literal_rune:
  assumes "decode_rune s = (r, w)" "\<not> (r = rune_error \<and> w = 1)" "s \<noteq> []" "0x20 \<le> r" "r \<noteq> 0x22" "r \<noteq> 0x5C"
  shows "literal (encode_rune r) (encode_rune r)"
proof (cases "r < 0x80")
  case True
  then have "encode_rune r = [char_of r]" by (simp add: encode_rune_def Let_def)
  moreover have "literal [char_of r] [char_of r]"
    using True assms(4-6) by (intro literal_ascii) (auto simp: char_of_eq_iff take_bit_nat_eq_self)
  ultimately show ?thesis by simp
next
  case False
  note exact = decode_rune_exact[OF assms(1-3)] and loc = decode_rune_local[OF assms(1-3)]
  have high: "list_all (\<lambda>c. 0x80 \<le> code c) (take w s)"
    using assms(1-3) False by (cases rule: decode_rune_cases) (auto simp: cont_def in_range_def split: if_splits)
  obtain c q where cq: "take w s = c # q" using loc(2,3) by (cases "take w s") auto
  have c: "\<not> code c < 0x80" "c \<noteq> CHR 0x5C" using high cq by auto
  have "unquote (take w s @ t) = encode_rune r @ unquote t" for t
  proof -
    have "decode_rune (c # q @ t) = (r, w)" using loc(1)[of t] cq by simp
    moreover have "drop (max 1 w) (c # q @ t) = t" using loc(2,3) cq by (auto simp: max_def)
    ultimately show ?thesis using c by (simp add: cq unquote.simps[of "c # q @ t"])
  qed
  with scan_high[OF high] show ?thesis by (simp add: literal_def exact)
qed

lemma hex_val_digit: "hex_val (hex_digit n) = Some (n mod 16)"
proof -
  have "list_all (\<lambda>k. hex_val (''0123456789abcdef'' ! k) = Some k) [0..<16]" by code_simp
  moreover have "n mod 16 \<in> set [0..<16]" by simp
  ultimately show ?thesis unfolding hex_digit_def list_all_iff by blast
qed

lemma hex4_digits:
  assumes "r < 0x10000"
  shows "hex4 [hex_digit (r div 4096), hex_digit (r div 256), hex_digit (r div 16), hex_digit r] = Some r"
proof -
  have d: "r div 256 = r div 16 div 16" "r div 4096 = r div 16 div 16 div 16" by (simp_all flip: div_mult2_eq)
  have "r div 4096 mod 16 = r div 4096" using assms by simp
  moreover have "r div 16 div 16 div 16 * 16 + r div 16 div 16 mod 16 = r div 16 div 16"
    "r div 16 div 16 * 16 + r div 16 mod 16 = r div 16" "r div 16 * 16 + r mod 16 = r" by (rule div_mult_mod_eq)+
  ultimately show ?thesis by (simp add: hex4_def hex_val_digit d)
qed

text \<open>What \<open>json.Marshal\<close> writes for a rune is a piece that denotes the rune.\<close>

lemma literal_escape_rune:
  assumes "decode_rune s = (r, w)" "s \<noteq> []"
  shows "literal (if r = rune_error \<and> w = 1 then [CHR 0x5C] @ ''ufffd'' else escape_rune r) (encode_rune r)"
proof (cases "r = rune_error \<and> w = 1")
  case True
  have "hex4 ''fffd'' = Some rune_error" by code_simp
  from literal_hex[OF this] True show ?thesis by (simp add: rune_error_def)
next
  case ok: False
  have short: "literal [CHR 0x5C, e] (encode_rune k)" if "map_of escapes e = Some (char_of k)" "k < 0x80" for e and k :: nat
    using literal_escape[OF that(1)] that(2) by (simp add: encode_rune_def Let_def)
  have names: "map_of escapes CHR 0x22 = Some (char_of (0x22 :: nat))" "map_of escapes CHR 0x5C = Some (char_of (0x5C :: nat))"
    "map_of escapes CHR ''b'' = Some (char_of (0x08 :: nat))" "map_of escapes CHR ''f'' = Some (char_of (0x0C :: nat))"
    "map_of escapes CHR ''n'' = Some (char_of (0x0A :: nat))" "map_of escapes CHR ''r'' = Some (char_of (0x0D :: nat))"
    "map_of escapes CHR ''t'' = Some (char_of (0x09 :: nat))" by code_simp+
  consider (named) "r \<in> {0x22, 0x5C, 0x08, 0x0C, 0x0A, 0x0D, 0x09}"
    | (hex) "r \<notin> {0x22, 0x5C, 0x08, 0x0C, 0x0A, 0x0D, 0x09}"
        "r < 0x20 \<or> r = 0x3C \<or> r = 0x3E \<or> r = 0x26 \<or> r = 0x2028 \<or> r = 0x2029"
    | (plain) "r \<notin> {0x22, 0x5C, 0x08, 0x0C, 0x0A, 0x0D, 0x09}"
        "\<not> (r < 0x20 \<or> r = 0x3C \<or> r = 0x3E \<or> r = 0x26 \<or> r = 0x2028 \<or> r = 0x2029)" by blast
  then have "literal (escape_rune r) (encode_rune r)"
  proof cases
    case named
    then show ?thesis using names by (auto simp: escape_rune_def intro!: short)
  next
    case hex
    then have "r < 0x10000" "r < 0xD800 \<or> 0xDC00 \<le> r" by auto
    from literal_hex[OF hex4_digits[OF this(1)] _ this(2)] hex show ?thesis by (simp add: escape_rune_def)
  next
    case plain
    then show ?thesis using literal_rune[OF assms(1) ok assms(2)] by (simp add: escape_rune_def)
  qed
  with ok show ?thesis by auto
qed

lemma literal_append:
  assumes "literal p a" "literal q b"
  shows "literal (p @ q) (a @ b)"
proof -
  have "scan_string ((p @ q) @ t) = map_option (\<lambda>(body, rest). ((p @ q) @ body, rest)) (scan_string t)" for t
    using assms by (cases "scan_string t") (auto simp: literal_def)
  then show ?thesis using assms by (simp add: literal_def)
qed

lemma json_escape_literal: "literal (json_escape s) (to_valid s)"
proof (induction s rule: json_escape.induct)
  case (1 s)
  show ?case
  proof (cases "s = []")
    case True
    then show ?thesis by (simp add: literal_def json_escape.simps to_valid.simps option.map_id)
  next
    case False
    obtain r w where rw: "decode_rune s = (r, w)" by (cases "decode_rune s")
    let ?p = "if r = rune_error \<and> w = 1 then [CHR 0x5C] @ ''ufffd'' else escape_rune r"
    have "json_escape s = ?p @ json_escape (drop (max 1 w) s)" "to_valid s = encode_rune r @ to_valid (drop (max 1 w) s)"
      using False rw by (simp_all add: json_escape.simps[of s] to_valid.simps[of s])
    moreover have "literal ?p (encode_rune r)" by (rule literal_escape_rune[OF rw False])
    moreover have "literal (json_escape (drop (max 1 w) s)) (to_valid (drop (max 1 w) s))"
      by (rule 1[OF False rw[symmetric] refl])
    ultimately show ?thesis by (simp only: literal_append)
  qed
qed

lemma scan_escaped: "scan_string (json_escape s @ CHR 0x22 # r) = Some (json_escape s, r)"
  using json_escape_literal[of s] by (simp add: literal_def scan_string.simps[of "CHR 0x22 # r"])

lemma unquote_escaped: "unquote (json_escape s) = to_valid s"
proof -
  have "unquote (json_escape s @ []) = to_valid s @ unquote []"
    using json_escape_literal[of s] unfolding literal_def by blast
  then show ?thesis by (simp add: unquote.simps[of "[]"])
qed

definition json_string :: "string \<Rightarrow> string" where
  "json_string s = json_quote (json_escape s)"

lemma reads_json_string: "reads d (json_string s) (JString (json_escape s))"
  by (rule readsI) (auto simp: json_string_def json_quote_def is_json_space_def scan_escaped)

lemma reads_json_bool: "reads d ''true'' (JBool True)" "reads d ''false'' (JBool False)"
  by (rule readsI; simp add: is_json_space_def)+

subsection \<open>Control messages\<close>

text \<open>\<open>json.Marshal\<close> of a \<open>ControlMessage\<close> whose time is in UTC and whose payload text is compact.\<close>

definition marshal_control :: "control_message \<Rightarrow> string" where
  "marshal_control m = json_object (
     [(''version'', itoa (cm_version m)), (''id'', json_string (cm_id m)),
      (''type'', json_string (control_name (cm_type m))),
      (''sent_at'', json_quote (format_utc (cm_sent_at m)))] @
     optional_member ''payload'' (cm_payload m) (cm_payload m))"

definition control_members :: "control_message \<Rightarrow> json \<Rightarrow> (string \<times> string \<times> json) list" where
  "control_members m p =
     [(''version'', ''2'', JNumber ''2''), (''id'', json_string (cm_id m), JString (json_escape (cm_id m))),
      (''type'', json_string (control_name (cm_type m)), JString (json_escape (control_name (cm_type m)))),
      string_member ''sent_at'' (format_utc (cm_sent_at m))] @
     optional_read ''payload'' (cm_payload m) (cm_payload m) p"

lemma plain_valid: "plain_text s \<Longrightarrow> to_valid s = s"
proof (induction s)
  case (Cons c s)
  have "decode_rune (c # s) = (code c, 1)" "encode_rune (code c) = [c]"
    using Cons.prems by (simp_all add: plain_text_def decode_rune_def encode_rune_def Let_def)
  with Cons show ?case by (simp add: to_valid.simps[of "c # s"] plain_text_def)
qed (simp add: to_valid.simps)

lemma ValidateControl_facts:
  assumes "ValidateControl v m = None"
  shows "cm_version m = 2" "validUUID (cm_id m)" "control_IsKnown (cm_type m)" "control_payload_ok (cm_type m) (cm_payload m)"
  using assms by (auto simp: ValidateControl_def validateCommon_def ProtocolVersion_def split: option.splits if_splits)

lemma control_canonical:
  assumes "t \<in> set known_controls"
  shows "control_of (control_name t) = t" "plain_text (control_name t)"
proof -
  have "list_all (\<lambda>t. control_of (control_name t) = t \<and> plain_text (control_name t)) known_controls" by code_simp
  with assms show "control_of (control_name t) = t" "plain_text (control_name t)" by (auto simp: list_all_iff)
qed

lemma decode_written_control:
  assumes "ValidateControl v m = None" "cm_type m \<in> set known_controls" "cm_payload m = [] \<or> reads 1 (cm_payload m) p"
    "0 \<le> year_of (cm_sent_at m) \<and> year_of (cm_sent_at m) \<le> 9999" "length (marshal_control m) \<le> MaxControlMessageSize"
  shows "DecodeControl (marshal_control m) v = Inr m"
proof -
  note F = ValidateControl_facts[OF assms(1)]
  note canon = control_canonical[OF assms(2)]
  have id: "to_valid (cm_id m) = cm_id m" using F(2) by (intro plain_valid plain_char_text plain_uuid)
  have keys: "plain_text ''version''" "plain_text ''id''" "plain_text ''type''" "plain_text ''sent_at''"
    "plain_text ''payload''" "is_digit CHR ''2''" by code_simp+
  have "\<forall>(k, t, w) \<in> set (control_members m p). plain_text k \<and> reads (Suc 0) t w"
    using keys assms(3) reads_digit[OF keys(6)]
    by (auto simp: control_members_def string_member_def optional_read_def plain_time reads_string reads_json_string split: if_splits)
  then have "reads 0 (json_object (texts (control_members m p))) (JObject (control_members m p))"
    by (intro reads_object) (auto simp: control_members_def max_nesting_def)
  moreover have "itoa 2 = ''2''" by code_simp
  then have "marshal_control m = json_object (texts (control_members m p))"
    using F(1) by (simp add: marshal_control_def control_members_def)
  ultimately have parsed: "parse_json (marshal_control m) = Some (JObject (control_members m p), [])"
    using parse_written by simp
  have two: "parse_int ''2'' = Some 2" by code_simp
  have "store_members store_control control_fields False (control_members m p) empty_control = Some m"
    using F(1) keys two canon id plain_valid[OF canon(2)] parse_format_utc[of "cm_sent_at m"] assms(4)
    by (simp add: control_members_def string_member_def optional_read_def field_for_member control_fields_def
        store_control_def plain_time unquote_escaped empty_control_def)
  then have "decodeJSON (store_struct store_control control_fields False) (marshal_control m) empty_control = Some m"
    by (simp add: decodeJSON_def parsed store_struct_def skip_space_def)
  with assms(1,5) show ?thesis by (simp add: DecodeControl_def)
qed

subsection \<open>Payloads\<close>

definition marshal_chat :: "string \<Rightarrow> string" where
  "marshal_chat text = json_object [(''text'', json_string text)]"

definition json_bool :: "bool \<Rightarrow> string" where
  "json_bool b = (if b then ''true'' else ''false'')"

definition marshal_audio_state :: "bool \<Rightarrow> string" where
  "marshal_audio_state muted = json_object [(''muted'', json_bool muted)]"

definition marshal_sdp :: "string \<Rightarrow> string" where
  "marshal_sdp sdp = json_object [(''sdp'', json_string sdp)]"

definition marshal_ice :: "ice_payload \<Rightarrow> string" where
  "marshal_ice p = json_object ((''candidate'', json_string (ice_Candidate p)) #
     (case ice_SDPMid p of None \<Rightarrow> [] | Some mid \<Rightarrow> [(''sdp_mid'', json_string mid)]) @
     (case ice_SDPMLineIndex p of None \<Rightarrow> [] | Some i \<Rightarrow> [(''sdp_mline_index'', itoa i)]))"

lemma reads_bool: "reads d (json_bool b) (JBool b)"
  by (simp add: json_bool_def reads_json_bool)

text \<open>A one-member object, as a payload of a message and on its own.\<close>

lemma reads_member:
  assumes "plain_text k" "reads (Suc d) t v" "d < max_nesting"
  shows "reads d (json_object [(k, t)]) (JObject [(k, t, v)])"
  using reads_object(1)[of "[(k, t, v)]" d] assms by simp

lemma trim_brace: "trim_space (CHR ''{'' # body) = take n (CHR ''{'' # body) \<Longrightarrow> trim_space (CHR ''{'' # body) \<noteq> ''null''"
  by (cases n) auto

lemma trim_space_brace: "trim_space (CHR ''{'' # body) \<noteq> ''null''"
proof -
  let ?s = "CHR ''{'' # body"
  have "List.find (\<lambda>p. prefix p (CHR ''{'' # t)) go_spaces = None" for t
    by (simp add: go_spaces_def)
  then have front: "strip_prefixes n go_spaces ?s = ?s" for n
    by (cases n) simp_all
  have rev_keep: "\<exists>u. strip_prefixes n (map rev go_spaces) t = drop u t" for n t
  proof (induction n arbitrary: t)
    case (Suc n)
    show ?case
    proof (cases "List.find (\<lambda>p. prefix p t) (map rev go_spaces)")
      case (Some q)
      with Suc[of "drop (length q) t"] show ?thesis by (auto simp: drop_drop)
    qed (auto intro: exI[of _ 0])
  qed (auto intro: exI[of _ 0])
  have "trim_space ?s = rev (strip_prefixes (length ?s) (map rev go_spaces) (rev ?s))"
    by (simp only: trim_space_def front Let_def)
  then obtain u where "trim_space ?s = rev (drop u (rev ?s))" using rev_keep by metis
  then have "trim_space ?s = take (length ?s - u) ?s" by (simp only: rev_drop rev_rev_ident length_rev)
  then show ?thesis by (rule trim_brace)
qed

text \<open>A payload written as an object is read as that object.\<close>

lemma required_read:
  assumes "reads 0 t v" "\<exists>body. t = CHR ''{'' # body"
  shows "requiredPayload store t zero = store v zero"
  using assms(2) parse_written[OF assms(1)] trim_space_brace by (auto simp: requiredPayload_def skip_space_def)

lemma required_object:
  assumes "ms \<noteq> []" "\<forall>(k, t, v) \<in> set ms. plain_text k \<and> reads 1 t v"
  shows "requiredPayload store (json_object (texts ms)) zero = store (JObject ms) zero"
  using reads_object(1)[OF assms(1), of 0] assms(2) by (intro required_read) (simp_all add: json_object_def max_nesting_def)

lemma required_member:
  assumes "plain_text k" "reads 1 t v"
  shows "requiredPayload store (json_object [(k, t)]) zero = store (JObject [(k, t, v)]) zero"
  using required_object[of "[(k, t, v)]"] assms by simp

lemma member_keys: "plain_text ''text''" "plain_text ''muted''" "plain_text ''sdp''" "plain_text ''candidate''"
  "plain_text ''sdp_mid''" "plain_text ''sdp_mline_index''" "plain_text ''capabilities''"
  by code_simp+

lemma read_chat: "chat_text_of (marshal_chat text) = Some (to_valid text)"
  by (simp add: chat_text_of_def marshal_chat_def required_member[OF member_keys(1) reads_json_string] store_struct_def
      field_for_member unquote_escaped member_keys)

lemma reads_chat: "d < max_nesting \<Longrightarrow> reads d (marshal_chat text) (JObject [(''text'', json_string text, JString (json_escape text))])"
  unfolding marshal_chat_def by (rule reads_member[OF member_keys(1) reads_json_string])

lemma read_audio_state: "audio_muted_of (marshal_audio_state b) = Some b"
  by (simp add: audio_muted_of_def marshal_audio_state_def required_member[OF member_keys(2) reads_bool] store_struct_def
      field_for_member member_keys)

lemma reads_audio_state: "d < max_nesting \<Longrightarrow> reads d (marshal_audio_state b) (JObject [(''muted'', json_bool b, JBool b)])"
  unfolding marshal_audio_state_def by (rule reads_member[OF member_keys(2) reads_bool])

lemma read_sdp: "sdp_of (marshal_sdp s) = Some \<lparr>SDP = to_valid s\<rparr>"
  by (simp add: sdp_of_def marshal_sdp_def required_member[OF member_keys(3) reads_json_string] store_struct_def
      field_for_member unquote_escaped member_keys)

lemma reads_sdp: "d < max_nesting \<Longrightarrow> reads d (marshal_sdp s) (JObject [(''sdp'', json_string s, JString (json_escape s))])"
  unfolding marshal_sdp_def by (rule reads_member[OF member_keys(3) reads_json_string])

text \<open>Natural numbers.\<close>

lemma decimal_head: "decimal n \<noteq> [] \<and> is_digit (hd (decimal n)) \<and> (hd (decimal n) = CHR ''0'' \<longleftrightarrow> n = 0)"
proof (induction n rule: decimal.induct)
  case (1 n)
  show ?case
  proof (cases "n < 10")
    case True
    have "list_all (\<lambda>k. is_digit (digit k) \<and> (digit k = CHR ''0'' \<longleftrightarrow> k = 0)) [0..<10]" by code_simp
    then have "is_digit (digit n) \<and> (digit n = CHR ''0'' \<longleftrightarrow> n = 0)" using True by (simp add: list_all_iff)
    with True show ?thesis by (subst (1 2 3) decimal.simps) simp
  next
    case False
    with 1[OF False] show ?thesis by (subst (1 2 3) decimal.simps) auto
  qed
qed

lemma digits_val_decimal: "digits_val (decimal n) = n"
  by (induction n rule: decimal.induct) (subst decimal.simps, auto simp: digits_val_def)

lemma reads_decimal: "reads d (decimal n) (JNumber (decimal n))"
proof -
  obtain c r where c: "decimal n = c # r" using decimal_head[of n] by (cases "decimal n") auto
  have digits: "is_digit c" "list_all is_digit r" using plain_decimal[of n] by (simp_all add: c)
  have ne: "c \<noteq> CHR 0x22" "c \<noteq> CHR ''{''" "c \<noteq> CHR ''[''" "c \<noteq> CHR ''t''" "c \<noteq> CHR ''f''"
    "c \<noteq> CHR ''n''" "c \<noteq> CHR ''-''" "\<not> is_json_space c" using digits(1) by (auto simp: is_digit_def is_json_space_def)
  have zero: "c = CHR ''0'' \<Longrightarrow> r = []"
    using decimal_head[of n] c by (auto simp: decimal.simps[of 0])
  have dig: "\<not> is_digit CHR '',''" "\<not> is_digit CHR ''}''" "\<not> is_digit CHR 0x0A" by (simp_all add: is_digit_def)
  have split: "takeWhile is_digit (r @ u) = r" "dropWhile is_digit (r @ u) = u" if "ends_member u" for u
    using digits(2) that dig by (cases u; induction r; auto simp: ends_member_def)+
  have "scan_number (c # r @ u) = Some (c # r, u)" if u: "ends_member u" for u
  proof -
    have "scan_digits (c # r @ u) = Some (c # r, u)"
      using digits(1) split[OF u] by (simp add: scan_digits_def)
    moreover have "u = [] \<or> hd u \<noteq> CHR ''.'' \<and> hd u \<noteq> CHR ''e'' \<and> hd u \<noteq> CHR ''E''"
      using u by (auto simp: ends_member_def)
    ultimately show ?thesis using ne zero by (cases "c = CHR ''0''"; cases u) (simp_all add: scan_number_def Let_def)
  qed
  with ne show ?thesis unfolding c by (intro readsI) auto
qed

lemma parse_decimal: "int n < 2 ^ 63 \<Longrightarrow> parse_int (decimal n) = Some (int n)"
proof -
  assume "int n < 2 ^ 63"
  moreover have "decimal n \<noteq> []" "hd (decimal n) \<noteq> CHR ''-''"
    using decimal_head[of n] by (auto simp: is_digit_def)
  ultimately show ?thesis
    using plain_decimal[of n] by (simp add: parse_int_def digits_val_decimal Let_def)
qed

lemma itoa_nat: "0 \<le> x \<Longrightarrow> itoa x = decimal (nat x)"
  by (simp add: itoa_def)

text \<open>Candidates; the line index is a 16-bit number.\<close>

definition ice_members :: "ice_payload \<Rightarrow> (string \<times> string \<times> json) list" where
  "ice_members p = (''candidate'', json_string (ice_Candidate p), JString (json_escape (ice_Candidate p))) #
     (case ice_SDPMid p of None \<Rightarrow> [] | Some mid \<Rightarrow> [(''sdp_mid'', json_string mid, JString (json_escape mid))]) @
     (case ice_SDPMLineIndex p of None \<Rightarrow> [] | Some i \<Rightarrow> [(''sdp_mline_index'', itoa i, JNumber (itoa i))])"

definition line_index_ok :: "ice_payload \<Rightarrow> bool" where
  "line_index_ok p \<longleftrightarrow> (case ice_SDPMLineIndex p of None \<Rightarrow> True | Some i \<Rightarrow> 0 \<le> i \<and> i < 65536)"

definition valid_ice :: "ice_payload \<Rightarrow> ice_payload" where
  "valid_ice p = p\<lparr>ice_Candidate := to_valid (ice_Candidate p), ice_SDPMid := map_option to_valid (ice_SDPMid p)\<rparr>"

lemma marshal_ice_members: "marshal_ice p = json_object (texts (ice_members p))"
  by (simp add: marshal_ice_def ice_members_def split: option.split)

lemma ice_members_read:
  assumes "line_index_ok p"
  shows "\<forall>(k, t, v) \<in> set (ice_members p). plain_text k \<and> reads d t v"
proof -
  have "reads d (itoa i) (JNumber (itoa i))" if "0 \<le> i" for i
    using that reads_decimal by (simp add: itoa_nat)
  then show ?thesis
    using assms member_keys reads_json_string by (auto simp: ice_members_def line_index_ok_def split: option.splits)
qed

lemma read_ice:
  assumes "line_index_ok p"
  shows "ice_of (marshal_ice p) = Some (valid_ice p)"
proof -
  have number: "get_mline (JNumber (itoa i)) = Some (Some i)" if "0 \<le> i" "i < 65536" for i
  proof -
    have "hd (decimal (nat i)) \<noteq> CHR ''-''" using decimal_head[of "nat i"] by (auto simp: is_digit_def)
    then show ?thesis using that parse_decimal[of "nat i"] by (simp add: get_mline_def itoa_nat)
  qed
  have "ice_of (marshal_ice p) = store_struct store_ice [''candidate'', ''sdp_mid'', ''sdp_mline_index''] False
      (JObject (ice_members p)) \<lparr>ice_Candidate = [], ice_SDPMid = None, ice_SDPMLineIndex = None\<rparr>"
    unfolding ice_of_def marshal_ice_members
    by (rule required_object) (use ice_members_read[OF assms] in \<open>simp_all add: ice_members_def\<close>)
  also have "\<dots> = Some (valid_ice p)"
    using assms number
    by (cases p) (auto simp: ice_members_def store_struct_def field_for_member member_keys store_ice_def unquote_escaped
      valid_ice_def line_index_ok_def split: option.split)
  finally show ?thesis .
qed

text \<open>What a peer announces of itself; numbers that are zero are left out.\<close>

definition number_member :: "string \<Rightarrow> int \<Rightarrow> (string \<times> string) list" where
  "number_member k x = (if x = 0 then [] else [(k, itoa x)])"

definition marshal_hello :: "capabilities \<Rightarrow> string" where
  "marshal_hello c = json_object [(''capabilities'', json_object (
     [(''text_chat'', json_bool (cap_TextChat c)), (''ascii_video'', json_bool (cap_ASCIIVideo c))] @
     number_member ''ascii_columns'' (cap_ASCIIColumns c) @ number_member ''ascii_rows'' (cap_ASCIIRows c) @
     number_member ''ascii_fps'' (cap_ASCIIFPS c) @ [(''audio'', json_bool (cap_Audio c))]))]"

definition number_read :: "string \<Rightarrow> int \<Rightarrow> (string \<times> string \<times> json) list" where
  "number_read k x = (if x = 0 then [] else [(k, itoa x, JNumber (itoa x))])"

definition hello_members :: "capabilities \<Rightarrow> (string \<times> string \<times> json) list" where
  "hello_members c =
     [(''text_chat'', json_bool (cap_TextChat c), JBool (cap_TextChat c)), (''ascii_video'', json_bool (cap_ASCIIVideo c), JBool (cap_ASCIIVideo c))] @
     number_read ''ascii_columns'' (cap_ASCIIColumns c) @ number_read ''ascii_rows'' (cap_ASCIIRows c) @
     number_read ''ascii_fps'' (cap_ASCIIFPS c) @ [(''audio'', json_bool (cap_Audio c), JBool (cap_Audio c))]"

definition numbers_ok :: "capabilities \<Rightarrow> bool" where
  "numbers_ok c \<longleftrightarrow> (\<forall>x \<in> {cap_ASCIIColumns c, cap_ASCIIRows c, cap_ASCIIFPS c}. 0 \<le> x \<and> x < 2 ^ 63)"

lemma hello_keys: "plain_text ''text_chat''" "plain_text ''ascii_video''" "plain_text ''ascii_columns''" "plain_text ''ascii_rows''"
  "plain_text ''ascii_fps''" "plain_text ''audio''"
  by code_simp+

lemma hello_texts: "marshal_hello c = json_object [(''capabilities'', json_object (texts (hello_members c)))]"
  by (simp add: marshal_hello_def hello_members_def number_member_def number_read_def)

lemma reads_hello:
  assumes "numbers_ok c" "Suc d < max_nesting"
  shows "reads d (marshal_hello c) (JObject [(''capabilities'', json_object (texts (hello_members c)), JObject (hello_members c))])"
proof -
  have "reads k (itoa i) (JNumber (itoa i))" if "0 \<le> i" for i k
    using that reads_decimal by (simp add: itoa_nat)
  then have "\<forall>(k, t, v) \<in> set (hello_members c). plain_text k \<and> reads (Suc (Suc d)) t v"
    using assms(1) hello_keys reads_bool by (auto simp: hello_members_def number_read_def numbers_ok_def)
  then have "reads (Suc d) (json_object (texts (hello_members c))) (JObject (hello_members c))"
    using assms(2) by (intro reads_object) (simp_all add: hello_members_def)
  then show ?thesis unfolding hello_texts using assms(2) by (intro reads_member[OF member_keys(7)]) simp_all
qed

lemma read_hello:
  assumes "numbers_ok c"
  shows "peer_hello_of (marshal_hello c) = Some c"
proof -
  have "parse_int (itoa x) = Some x" if "0 \<le> x" "x < 2 ^ 63" for x
    using that parse_decimal[of "nat x"] by (simp add: itoa_nat)
  then have n: "parse_int (itoa x) = Some x" if "x \<in> {cap_ASCIIColumns c, cap_ASCIIRows c, cap_ASCIIFPS c}" for x
    using assms that by (auto simp: numbers_ok_def)
  have members: "store_members store_capabilities capability_fields False (hello_members c) empty_capabilities = Some c"
    using n by (cases c) (simp add: hello_members_def number_read_def field_for_member capability_fields_def hello_keys
      store_capabilities_def empty_capabilities_def)
  have "peer_hello_of (marshal_hello c) = store_struct (\<lambda>n raw. store_struct store_capabilities capability_fields False)
      [''capabilities''] False (JObject [(''capabilities'', json_object (texts (hello_members c)), JObject (hello_members c))]) empty_capabilities"
    unfolding peer_hello_of_def
    by (rule required_read) (use reads_hello[OF assms, of 0] in \<open>simp_all add: max_nesting_def hello_texts json_object_def\<close>)
  with members show ?thesis by (simp add: store_struct_def field_for_member member_keys)
qed

end
