(* ===== verification/Identity.thy ===== *)
theory Identity
  imports Json_Text
begin

text \<open>
  \<open>internal/identity/identity.go\<close>: key pairs, the key file, canonical addresses derived from
  a key's fingerprint, signed identity proofs and their verification, and the safety code.
  The two cryptographic primitives and the random key are parameters, the fields of a
  \<open>crypto\<close> value: SHA-256 and Ed25519 enter the theorems only through \<open>crypto_laws\<close>, their
  documented output sizes and the correctness of signatures.
\<close>

record crypto =
  sha256 :: "string \<Rightarrow> string"
  ed25519_public :: "string \<Rightarrow> string"
  ed25519_sign :: "string \<Rightarrow> string \<Rightarrow> string"
  ed25519_verify :: "string \<Rightarrow> string \<Rightarrow> string \<Rightarrow> bool"

text \<open>A private key is a 32-byte seed followed by the public key of that seed.\<close>

definition crypto_laws :: "crypto \<Rightarrow> bool" where
  "crypto_laws cr \<longleftrightarrow>
     (\<forall>x. length (sha256 cr x) = 32) \<and>
     (\<forall>seed. length seed = 32 \<longrightarrow> length (ed25519_public cr seed) = 32 \<and>
        (\<forall>m. length (ed25519_sign cr (seed @ ed25519_public cr seed) m) = 64 \<and>
             ed25519_verify cr (ed25519_public cr seed) m (ed25519_sign cr (seed @ ed25519_public cr seed) m)))"

definition identityVersion :: int where "identityVersion = 2"
definition proofLifetime :: duration where "proofLifetime = 2 * minute"

record identity =
  PublicKey :: string
  PrivateKey :: string

text \<open>\<open>Generate\<close>, from the random seed it draws.\<close>

definition Generate :: "crypto \<Rightarrow> string \<Rightarrow> identity" where
  "Generate cr seed = \<lparr>PublicKey = ed25519_public cr seed, PrivateKey = seed @ ed25519_public cr seed\<rparr>"

subsection \<open>Keys and addresses\<close>

definition EncodePublicKey :: "string \<Rightarrow> string" where
  "EncodePublicKey key = base64_url_encode key"

definition DecodePublicKey :: "string \<Rightarrow> string option" where
  "DecodePublicKey value = (case base64_url_decode value of
      Some decoded \<Rightarrow> if length decoded \<noteq> 32 then None else Some decoded
    | None \<Rightarrow> None)"

definition Fingerprint :: "crypto \<Rightarrow> string \<Rightarrow> string" where
  "Fingerprint cr key = base32_lower (sha256 cr key)"

definition CanonicalAddress :: "crypto \<Rightarrow> string \<Rightarrow> string \<Rightarrow> string option" where
  "CanonicalAddress cr baseName key =
    (if \<not> ValidBaseName baseName then None
     else Some (baseName @ ''-'' @ take AddressSuffixLength (Fingerprint cr key)))"

definition AddressMatchesKey :: "crypto \<Rightarrow> string \<Rightarrow> string \<Rightarrow> bool" where
  "AddressMatchesKey cr address key \<longleftrightarrow> ValidAddress address \<and>
     suffix (''-'' @ take AddressSuffixLength (Fingerprint cr key)) address"

fun bytes_less :: "string \<Rightarrow> string \<Rightarrow> bool" where
  "bytes_less a [] = False"
| "bytes_less [] (b # bs) = True"
| "bytes_less (a # as) (b # bs) = (code a < code b \<or> a = b \<and> bytes_less as bs)"

definition hex_upper :: "nat \<Rightarrow> char" where
  "hex_upper n = ''0123456789ABCDEF'' ! (n mod 16)"

definition SafetyCode :: "crypto \<Rightarrow> string \<Rightarrow> string \<Rightarrow> string \<Rightarrow> string" where
  "SafetyCode cr local remote callID = (
    let (first, second) = (if bytes_less remote local then (remote, local) else (local, remote))
    in concat (map (\<lambda>c. [hex_upper (code c div 16), hex_upper (code c)])
         (take 5 (sha256 cr (first @ second @ callID)))))"

subsection \<open>The key file\<close>

definition validateIdentity :: "identity option \<Rightarrow> bool" where
  "validateIdentity value = (case value of None \<Rightarrow> False | Some i \<Rightarrow>
     length (PublicKey i) = 32 \<and> length (PrivateKey i) = 64 \<and> drop 32 (PrivateKey i) = PublicKey i)"

record disk_file =
  f_perm :: nat
  f_data :: string

text \<open>
  What the file system does during a save: which call fails, and what a failed write leaves.
\<close>

record disk_faults =
  mkdir_fails :: bool
  open_fails :: bool
  write_fails :: bool
  sync_fails :: bool
  close_fails :: bool
  remove_fails :: bool
  partial_data :: string

definition no_faults :: disk_faults where
  "no_faults = \<lparr>mkdir_fails = False, open_fails = False, write_fails = False, sync_fails = False,
     close_fails = False, remove_fails = False, partial_data = []\<rparr>"

datatype save_error = IncompleteIdentity | RefuseOverwrite | SaveIO

text \<open>\<open>json.MarshalIndent\<close> of the stored identity.\<close>

definition stored_identity :: "identity \<Rightarrow> string" where
  "stored_identity i = json_indented
     [(''version'', itoa identityVersion), (''public_key'', json_quote (EncodePublicKey (PublicKey i))),
      (''private_key'', json_quote (base64_url_encode (PrivateKey i)))]"

definition SaveNewFile ::
  "disk_faults \<Rightarrow> string \<Rightarrow> identity option \<Rightarrow> (string \<rightharpoonup> disk_file) \<Rightarrow> save_error option \<times> (string \<rightharpoonup> disk_file)" where
  "SaveNewFile io path value fs =
    (if \<not> validateIdentity value then (Some IncompleteIdentity, fs)
     else if mkdir_fails io then (Some SaveIO, fs)
     else if fs path \<noteq> None then (Some RefuseOverwrite, fs)
     else if open_fails io then (Some SaveIO, fs)
     else let full = \<lparr>f_perm = 0x180, f_data = stored_identity (the value)\<rparr>;
              part = \<lparr>f_perm = 0x180, f_data = partial_data io\<rparr>;
              left = (if write_fails io then part else full)
       in if write_fails io \<or> sync_fails io
          then (Some SaveIO, if remove_fails io then fs(path \<mapsto> left) else fs)
          else (if close_fails io then Some SaveIO else None, fs(path \<mapsto> full)))"

datatype load_error = LoadIO | BroadPermissions | BadJSON | UnsupportedIdentity | BadPublicKey
  | BadPrivateKey | KeyMismatch

record stored =
  st_Version :: int
  st_PublicKey :: string
  st_PrivateKey :: string

definition store_stored :: "string \<Rightarrow> string \<Rightarrow> json \<Rightarrow> stored \<Rightarrow> stored option" where
  "store_stored n raw v s = (
     if n = ''version'' then map_option (\<lambda>x. s\<lparr>st_Version := x\<rparr>) (get_int v (st_Version s))
     else if n = ''public_key'' then map_option (\<lambda>x. s\<lparr>st_PublicKey := x\<rparr>) (get_string v (st_PublicKey s))
     else map_option (\<lambda>x. s\<lparr>st_PrivateKey := x\<rparr>) (get_string v (st_PrivateKey s)))"

text \<open>\<open>Decoder.Decode\<close> with \<open>DisallowUnknownFields\<close>: one value, whatever follows it.\<close>

definition decode_strict :: "(bool \<Rightarrow> json \<Rightarrow> 'a \<Rightarrow> 'a option) \<Rightarrow> string \<Rightarrow> 'a \<Rightarrow> 'a option" where
  "decode_strict store data zero = (case parse_json data of
      None \<Rightarrow> None | Some (v, rest) \<Rightarrow> store True v zero)"

definition LoadFile :: "string \<Rightarrow> (string \<rightharpoonup> disk_file) \<Rightarrow> load_error + identity" where
  "LoadFile path fs = (case fs path of None \<Rightarrow> Inl LoadIO | Some f \<Rightarrow>
     if f_perm f mod 64 \<noteq> 0 then Inl BroadPermissions
     else case decode_strict (store_struct store_stored [''version'', ''public_key'', ''private_key''])
         (f_data f) \<lparr>st_Version = 0, st_PublicKey = [], st_PrivateKey = []\<rparr> of
       None \<Rightarrow> Inl BadJSON
     | Some s \<Rightarrow>
         if st_Version s \<noteq> identityVersion then Inl UnsupportedIdentity
         else case DecodePublicKey (st_PublicKey s) of
           None \<Rightarrow> Inl BadPublicKey
         | Some publicKey \<Rightarrow> (case base64_url_decode (st_PrivateKey s) of
             None \<Rightarrow> Inl BadPrivateKey
           | Some privateKey \<Rightarrow>
               if length privateKey \<noteq> 64 then Inl BadPrivateKey
               else if drop 32 privateKey \<noteq> publicKey then Inl KeyMismatch
               else Inr \<lparr>PublicKey = publicKey, PrivateKey = privateKey\<rparr>))"

subsection \<open>Proofs\<close>

definition nul_char :: char where "nul_char = CHR 0x00"

definition proofBytes :: "signal_type \<Rightarrow> string \<Rightarrow> string \<Rightarrow> string \<Rightarrow> identity_proof \<Rightarrow> string" where
  "proofBytes messageType callID from to p = join_with nul_char
     [itoa ProtocolVersion, signal_name messageType, callID, from, to, pf_PublicKey p,
      format_utc (pf_ExpiresAt p), pf_Nonce p]"

text \<open>\<open>Sign\<close>, with the nonce \<open>uuid.NewString\<close> returns.\<close>

definition Sign ::
  "crypto \<Rightarrow> string \<Rightarrow> identity \<Rightarrow> signal_type \<Rightarrow> string \<Rightarrow> string \<Rightarrow> string \<Rightarrow> time \<Rightarrow> identity_proof option" where
  "Sign cr nonce i messageType callID from to now =
    (if \<not> validateIdentity (Some i) then None
     else let p = \<lparr>pf_PublicKey = EncodePublicKey (PublicKey i), pf_ExpiresAt = now + proofLifetime,
                   pf_Nonce = nonce, pf_Signature = []\<rparr>
       in Some (p\<lparr>pf_Signature := base64_url_encode
            (ed25519_sign cr (PrivateKey i) (proofBytes messageType callID from to p))\<rparr>))"

datatype verify_error = ProofRequired | InvalidPublicKey | ProofExpired | SuffixMismatch
  | SignatureEncoding | SignatureInvalid

definition Verify ::
  "crypto \<Rightarrow> signal_message \<Rightarrow> time \<Rightarrow> verify_error + (identity_proof \<times> string \<times> string)" where
  "Verify cr m now = (case decode_strict (store_struct store_proof proof_fields) (sm_payload m) empty_proof of
      None \<Rightarrow> Inl ProofRequired
    | Some p \<Rightarrow> (case DecodePublicKey (pf_PublicKey p) of
        None \<Rightarrow> Inl InvalidPublicKey
      | Some publicKey \<Rightarrow>
          let fingerprint = Fingerprint cr publicKey in
          if pf_ExpiresAt p < now \<or> now + (proofLifetime + minute) < pf_ExpiresAt p then Inl ProofExpired
          else if \<not> AddressMatchesKey cr (sm_from m) publicKey then Inl SuffixMismatch
          else case base64_url_decode (pf_Signature p) of
            None \<Rightarrow> Inl SignatureEncoding
          | Some signature \<Rightarrow>
              if length signature \<noteq> 64 then Inl SignatureEncoding
              else if \<not> ed25519_verify cr publicKey
                  (proofBytes (sm_type m) (sm_call_id m) (sm_from m) (sm_to m) p) signature
              then Inl SignatureInvalid
              else Inr (p, publicKey, fingerprint)))"

text \<open>\<open>json.Marshal\<close> of an \<open>IdentityProof\<close>, the payload of a signed message.\<close>

definition marshal_proof :: "identity_proof \<Rightarrow> string" where
  "marshal_proof p = json_object
     [(''public_key'', json_quote (pf_PublicKey p)), (''expires_at'', json_quote (format_utc (pf_ExpiresAt p))),
      (''nonce'', json_quote (pf_Nonce p)), (''signature'', json_quote (pf_Signature p))]"

subsection \<open>Addresses follow keys\<close>

lemma length_fingerprint: "crypto_laws cr \<Longrightarrow> length (Fingerprint cr key) = 52"
  by (simp add: Fingerprint_def length_base32 crypto_laws_def)

lemma set_fingerprint: "set (Fingerprint cr key) \<subseteq> set base32_lower_alphabet"
  unfolding Fingerprint_def by (rule set_base32)

lemma AddressMatchesKey_iff:
  assumes "crypto_laws cr"
  shows "AddressMatchesKey cr a key \<longleftrightarrow> ValidAddress a \<and> suffix_of a = take 12 (Fingerprint cr key)"
proof -
  have len: "length (take 12 (Fingerprint cr key)) = 12" using length_fingerprint[OF assms] by simp
  have "suffix (''-'' @ take 12 (Fingerprint cr key)) a \<longleftrightarrow> suffix_of a = take 12 (Fingerprint cr key)"
    if "ValidAddress a"
  proof
    assume "suffix (''-'' @ take 12 (Fingerprint cr key)) a"
    then obtain b where "a = b @ ''-'' @ take 12 (Fingerprint cr key)" by (auto simp: suffix_def)
    with base_suffix_of(2)[of a b] len show "suffix_of a = take 12 (Fingerprint cr key)"
      by (simp add: AddressSuffixLength_def)
  next
    assume s: "suffix_of a = take 12 (Fingerprint cr key)"
    from that obtain base sfx where a: "a = base @ ''-'' @ sfx" "length sfx = AddressSuffixLength"
      unfolding ValidAddress_iff by blast
    with s base_suffix_of(2)[OF a] show "suffix (''-'' @ take 12 (Fingerprint cr key)) a"
      by (simp add: suffix_def)
  qed
  then show ?thesis by (auto simp: AddressMatchesKey_def AddressSuffixLength_def)
qed

lemma canonical_facts:
  assumes "crypto_laws cr" "ValidBaseName name"
  shows "\<exists>a. CanonicalAddress cr name key = Some a \<and> ValidAddress a \<and> base_of a = name \<and>
     (\<forall>other. AddressMatchesKey cr a other \<longleftrightarrow>
        take 12 (Fingerprint cr other) = take 12 (Fingerprint cr key))"
proof -
  define sfx where "sfx = take AddressSuffixLength (Fingerprint cr key)"
  have len: "length sfx = AddressSuffixLength"
    using length_fingerprint[OF assms(1)] by (simp add: sfx_def AddressSuffixLength_def)
  have "set sfx \<subseteq> set base32_lower_alphabet"
    using set_fingerprint[of cr key] unfolding sfx_def by (meson order_trans set_take_subset)
  then have valid: "ValidAddress (name @ ''-'' @ sfx)" unfolding ValidAddress_iff using assms(2) len by blast
  have parts: "base_of (name @ ''-'' @ sfx) = name" "suffix_of (name @ ''-'' @ sfx) = sfx"
    using base_suffix_of[OF refl len] by auto
  then have "AddressMatchesKey cr (name @ ''-'' @ sfx) other \<longleftrightarrow>
      take 12 (Fingerprint cr other) = take 12 (Fingerprint cr key)" for other
    unfolding AddressMatchesKey_iff[OF assms(1)] using valid by (auto simp: sfx_def AddressSuffixLength_def)
  with valid parts assms(2) show ?thesis by (simp add: CanonicalAddress_def sfx_def)
qed

text \<open>
  A canonical address built from a valid base name is a valid address, carries the
  base name, and matches exactly the keys whose fingerprint starts with its suffix.
\<close>

theorem canonical_address:
  assumes "crypto_laws cr" "ValidBaseName name"
  shows "\<exists>a. CanonicalAddress cr name key = Some a \<and> ValidAddress a \<and> base_of a = name \<and>
     (\<forall>other. AddressMatchesKey cr a other \<longleftrightarrow>
        take 12 (Fingerprint cr other) = take 12 (Fingerprint cr key))"
  using assms by (rule canonical_facts)

lemma bytes_less_linear: "bytes_less a b \<or> a = b \<or> bytes_less b a"
proof (induction a b rule: bytes_less.induct)
  case (3 a as b bs)
  show ?case
  proof (cases "code a = code b")
    case True
    then have "a = b" by simp
    with 3 show ?thesis by auto
  next
    case False
    then consider "code a < code b" | "code b < code a" by linarith
    then show ?thesis by cases auto
  qed
next
  case (1 a)
  then show ?case by (cases a) auto
qed simp

lemma bytes_less_asym: "bytes_less a b \<Longrightarrow> \<not> bytes_less b a"
  by (induction a b rule: bytes_less.induct) auto

text \<open>
  Both ends of a call compute the same safety code, whichever of the two keys is local.
\<close>

theorem safety_code_symmetric: "SafetyCode cr k1 k2 callID = SafetyCode cr k2 k1 callID"
  using bytes_less_linear[of k1 k2] bytes_less_asym[of k1 k2] bytes_less_asym[of k2 k1]
  by (auto simp: SafetyCode_def)

subsection \<open>What a signature covers\<close>

lemma join_snoc: "ss \<noteq> [] \<Longrightarrow> join_with sep (ss @ [t]) = join_with sep ss @ sep # t"
  by (induction ss rule: join_with.induct) auto

lemma append_sep_inject_right:
  assumes "sep \<notin> set a" "sep \<notin> set b" "x @ sep # a = y @ sep # b"
  shows "a = b \<and> x = y"
proof -
  have "rev a @ sep # rev x = rev b @ sep # rev y" using arg_cong[OF assms(3), of rev] by simp
  with append_sep_inject[of sep "rev a" "rev b" "rev x" "rev y"] assms(1,2) show ?thesis by simp
qed

definition nul_free :: "string \<Rightarrow> bool" where
  "nul_free s \<longleftrightarrow> nul_char \<notin> set s"

lemma plain_text_nul_free: "plain_text s \<Longrightarrow> nul_free s"
proof -
  have "code nul_char = 0" by code_simp
  then show "plain_text s \<Longrightarrow> nul_free s"
    unfolding plain_text_def nul_free_def list_all_iff by fastforce
qed

lemma base64_decode_nul_free: "base64_url_decode s = Some b \<Longrightarrow> nul_free s"
proof -
  have idx: "index_of nul_char base64_url_alphabet = None" by code_simp
  have sx: "sextets t = Some bs \<Longrightarrow> nul_char \<notin> set t" for t bs
    by (induction t arbitrary: bs) (auto simp: idx split: option.splits)
  assume "base64_url_decode s = Some b"
  then obtain bs where "sextets (filter (\<lambda>c. c \<noteq> CHR 0x0D \<and> c \<noteq> CHR 0x0A) s) = Some bs"
    by (auto simp: base64_url_decode_def Let_def split: if_splits)
  from sx[OF this] have "nul_char \<notin> set (filter (\<lambda>c. c \<noteq> CHR 0x0D \<and> c \<noteq> CHR 0x0A) s)" .
  moreover have "nul_char \<noteq> CHR 0x0D" "nul_char \<noteq> CHR 0x0A" by code_simp+
  ultimately show "nul_free s" by (simp add: nul_free_def)
qed

lemma proofBytes_split:
  "proofBytes t callID from to p = ''2'' @ nul_char # signal_name t @ nul_char #
     (((((callID @ nul_char # from) @ nul_char # to) @ nul_char # pf_PublicKey p) @ nul_char #
       format_utc (pf_ExpiresAt p)) @ nul_char # pf_Nonce p)"
proof -
  have "itoa ProtocolVersion = ''2''" by code_simp
  then show ?thesis by (simp add: proofBytes_def)
qed

text \<open>
  The signed bytes determine every field they are built from.  Types, addresses, key,
  nonce and expiry are as the checks before verification leave them; the call id may be any
  string, since a session hello carries an unchecked one.
\<close>

theorem proof_bytes_injective:
  assumes "nul_free (signal_name t)" "nul_free (signal_name t')"
    "nul_free from" "nul_free from'" "nul_free to" "nul_free to'"
    "DecodePublicKey (pf_PublicKey p) \<noteq> None" "DecodePublicKey (pf_PublicKey p') \<noteq> None"
    "validUUID (pf_Nonce p)" "validUUID (pf_Nonce p')"
    "year_of (pf_ExpiresAt p) \<in> {0..9999}" "year_of (pf_ExpiresAt p') \<in> {0..9999}"
    "proofBytes t callID from to p = proofBytes t' callID' from' to' p'"
  shows "signal_name t = signal_name t' \<and> callID = callID' \<and> from = from' \<and> to = to' \<and>
    pf_PublicKey p = pf_PublicKey p' \<and> pf_ExpiresAt p = pf_ExpiresAt p' \<and> pf_Nonce p = pf_Nonce p'"
proof -
  have key: "nul_free (pf_PublicKey p)" "nul_free (pf_PublicKey p')"
    using assms(7,8) base64_decode_nul_free by (auto simp: DecodePublicKey_def split: option.splits)
  have nonce: "nul_free (pf_Nonce p)" "nul_free (pf_Nonce p')"
    using assms(9,10) by (auto intro: plain_text_nul_free plain_char_text plain_uuid)
  have tm: "nul_free (format_utc (pf_ExpiresAt p))" "nul_free (format_utc (pf_ExpiresAt p'))"
    by (auto intro: plain_text_nul_free plain_time)
  note R = append_sep_inject_right[of nul_char]
  note free = assms(1-6) key nonce tm
  note free = free[unfolded nul_free_def]
  have 1: "signal_name t = signal_name t'" and
    "(((((callID @ nul_char # from) @ nul_char # to) @ nul_char # pf_PublicKey p) @ nul_char #
       format_utc (pf_ExpiresAt p)) @ nul_char # pf_Nonce p) =
     (((((callID' @ nul_char # from') @ nul_char # to') @ nul_char # pf_PublicKey p') @ nul_char #
       format_utc (pf_ExpiresAt p')) @ nul_char # pf_Nonce p')"
    using assms(13) append_sep_inject[OF free(1,2)] unfolding proofBytes_split by auto
  from R[OF free(9,10) this(2)] have 2: "pf_Nonce p = pf_Nonce p'" and
    t: "((((callID @ nul_char # from) @ nul_char # to) @ nul_char # pf_PublicKey p) @ nul_char #
       format_utc (pf_ExpiresAt p)) =
     ((((callID' @ nul_char # from') @ nul_char # to') @ nul_char # pf_PublicKey p') @ nul_char #
       format_utc (pf_ExpiresAt p'))" by blast+
  from R[OF free(11,12) t] have 3: "format_utc (pf_ExpiresAt p) = format_utc (pf_ExpiresAt p')" and
    k: "((callID @ nul_char # from) @ nul_char # to) @ nul_char # pf_PublicKey p =
        ((callID' @ nul_char # from') @ nul_char # to') @ nul_char # pf_PublicKey p'" by blast+
  from R[OF free(7,8) k] have 4: "pf_PublicKey p = pf_PublicKey p'" and
    o: "(callID @ nul_char # from) @ nul_char # to = (callID' @ nul_char # from') @ nul_char # to'" by blast+
  from R[OF free(5,6) o] R[OF free(3,4)] have 5: "to = to'" "from = from'" "callID = callID'" by blast+
  have "pf_ExpiresAt p = pf_ExpiresAt p'"
    using 3 assms(11,12) by (intro format_utc_inj) auto
  with 1 2 4 5 show ?thesis by blast
qed

subsection \<open>Signing and verifying\<close>

lemma DecodePublicKey_Encode: "length key = 32 \<Longrightarrow> DecodePublicKey (EncodePublicKey key) = Some key"
  by (simp add: DecodePublicKey_def EncodePublicKey_def base64_roundtrip)

lemma plain_base64: "plain_text (base64_url_encode s)"
proof -
  have "list_all (\<lambda>c. 0x20 \<le> code c \<and> code c < 0x80 \<and> c \<noteq> CHR 0x22 \<and> c \<noteq> CHR 0x5C) base64_url_alphabet"
    by code_simp
  then show ?thesis using set_base64_encode[of s] by (auto simp: plain_text_def list_all_iff)
qed

definition proof_members :: "identity_proof \<Rightarrow> (string \<times> string \<times> json) list" where
  "proof_members p = [string_member ''public_key'' (pf_PublicKey p),
     string_member ''expires_at'' (format_utc (pf_ExpiresAt p)),
     string_member ''nonce'' (pf_Nonce p), string_member ''signature'' (pf_Signature p)]"

definition proof_plain :: "identity_proof \<Rightarrow> bool" where
  "proof_plain p \<longleftrightarrow> plain_text (pf_PublicKey p) \<and> plain_text (pf_Nonce p) \<and> plain_text (pf_Signature p) \<and>
     year_of (pf_ExpiresAt p) \<in> {0..9999}"

lemma proof_keys_plain:
  "plain_text ''public_key''" "plain_text ''expires_at''" "plain_text ''nonce''" "plain_text ''signature''"
  by code_simp+

lemma reads_marshal_proof:
  assumes "proof_plain p" "d < max_nesting"
  shows "reads d (marshal_proof p) (JObject (proof_members p))"
proof -
  have "marshal_proof p = json_object (texts (proof_members p))"
    by (simp add: marshal_proof_def proof_members_def)
  moreover have "\<forall>(k, t, v) \<in> set (proof_members p). plain_text k \<and> reads (Suc d) t v"
    using assms(1) proof_keys_plain
    by (simp add: proof_members_def string_member_def reads_string proof_plain_def plain_time)
  ultimately show ?thesis using assms(2) reads_object[of "proof_members p" d] by (simp add: proof_members_def)
qed

lemma store_proof_members:
  assumes "proof_plain p"
  shows "store_members store_proof proof_fields strict (proof_members p) empty_proof = Some p"
  using assms proof_keys_plain parse_format_utc[of "pf_ExpiresAt p"]
  by (simp add: proof_members_def string_member_def field_for_member proof_fields_def store_proof_def
      empty_proof_def proof_plain_def)

lemma parse_marshal_proof: "proof_plain p \<Longrightarrow> parse_json (marshal_proof p) = Some (JObject (proof_members p), [])"
  using reads_marshal_proof[of p 0] parse_written by (simp add: max_nesting_def)

lemma decode_marshal_proof:
  assumes "proof_plain p"
  shows "decode_strict (store_struct store_proof proof_fields) (marshal_proof p) empty_proof = Some p"
  using parse_marshal_proof[OF assms] store_proof_members[OF assms]
  by (simp add: decode_strict_def store_struct_def)

lemma proof_of_marshal_proof:
  assumes "proof_plain p"
  shows "proof_of (marshal_proof p) = Some p"
proof -
  have "\<exists>body. marshal_proof p = CHR ''{'' # body" by (simp add: marshal_proof_def json_object_def)
  moreover have "reads 0 (marshal_proof p) (JObject (proof_members p))"
    using reads_marshal_proof[OF assms, of 0] by (simp add: max_nesting_def)
  ultimately show ?thesis
    using store_proof_members[OF assms] by (simp add: proof_of_def required_read store_struct_def)
qed

lemma sign_verify:
  assumes "crypto_laws cr" "length seed = 32" "validUUID nonce"
    "Sign cr nonce (Generate cr seed) (sm_type m) (sm_call_id m) (sm_from m) (sm_to m) t0 = Some p"
    "sm_payload m = marshal_proof p" "AddressMatchesKey cr (sm_from m) (ed25519_public cr seed)"
    "t0 - minute \<le> now" "now \<le> t0 + 2 * minute"
    "t0 + 2 * minute \<noteq> 0" "year_of (t0 + 2 * minute) \<in> {0..9999}"
  shows "Verify cr m now = Inr (p, ed25519_public cr seed, Fingerprint cr (ed25519_public cr seed)) \<and>
    proof_of (sm_payload m) = Some p \<and> proof_shape p"
proof -
  define pub where "pub = ed25519_public cr seed"
  have pub: "length pub = 32" and sig: "\<And>x. length (ed25519_sign cr (seed @ pub) x) = 64"
      "\<And>x. ed25519_verify cr pub x (ed25519_sign cr (seed @ pub) x)"
    using assms(1,2) by (auto simp: crypto_laws_def pub_def)
  define q where "q = \<lparr>pf_PublicKey = EncodePublicKey pub, pf_ExpiresAt = t0 + 2 * minute,
      pf_Nonce = nonce, pf_Signature = []\<rparr>"
  define bytes where "bytes = proofBytes (sm_type m) (sm_call_id m) (sm_from m) (sm_to m) q"
  have p: "p = q\<lparr>pf_Signature := base64_url_encode (ed25519_sign cr (seed @ pub) bytes)\<rparr>"
    using assms(2,4) pub
    by (simp add: Sign_def Generate_def validateIdentity_def pub_def[symmetric] q_def bytes_def proofLifetime_def Let_def)
  have same: "proofBytes (sm_type m) (sm_call_id m) (sm_from m) (sm_to m) p = bytes"
    by (simp add: bytes_def p proofBytes_def)
  have plain: "proof_plain p"
    using assms(3,10) by (simp add: proof_plain_def p q_def EncodePublicKey_def plain_base64 plain_uuid plain_char_text)
  have lens: "length (pf_PublicKey p) = 43" "length (pf_Signature p) = 86"
    using pub sig by (simp_all add: p q_def EncodePublicKey_def length_base64_encode)
  have shape: "proof_shape p"
    using assms(3,9) lens by (simp add: proof_shape_def p q_def is_zero_def)
  have win: "\<not> (pf_ExpiresAt p < now \<or> now + (proofLifetime + minute) < pf_ExpiresAt p)"
    using assms(7,8) by (simp add: p q_def proofLifetime_def)
  have key: "DecodePublicKey (pf_PublicKey p) = Some pub"
    using pub by (simp add: p q_def DecodePublicKey_Encode)
  have dec: "base64_url_decode (pf_Signature p) = Some (ed25519_sign cr (seed @ pub) bytes)"
    by (simp add: p base64_roundtrip)
  have "Verify cr m now = Inr (p, pub, Fingerprint cr pub)"
    using decode_marshal_proof[OF plain] win key dec assms(6) sig same
    by (simp add: Verify_def assms(5) Let_def pub_def[symmetric])
  with shape proof_of_marshal_proof[OF plain] assms(5) show ?thesis by (simp add: pub_def)
qed

text \<open>
  C18: A proof signed by a generated identity verifies, for one minute before and two
  minutes after signing, on the message it was signed for, and yields the signer's key and
  fingerprint; the payload also passes the message decoder's check.
\<close>

theorem signed_proof_verifies:
  assumes "crypto_laws cr" "length seed = 32" "validUUID nonce"
    "Sign cr nonce (Generate cr seed) (sm_type m) (sm_call_id m) (sm_from m) (sm_to m) t0 = Some p"
    "sm_payload m = marshal_proof p" "AddressMatchesKey cr (sm_from m) (ed25519_public cr seed)"
    "t0 - minute \<le> now" "now \<le> t0 + 2 * minute"
    "t0 + 2 * minute \<noteq> 0" "year_of (t0 + 2 * minute) \<in> {0..9999}"
  shows "Verify cr m now = Inr (p, ed25519_public cr seed, Fingerprint cr (ed25519_public cr seed)) \<and>
    proof_of (sm_payload m) = Some p \<and> proof_shape p"
  using assms by (rule sign_verify)

text \<open>
  C19: Whatever verifies was signed, under the key the sender's address is derived from, over
  exactly this message's type, call id, sender and recipient, and has between zero and
  three minutes left.
\<close>

theorem verified_is_signed:
  assumes "crypto_laws cr" "Verify cr m now = Inr (p, pk, fp)"
  shows "fp = Fingerprint cr pk \<and> length pk = 32 \<and> ValidAddress (sm_from m) \<and>
    suffix_of (sm_from m) = take 12 fp \<and> now \<le> pf_ExpiresAt p \<and> pf_ExpiresAt p \<le> now + 3 * minute \<and>
    (\<exists>sig. base64_url_decode (pf_Signature p) = Some sig \<and> length sig = 64 \<and>
       ed25519_verify cr pk (proofBytes (sm_type m) (sm_call_id m) (sm_from m) (sm_to m) p) sig)"
proof -
  from assms(2) have pk: "DecodePublicKey (pf_PublicKey p) = Some pk" and "fp = Fingerprint cr pk"
    and addr: "AddressMatchesKey cr (sm_from m) pk"
    and win: "now \<le> pf_ExpiresAt p" "pf_ExpiresAt p \<le> now + (proofLifetime + minute)"
    and sig: "\<exists>sig. base64_url_decode (pf_Signature p) = Some sig \<and> length sig = 64 \<and>
       ed25519_verify cr pk (proofBytes (sm_type m) (sm_call_id m) (sm_from m) (sm_to m) p) sig"
    unfolding Verify_def by (auto simp: Let_def split: option.splits if_splits)
  moreover have "length pk = 32" using pk by (auto simp: DecodePublicKey_def split: option.splits if_splits)
  moreover have "proofLifetime + minute = 3 * minute" by (simp add: proofLifetime_def)
  ultimately show ?thesis using AddressMatchesKey_iff[OF assms(1)] by simp
qed

subsection \<open>Saving and loading\<close>

lemma load_stored:
  assumes "validateIdentity (Some i)" "fs path = Some \<lparr>f_perm = 0x180, f_data = stored_identity i\<rparr>"
  shows "LoadFile path fs = Inr i"
proof -
  let ?pk = "EncodePublicKey (PublicKey i)" and ?sk = "base64_url_encode (PrivateKey i)"
  have i: "length (PublicKey i) = 32" "length (PrivateKey i) = 64" "drop 32 (PrivateKey i) = PublicKey i"
    using assms(1) by (auto simp: validateIdentity_def)
  have two: "itoa identityVersion = ''2''" "parse_int ''2'' = Some 2" by code_simp+
  have names: "plain_text ''version''" "plain_text ''public_key''" "plain_text ''private_key''"
    "is_digit CHR ''2''" by code_simp+
  have plain: "plain_text ?pk" "plain_text ?sk" by (simp_all add: EncodePublicKey_def plain_base64)
  define ms where "ms = [(''version'', ''2'', JNumber ''2''), string_member ''public_key'' ?pk,
       string_member ''private_key'' ?sk]"
  have "\<forall>(k, t, v) \<in> set ms. plain_text k \<and> reads (Suc 0) t v"
    using names plain by (simp add: ms_def string_member_def reads_string reads_digit)
  then have "reads 0 (json_indented (texts ms)) (JObject ms)"
    by (intro reads_object) (simp_all add: ms_def max_nesting_def)
  moreover have "stored_identity i = json_indented (texts ms)"
    by (simp add: stored_identity_def two ms_def)
  ultimately have "parse_json (stored_identity i) = Some (JObject ms, [])" by (simp add: parse_written)
  then have "decode_strict (store_struct store_stored [''version'', ''public_key'', ''private_key''])
      (stored_identity i) \<lparr>st_Version = 0, st_PublicKey = [], st_PrivateKey = []\<rparr> =
      Some \<lparr>st_Version = 2, st_PublicKey = ?pk, st_PrivateKey = ?sk\<rparr>"
    using names plain two
    by (simp add: decode_strict_def store_struct_def ms_def string_member_def field_for_member store_stored_def)
  then show ?thesis
    using i by (simp add: LoadFile_def assms(2) identityVersion_def DecodePublicKey_Encode base64_roundtrip)
qed

text \<open>
  A save changes no other file and never touches a file that is already there; one that
  reports success leaves exactly the identity to be loaded again.
\<close>

theorem save_then_load:
  assumes "SaveNewFile io path (Some i) fs = (err, fs')"
  shows "(\<forall>q. q \<noteq> path \<longrightarrow> fs' q = fs q) \<and> (fs path \<noteq> None \<longrightarrow> fs' = fs \<and> err \<noteq> None) \<and>
     (err = None \<longrightarrow> LoadFile path fs' = Inr i)"
proof -
  have "LoadFile path fs' = Inr i" if "err = None"
  proof (rule load_stored)
    show "validateIdentity (Some i)" "fs' path = Some \<lparr>f_perm = 0x180, f_data = stored_identity i\<rparr>"
      using assms that by (auto simp: SaveNewFile_def Let_def split: if_splits)
  qed
  moreover have "\<forall>q. q \<noteq> path \<longrightarrow> fs' q = fs q" "fs path \<noteq> None \<longrightarrow> fs' = fs \<and> err \<noteq> None"
    using assms by (auto simp: SaveNewFile_def Let_def split: if_splits)
  ultimately show ?thesis by blast
qed

subsection \<open>A concrete instance\<close>

text \<open>Simple functions of the documented shape, to evaluate the properties at.\<close>

definition demo_crypto :: crypto where
  "demo_crypto = \<lparr>
     sha256 = (\<lambda>x. take 32 (x @ replicate 32 CHR ''p'')),
     ed25519_public = rev,
     ed25519_sign = (\<lambda>sk m. take 64 (drop 32 sk @ m @ replicate 64 CHR ''z'')),
     ed25519_verify = (\<lambda>pk m s. s = take 64 (pk @ m @ replicate 64 CHR ''z''))\<rparr>"

definition demo_seed :: string where "demo_seed = ''0123456789abcdef0123456789ABCDEF''"
definition demo_identity :: identity where "demo_identity = Generate demo_crypto demo_seed"
definition demo_caller :: string where
  "demo_caller = the (CanonicalAddress demo_crypto ''carol'' (PublicKey demo_identity))"
definition demo_proof :: identity_proof where
  "demo_proof = the (Sign demo_crypto demo_uuid demo_identity SignalCallInvite demo_uuid demo_caller demo_bob demo_now)"

definition demo_invite :: signal_message where
  "demo_invite = \<lparr>sm_version = 2, sm_id = demo_uuid, sm_type = SignalCallInvite, sm_timestamp = demo_now,
     sm_call_id = demo_uuid, sm_from = demo_caller, sm_to = demo_bob, sm_payload = marshal_proof demo_proof\<rparr>"

lemma demo_crypto_laws: "crypto_laws demo_crypto"
proof -
  have "length (take 32 (x @ replicate 32 c)) = 32" "length (take 64 (x @ y @ replicate 64 c)) = 64"
    for x y :: string and c by (simp_all add: min_def)
  then show ?thesis by (simp add: crypto_laws_def demo_crypto_def)
qed

lemma demo_public: "PublicKey demo_identity = ed25519_public demo_crypto demo_seed"
  and demo_valid_identity: "validateIdentity (Some demo_identity)"
  by (simp_all add: demo_identity_def Generate_def validateIdentity_def demo_crypto_def demo_seed_def)

lemma demo_name: "ValidBaseName ''carol''"
  by code_simp

lemma demo_caller_facts:
  "ValidAddress demo_caller" "AddressMatchesKey demo_crypto demo_caller (PublicKey demo_identity)"
  using canonical_facts[OF demo_crypto_laws demo_name, of "PublicKey demo_identity"]
  by (auto simp: demo_caller_def)

lemma demo_signed:
  "Sign demo_crypto demo_uuid demo_identity SignalCallInvite demo_uuid demo_caller demo_bob demo_now = Some demo_proof"
  using demo_valid_identity by (simp add: demo_proof_def Sign_def)

lemma Sign_fields:
  assumes "Sign cr nonce i t callID from to now = Some p"
  shows "pf_Nonce p = nonce" "pf_ExpiresAt p = now + proofLifetime" "pf_PublicKey p = EncodePublicKey (PublicKey i)"
  using assms by (auto simp: Sign_def Let_def split: if_splits)

lemmas demo_proof_facts = Sign_fields[OF demo_signed]

lemma demo_years:
  "year_of (demo_now + proofLifetime) \<in> {0..9999}" "demo_now + 2 * minute \<noteq> 0"
proof -
  have "0 \<le> year_of (demo_now + proofLifetime) \<and> year_of (demo_now + proofLifetime) \<le> 9999" by code_simp
  then show "year_of (demo_now + proofLifetime) \<in> {0..9999}" by simp
qed code_simp

theorem canonical_address_witness:
  "\<exists>a. CanonicalAddress demo_crypto ''carol'' (PublicKey demo_identity) = Some a \<and> ValidAddress a"
  using canonical_address[OF demo_crypto_laws demo_name] by blast

theorem proof_bytes_injective_witness:
  "signal_name SignalCallInvite = signal_name SignalCallInvite \<and> pf_Nonce demo_proof = demo_uuid"
proof -
  have facts: "nul_free (signal_name SignalCallInvite)" "nul_free demo_bob" by code_simp+
  have caller: "nul_free demo_caller"
    using demo_caller_facts(1) by (intro plain_text_nul_free plain_char_text plain_address)
  have key: "DecodePublicKey (pf_PublicKey demo_proof) \<noteq> None"
    using demo_valid_identity by (simp add: demo_proof_facts DecodePublicKey_Encode validateIdentity_def)
  have rest: "validUUID (pf_Nonce demo_proof)" "year_of (pf_ExpiresAt demo_proof) \<in> {0..9999}"
    using demo_years by (simp_all add: demo_proof_facts)
  from proof_bytes_injective[OF facts(1) facts(1) caller caller facts(2) facts(2) key key
      rest(1) rest(1) rest(2) rest(2), of demo_uuid demo_uuid] show ?thesis by (simp add: demo_proof_facts)
qed

lemma demo_invite_fields:
  "sm_type demo_invite = SignalCallInvite" "sm_call_id demo_invite = demo_uuid" "sm_from demo_invite = demo_caller"
  "sm_to demo_invite = demo_bob" "sm_payload demo_invite = marshal_proof demo_proof"
  by (simp_all add: demo_invite_def)

lemma demo_sign_premises:
  "length demo_seed = 32" "validUUID demo_uuid"
  "Sign demo_crypto demo_uuid (Generate demo_crypto demo_seed) (sm_type demo_invite)
      (sm_call_id demo_invite) (sm_from demo_invite) (sm_to demo_invite) demo_now = Some demo_proof"
  "sm_payload demo_invite = marshal_proof demo_proof"
  "AddressMatchesKey demo_crypto (sm_from demo_invite) (ed25519_public demo_crypto demo_seed)"
  "demo_now + 2 * minute \<noteq> 0" "year_of (demo_now + 2 * minute) \<in> {0..9999}"
  using demo_signed demo_caller_facts(2) demo_public demo_years
  by (simp_all add: demo_seed_def demo_invite_fields demo_identity_def proofLifetime_def)

theorem signed_proof_verifies_witness:
  "Verify demo_crypto demo_invite (demo_now + minute) =
     Inr (demo_proof, PublicKey demo_identity, Fingerprint demo_crypto (PublicKey demo_identity)) \<and>
   proof_shape demo_proof"
proof -
  have "demo_now - minute \<le> demo_now + minute" "demo_now + minute \<le> demo_now + 2 * minute"
    by (simp_all add: duration_defs)
  from signed_proof_verifies[OF demo_crypto_laws demo_sign_premises(1-5) this demo_sign_premises(6,7)]
  show ?thesis unfolding demo_public by blast
qed

lemma demo_invite_verified:
  "Verify demo_crypto demo_invite demo_now =
     Inr (demo_proof, PublicKey demo_identity, Fingerprint demo_crypto (PublicKey demo_identity))"
proof -
  have "demo_now - minute \<le> demo_now" "demo_now \<le> demo_now + 2 * minute"
    by (simp_all add: duration_defs)
  from sign_verify[OF demo_crypto_laws demo_sign_premises(1-5) this demo_sign_premises(6,7)]
  show ?thesis unfolding demo_public by blast
qed

theorem verified_is_signed_witness:
  "ValidAddress demo_caller \<and> demo_now \<le> pf_ExpiresAt demo_proof"
  using verified_is_signed[OF demo_crypto_laws demo_invite_verified] by (simp add: demo_invite_fields)

theorem save_then_load_witness:
  "LoadFile ''identity.json'' (snd (SaveNewFile no_faults ''identity.json'' (Some demo_identity) Map.empty)) =
     Inr demo_identity"
proof -
  have "fst (SaveNewFile no_faults ''identity.json'' (Some demo_identity) Map.empty) = None"
    using demo_valid_identity by (simp add: SaveNewFile_def no_faults_def Let_def)
  then show ?thesis
    using save_then_load[of no_faults "''identity.json''" demo_identity Map.empty] by (metis prod.collapse)
qed

end
