(* ===== verification/Trust.thy ===== *)
theory Trust
  imports Identity "HOL-Library.Finite_Map" "HOL-Library.Char_ord" "HOL-Library.List_Lexorder"
begin

text \<open>
  The trust store, \<open>internal/identity/trust.go\<close>: records keyed by fingerprint, the file they
  are saved to, and the operations of \<open>TrustStore\<close>.  The file is modelled by what its JSON
  decodes to; a save replaces it as a whole (\<open>os.Rename\<close> of a temporary file) or, when any of
  its steps fails, leaves it alone.  \<open>sort.Strings\<close> makes the result of \<open>Observe\<close> independent
  of the map's iteration order, so the fingerprints are taken in sorted order.
\<close>

record trust_alias =
  al_ServerURL :: string
  al_Address :: string

record trust_record =
  tr_Fingerprint :: string
  tr_Trusted :: bool
  tr_Blocked :: bool
  tr_PublicKey :: string
  tr_Aliases :: "trust_alias list"

type_synonym trust_records = "(string, trust_record) fmap"

definition no_record :: trust_record where
  "no_record = \<lparr>tr_Fingerprint = [], tr_Trusted = False, tr_Blocked = False, tr_PublicKey = [], tr_Aliases = []\<rparr>"

text \<open>\<open>s.records[fingerprint]\<close>, the zero record when absent.\<close>

definition record_of :: "trust_records \<Rightarrow> string \<Rightarrow> trust_record" where
  "record_of rs fp = (case fmlookup rs fp of None \<Rightarrow> no_record | Some r \<Rightarrow> r)"

subsection \<open>The file\<close>

datatype trust_content = Malformed | Saved int "trust_records option"

record trust_file =
  tf_perm :: nat
  tf_content :: trust_content

definition trustVersion :: int where "trustVersion = 2"

datatype trust_error = ErrAmbiguousFingerprint | ErrUnknownFingerprint | BadFingerprintText
  | KeyInconsistency | TrustIO | TrustPermissions | TrustDecode | TrustLegacy

definition OpenTrustStoreFile :: "trust_file option \<Rightarrow> trust_error + trust_records" where
  "OpenTrustStoreFile f = (case f of None \<Rightarrow> Inr fmempty | Some f \<Rightarrow>
     if tf_perm f mod 64 \<noteq> 0 then Inl TrustPermissions
     else case tf_content f of
         Malformed \<Rightarrow> Inl TrustDecode
       | Saved version records \<Rightarrow>
           if version \<noteq> trustVersion then Inl TrustLegacy
           else case records of None \<Rightarrow> Inl TrustLegacy | Some rs \<Rightarrow> Inr rs)"

text \<open>\<open>saveLocked\<close>: \<open>fails\<close> tells whether one of its system calls does.\<close>

definition saveLocked :: "bool \<Rightarrow> trust_records \<Rightarrow> trust_file option \<Rightarrow> trust_error option \<times> trust_file option" where
  "saveLocked fails rs f =
    (if fails then (Some TrustIO, f)
     else (None, Some \<lparr>tf_perm = 0x180, tf_content = Saved trustVersion (Some rs)\<rparr>))"

subsection \<open>Operations\<close>

fun containsAlias :: "trust_alias list \<Rightarrow> trust_alias \<Rightarrow> bool" where
  "containsAlias [] wanted = False"
| "containsAlias (v # vs) wanted = (v = wanted \<or> containsAlias vs wanted)"

definition validFingerprintText :: "string \<Rightarrow> bool" where
  "validFingerprintText value \<longleftrightarrow> \<not> (length value = 0 \<or> length value > 52) \<and>
     list_all (\<lambda>c. \<not> ((code c < 97 \<or> code c > 122) \<and> (code c < 50 \<or> code c > 55))) value"

definition observed_record :: "crypto \<Rightarrow> string \<Rightarrow> string \<Rightarrow> string \<Rightarrow> trust_record \<Rightarrow> trust_record" where
  "observed_record cr serverURL address publicKey r = (
     let a = \<lparr>al_ServerURL = serverURL, al_Address = address\<rparr> in
     r\<lparr>tr_Fingerprint := Fingerprint cr publicKey, tr_PublicKey := EncodePublicKey publicKey,
       tr_Aliases := (if containsAlias (tr_Aliases r) a then tr_Aliases r else tr_Aliases r @ [a])\<rparr>)"

definition reused_by :: "string \<Rightarrow> trust_alias \<Rightarrow> trust_records \<Rightarrow> string list" where
  "reused_by fp a rs = sorted_list_of_fset
     (ffilter (\<lambda>k. k \<noteq> fp \<and> containsAlias (tr_Aliases (record_of rs k)) a) (fmdom rs))"

definition Observe ::
  "crypto \<Rightarrow> bool \<Rightarrow> string \<Rightarrow> string \<Rightarrow> string \<Rightarrow> trust_records \<Rightarrow> trust_file option \<Rightarrow>
   (trust_error + trust_record \<times> string list \<times> trust_error option) \<times> trust_records \<times> trust_file option" where
  "Observe cr fails serverURL address publicKey rs f = (
     let fp = Fingerprint cr publicKey; r = record_of rs fp in
     if tr_PublicKey r \<noteq> [] \<and> tr_PublicKey r \<noteq> EncodePublicKey publicKey
     then (Inl KeyInconsistency, rs, f)
     else let r' = observed_record cr serverURL address publicKey r;
              reused = reused_by fp \<lparr>al_ServerURL = serverURL, al_Address = address\<rparr> rs;
              rs' = fmupd fp r' rs;
              (err, f') = saveLocked fails rs' f
       in (Inr (r', reused, err), rs', f'))"

definition Resolve :: "string \<Rightarrow> trust_records \<Rightarrow> trust_error + string" where
  "Resolve text rs = (
     let value = to_lower (trim_space text) in
     if \<not> validFingerprintText value then Inl BadFingerprintText
     else if length value = 52 then Inr value
     else case sorted_list_of_fset (ffilter (\<lambda>k. prefix value k) (fmdom rs)) of
         [] \<Rightarrow> Inl ErrUnknownFingerprint
       | [fp] \<Rightarrow> Inr fp
       | _ \<Rightarrow> Inl ErrAmbiguousFingerprint)"

definition SetTrusted ::
  "bool \<Rightarrow> string \<Rightarrow> bool \<Rightarrow> trust_records \<Rightarrow> trust_file option \<Rightarrow>
   (trust_error + trust_record \<times> trust_error option) \<times> trust_records \<times> trust_file option" where
  "SetTrusted fails value trusted rs f = (case Resolve value rs of
      Inl e \<Rightarrow> (Inl e, rs, f)
    | Inr fp \<Rightarrow>
        let r = (record_of rs fp)\<lparr>tr_Fingerprint := fp, tr_Trusted := trusted\<rparr>;
            rs' = fmupd fp r rs; (err, f') = saveLocked fails rs' f
        in (Inr (r, err), rs', f'))"

definition SetBlockedFingerprint ::
  "bool \<Rightarrow> string \<Rightarrow> bool \<Rightarrow> trust_records \<Rightarrow> trust_file option \<Rightarrow>
   (trust_error + trust_record \<times> trust_error option) \<times> trust_records \<times> trust_file option" where
  "SetBlockedFingerprint fails value blocked rs f = (case Resolve value rs of
      Inl e \<Rightarrow> (Inl e, rs, f)
    | Inr fp \<Rightarrow>
        let r = (record_of rs fp)\<lparr>tr_Fingerprint := fp, tr_Blocked := blocked\<rparr>;
            rs' = fmupd fp r rs; (err, f') = saveLocked fails rs' f
        in (Inr (r, err), rs', f'))"

definition Record :: "string \<Rightarrow> trust_records \<Rightarrow> trust_record \<times> bool" where
  "Record fp rs = (record_of rs fp, fmlookup rs fp \<noteq> None)"

subsection \<open>What a run of operations decides\<close>

text \<open>The calls a program makes on a store; a resolved fingerprint is recorded by the decision.\<close>

datatype trust_call = ObserveKey string string string | Trust string bool | Block string bool

definition trust_step :: "crypto \<Rightarrow> bool \<Rightarrow> trust_call \<Rightarrow> trust_records \<times> trust_file option \<Rightarrow> trust_records \<times> trust_file option" where
  "trust_step cr fails c s = (case c of
      ObserveKey url a key \<Rightarrow> snd (Observe cr fails url a key (fst s) (snd s))
    | Trust v b \<Rightarrow> snd (SetTrusted fails v b (fst s) (snd s))
    | Block v b \<Rightarrow> snd (SetBlockedFingerprint fails v b (fst s) (snd s)))"

lemma record_of_upd [simp]: "record_of (fmupd k r rs) q = (if q = k then r else record_of rs q)"
  by (simp add: record_of_def)

lemma containsAlias_iff [simp]: "containsAlias vs a \<longleftrightarrow> a \<in> set vs"
  by (induction vs) auto

lemma set_reused:
  "set (reused_by fp a rs) = {k. k \<in> fmdom' rs \<and> k \<noteq> fp \<and> a \<in> set (tr_Aliases (record_of rs k))}"
  by (auto simp: reused_by_def sorted_list_of_fset.rep_eq fmdom'_alt_def)

lemma Observe_cases:
  "Observe cr fails url a key rs f = (res, rs', f') \<Longrightarrow>
     (res = Inl KeyInconsistency \<and> rs' = rs \<and> f' = f) \<or>
     (\<exists>err. let r' = observed_record cr url a key (record_of rs (Fingerprint cr key)) in
        res = Inr (r', reused_by (Fingerprint cr key) \<lparr>al_ServerURL = url, al_Address = a\<rparr> rs, err) \<and>
        rs' = fmupd (Fingerprint cr key) r' rs)"
  by (auto simp: Observe_def Let_def split: if_splits prod.splits)

definition flags :: "trust_records \<Rightarrow> string \<Rightarrow> bool \<times> bool" where
  "flags rs fp = (tr_Trusted (record_of rs fp), tr_Blocked (record_of rs fp))"

text \<open>The abstract store is what the user has decided on each fingerprint; observing decides nothing.\<close>

definition decide :: "trust_call \<Rightarrow> trust_records \<Rightarrow> (string \<Rightarrow> bool \<times> bool) \<Rightarrow> (string \<Rightarrow> bool \<times> bool)" where
  "decide c rs d = (case c of
      ObserveKey url a key \<Rightarrow> d
    | Trust v b \<Rightarrow> (case Resolve v rs of Inl e \<Rightarrow> d | Inr fp \<Rightarrow> d(fp := (b, snd (d fp))))
    | Block v b \<Rightarrow> (case Resolve v rs of Inl e \<Rightarrow> d | Inr fp \<Rightarrow> d(fp := (fst (d fp), b))))"

text \<open>
  C22: Only \<open>trust\<close>, \<open>untrust\<close>, \<open>block\<close> and \<open>unblock\<close> change a decision, each for the one
  fingerprint its text resolves to; observing a key, known or new, decides nothing, and no
  failed save undoes a decision in memory.
\<close>

theorem trust_step_refines:
  "flags (fst (trust_step cr fails c s)) = decide c (fst s) (flags (fst s))"
proof (cases c)
  case (ObserveKey url a key)
  obtain res rs' f' where o: "Observe cr fails url a key (fst s) (snd s) = (res, rs', f')" by (metis prod_cases3)
  show ?thesis using Observe_cases[OF o] ObserveKey o
    by (auto simp: trust_step_def decide_def flags_def observed_record_def Let_def)
next
  case (Trust v b)
  then show ?thesis
    by (auto simp: trust_step_def decide_def flags_def SetTrusted_def Let_def split: sum.splits prod.splits)
next
  case (Block v b)
  then show ?thesis
    by (auto simp: trust_step_def decide_def flags_def SetBlockedFingerprint_def Let_def split: sum.splits prod.splits)
qed

subsection \<open>Records are bound to their keys\<close>

definition record_ok :: "crypto \<Rightarrow> string \<Rightarrow> trust_record \<Rightarrow> bool" where
  "record_ok cr fp r \<longleftrightarrow> tr_Fingerprint r = fp \<and> distinct (tr_Aliases r) \<and>
     (tr_PublicKey r = [] \<and> tr_Aliases r = [] \<or>
      (\<exists>key. tr_PublicKey r = EncodePublicKey key \<and> Fingerprint cr key = fp \<and> tr_Aliases r \<noteq> []))"

definition trust_inv :: "crypto \<Rightarrow> trust_records \<Rightarrow> bool" where
  "trust_inv cr rs \<longleftrightarrow> (\<forall>fp r. fmlookup rs fp = Some r \<longrightarrow> record_ok cr fp r)"

lemma trust_inv_upd [inv_intros]:
  "trust_inv cr rs \<Longrightarrow> record_ok cr fp r \<Longrightarrow> trust_inv cr (fmupd fp r rs)"
  by (simp add: trust_inv_def)

lemma record_of_ok: "trust_inv cr rs \<Longrightarrow> record_ok cr fp ((record_of rs fp)\<lparr>tr_Fingerprint := fp\<rparr>)"
proof (cases "fmlookup rs fp")
  case (Some r)
  then show "trust_inv cr rs \<Longrightarrow> ?thesis" by (simp add: trust_inv_def record_ok_def record_of_def)
qed (simp add: record_ok_def record_of_def no_record_def)

lemma record_ok_flags [inv_intros]:
  "record_ok cr fp (r\<lparr>tr_Fingerprint := fp\<rparr>) \<Longrightarrow> record_ok cr fp (r\<lparr>tr_Fingerprint := fp, tr_Trusted := b\<rparr>)"
  "record_ok cr fp (r\<lparr>tr_Fingerprint := fp\<rparr>) \<Longrightarrow> record_ok cr fp (r\<lparr>tr_Fingerprint := fp, tr_Blocked := b\<rparr>)"
  by (simp_all add: record_ok_def)

lemma record_ok_observed [inv_intros]:
  "record_ok cr (Fingerprint cr key) (r\<lparr>tr_Fingerprint := Fingerprint cr key\<rparr>) \<Longrightarrow>
   record_ok cr (Fingerprint cr key) (observed_record cr url a key r)"
  by (auto simp: record_ok_def observed_record_def Let_def)

text \<open>
  Every record stays bound to one key: whatever is called, a record's key, once
  observed, has the fingerprint the record is filed under, and no alias is listed twice.
\<close>

theorem trust_step_invariant:
  assumes "trust_inv cr (fst s)"
  shows "trust_inv cr (fst (trust_step cr fails c s))"
proof (cases c)
  case (ObserveKey url a key)
  obtain res rs' f' where o: "Observe cr fails url a key (fst s) (snd s) = (res, rs', f')" by (metis prod_cases3)
  have "trust_inv cr (fmupd (Fingerprint cr key) (observed_record cr url a key (record_of (fst s) (Fingerprint cr key))) (fst s))"
    using assms record_of_ok by (auto intro!: inv_intros)
  then show ?thesis using Observe_cases[OF o] ObserveKey o assms by (auto simp: trust_step_def Let_def)
next
  case (Trust v b)
  then show ?thesis using assms record_of_ok
    by (auto simp: trust_step_def SetTrusted_def Let_def split: sum.splits prod.splits intro!: inv_intros)
next
  case (Block v b)
  then show ?thesis using assms record_of_ok
    by (auto simp: trust_step_def SetBlockedFingerprint_def Let_def split: sum.splits prod.splits intro!: inv_intros)
qed

subsection \<open>Resolving a prefix\<close>

definition matching :: "string \<Rightarrow> trust_records \<Rightarrow> string set" where
  "matching value rs = {fp. fmlookup rs fp \<noteq> None \<and> prefix value fp}"

lemma matching_list:
  "set (sorted_list_of_fset (ffilter (\<lambda>k. prefix value k) (fmdom rs))) = matching value rs"
  "distinct (sorted_list_of_fset (ffilter (\<lambda>k. prefix value k) (fmdom rs)))"
  by (auto simp: sorted_list_of_fset.rep_eq matching_def fmlookup_dom_iff)

text \<open>
  A fingerprint text resolves to itself when it is complete and otherwise to the one
  recorded fingerprint it is a prefix of; it is unknown when there is none and ambiguous
  when there are several.
\<close>

theorem resolve_spec:
  "Resolve text rs = (
     let value = to_lower (trim_space text) in
     if \<not> validFingerprintText value then Inl BadFingerprintText
     else if length value = 52 then Inr value
     else if matching value rs = {} then Inl ErrUnknownFingerprint
     else if is_singleton (matching value rs) then Inr (the_elem (matching value rs))
     else Inl ErrAmbiguousFingerprint)"
proof -
  define wanted where "wanted = to_lower (trim_space text)"
  define found where "found = sorted_list_of_fset (ffilter (\<lambda>k. prefix wanted k) (fmdom rs))"
  have found: "set found = matching wanted rs" "distinct found"
    unfolding found_def by (rule matching_list)+
  have "(case found of [] \<Rightarrow> Inl ErrUnknownFingerprint | [fp] \<Rightarrow> Inr fp | _ \<Rightarrow> Inl ErrAmbiguousFingerprint) =
     (if matching wanted rs = {} then Inl ErrUnknownFingerprint
      else if is_singleton (matching wanted rs) then Inr (the_elem (matching wanted rs))
      else Inl ErrAmbiguousFingerprint)"
  proof (cases found rule: remdups_adj.cases)
    case 1
    with found show ?thesis by simp
  next
    case (2 fp)
    then have "matching wanted rs = {fp}" using found by simp
    with 2 show ?thesis by (simp add: is_singleton_def)
  next
    case (3 a b r)
    with found(2) have "a \<in> set found" "b \<in> set found" "a \<noteq> b" by simp_all
    then have "a \<in> matching wanted rs" "b \<in> matching wanted rs" "a \<noteq> b" unfolding found(1) .
    then have "matching wanted rs \<noteq> {}" "\<not> is_singleton (matching wanted rs)"
      by (blast, metis is_singletonE singletonD)
    with 3 show ?thesis by simp
  qed
  then show ?thesis by (simp add: Resolve_def Let_def wanted_def found_def)
qed

text \<open>
  Observing reports exactly the other fingerprints that were seen under the same server
  and address, in order and without repetition, and remembers key and alias.
\<close>

theorem observe_reports_reuse:
  assumes "Observe cr fails url a key rs f = (Inr (r, reused, err), rs', f')"
  shows "set reused = {fp. fp \<noteq> Fingerprint cr key \<and>
       \<lparr>al_ServerURL = url, al_Address = a\<rparr> \<in> set (tr_Aliases (record_of rs fp))} \<and>
     sorted reused \<and> distinct reused \<and> record_of rs' (Fingerprint cr key) = r \<and>
     tr_PublicKey r = EncodePublicKey key \<and> \<lparr>al_ServerURL = url, al_Address = a\<rparr> \<in> set (tr_Aliases r) \<and>
     (err = None \<longrightarrow> OpenTrustStoreFile f' = Inr rs')"
proof -
  define al where "al = \<lparr>al_ServerURL = url, al_Address = a\<rparr>"
  have reused: "reused = reused_by (Fingerprint cr key) al rs" and r: "r = observed_record cr url a key (record_of rs (Fingerprint cr key))"
    and rs': "rs' = fmupd (Fingerprint cr key) r rs" and "(err, f') = saveLocked fails rs' f"
    using assms by (auto simp: Observe_def al_def Let_def split: if_splits prod.splits)
  then have "err = None \<longrightarrow> OpenTrustStoreFile f' = Inr rs'"
    by (auto simp: saveLocked_def OpenTrustStoreFile_def trustVersion_def split: if_splits)
  moreover have "al \<in> set (tr_Aliases (record_of rs fp)) \<Longrightarrow> fp \<in> fmdom' rs" for fp
    by (auto simp: record_of_def no_record_def fmlookup_dom'_iff split: option.splits)
  ultimately show ?thesis
    using set_reused[of "Fingerprint cr key" al rs]
    by (auto simp: reused rs' r observed_record_def Let_def al_def[symmetric] reused_by_def sorted_list_of_fset.rep_eq)
qed

text \<open>
  Two processes that share the file lose a decision: after one of them blocks a
  fingerprint and saves, the next successful observation in a process that opened the store
  earlier writes its own copy, and a store opened afterwards no longer has the block.
\<close>

theorem observe_discards_block:
  assumes "SetBlockedFingerprint False v True cli f = (Inr (r, None), cli', f1)" "Resolve v cli = Inr fp"
    "Observe cr False url a key daemon f1 = (Inr (r', reused, None), daemon', f2)"
    "\<not> tr_Blocked (record_of daemon fp)"
  shows "\<exists>before after. OpenTrustStoreFile f1 = Inr before \<and> tr_Blocked (record_of before fp) \<and>
     OpenTrustStoreFile f2 = Inr after \<and> \<not> tr_Blocked (record_of after fp)"
proof (intro exI conjI)
  show "OpenTrustStoreFile f1 = Inr cli'" "tr_Blocked (record_of cli' fp)"
    using assms(1,2)
    by (auto simp: SetBlockedFingerprint_def saveLocked_def OpenTrustStoreFile_def trustVersion_def Let_def)
  show "OpenTrustStoreFile f2 = Inr daemon'" "\<not> tr_Blocked (record_of daemon' fp)"
    using assms(3,4)
    by (auto simp: Observe_def observed_record_def saveLocked_def OpenTrustStoreFile_def trustVersion_def Let_def
        split: if_splits)
qed

subsection \<open>Instances\<close>

definition demo_fp :: string where "demo_fp = replicate 52 CHR ''a''"
definition demo_alias :: trust_alias where "demo_alias = \<lparr>al_ServerURL = ''wss://example'', al_Address = demo_bob\<rparr>"

lemma demo_resolve: "Resolve demo_fp rs = Inr demo_fp"
proof -
  have "to_lower (trim_space demo_fp) = demo_fp" "validFingerprintText demo_fp" "length demo_fp = 52" by code_simp+
  then show ?thesis by (simp add: Resolve_def)
qed

theorem trust_step_invariant_witness:
  "trust_inv demo_crypto (fst (trust_step demo_crypto False (ObserveKey ''wss://example'' demo_bob demo_seed) (fmempty, None)))"
  by (rule trust_step_invariant) (simp add: trust_inv_def)

theorem observe_reports_reuse_witness:
  "\<exists>r err rs' f'. Observe demo_crypto False ''wss://example'' demo_bob demo_seed fmempty None = (Inr (r, [], err), rs', f') \<and>
     tr_PublicKey r = EncodePublicKey demo_seed"
proof -
  obtain r reused err rs' f' where
    o: "Observe demo_crypto False ''wss://example'' demo_bob demo_seed fmempty None = (Inr (r, reused, err), rs', f')"
    by (simp add: Observe_def record_of_def no_record_def saveLocked_def Let_def)
  from observe_reports_reuse[OF o] have "set reused = {}" "tr_PublicKey r = EncodePublicKey demo_seed"
    by (auto simp: record_of_def no_record_def)
  with o show ?thesis by auto
qed

theorem observe_discards_block_witness:
  "\<exists>f1 f2 before after. OpenTrustStoreFile f1 = Inr before \<and> tr_Blocked (record_of before demo_fp) \<and>
     OpenTrustStoreFile f2 = Inr after \<and> \<not> tr_Blocked (record_of after demo_fp)"
proof -
  obtain r cli' f1 where b: "SetBlockedFingerprint False demo_fp True fmempty None = (Inr (r, None), cli', f1)"
    by (simp add: SetBlockedFingerprint_def demo_resolve saveLocked_def Let_def)
  obtain r' reused d' f2 where
    o: "Observe demo_crypto False ''wss://example'' demo_bob demo_seed fmempty f1 = (Inr (r', reused, None), d', f2)"
    by (simp add: Observe_def record_of_def no_record_def saveLocked_def Let_def)
  have "\<not> tr_Blocked (record_of fmempty demo_fp)" by (simp add: record_of_def no_record_def)
  from observe_discards_block[OF b demo_resolve o this] show ?thesis by blast
qed

end
