(* ===== verification/Replay.thy ===== *)
theory Replay
  imports Prelude "HOL-Library.Finite_Map"
begin

text \<open>
  The replay guard of \<open>internal/identity/trust.go\<close>: a bounded table of
  fingerprint/nonce pairs with their expiry, pruned on every call.  The server, the
  daemon and an interactive call each own one; what they rely on is the locale
  \<open>single_use\<close>.
\<close>

record replay_guard =
  rg_seen :: "(string, time) fmap"

definition replay_new :: replay_guard where
  "replay_new = \<lparr>rg_seen = fmempty\<rparr>"

definition nul :: char where
  "nul = CHR 0x00"

definition replay_key :: "string \<Rightarrow> string \<Rightarrow> string" where
  "replay_key fingerprint nonce = fingerprint @ [nul] @ nonce"

definition replay_prune :: "time \<Rightarrow> (string, time) fmap \<Rightarrow> (string, time) fmap" where
  "replay_prune now m = fmfilter (\<lambda>k. case fmlookup m k of Some expiry \<Rightarrow> now < expiry | None \<Rightarrow> True) m"

definition replay_capacity :: nat where
  "replay_capacity = 65536"

definition replay_accept ::
  "string \<Rightarrow> string \<Rightarrow> time \<Rightarrow> time \<Rightarrow> replay_guard \<Rightarrow> replay_guard \<times> bool" where
  "replay_accept fingerprint nonce expiresAt now g = (
    let seen = replay_prune now (rg_seen g);
        key = replay_key fingerprint nonce
    in if fmlookup seen key \<noteq> None then (g\<lparr>rg_seen := seen\<rparr>, False)
       else if replay_capacity \<le> fcard (fmdom seen) then (g\<lparr>rg_seen := seen\<rparr>, False)
       else (g\<lparr>rg_seen := fmupd key expiresAt seen\<rparr>, True))"

lemma fmlookup_prune [simp]:
  "fmlookup (replay_prune now m) k = (case fmlookup m k of
      Some e \<Rightarrow> if now < e then Some e else None | None \<Rightarrow> None)"
  by (simp add: replay_prune_def split: option.splits)

lemma fcard_prune: "fcard (fmdom (replay_prune now m)) \<le> fcard (fmdom m)"
  by (auto simp: replay_prune_def intro!: fcard_mono)

lemma replay_key_inj:
  assumes "nul \<notin> set f" "nul \<notin> set f'"
  shows "replay_key f n = replay_key f' n' \<longleftrightarrow> f = f' \<and> n = n'"
  using assms unfolding replay_key_def
proof (induction f arbitrary: f')
  case Nil
  then show ?case by (cases f') auto
next
  case (Cons a f)
  then show ?case by (cases f') auto
qed

text \<open>
  The contract: a pair that was accepted is refused until its expiry, whatever else is
  presented meanwhile.
\<close>

fun accepted_at :: "('f \<Rightarrow> 'n \<Rightarrow> time \<Rightarrow> time \<Rightarrow> 'g \<Rightarrow> 'g \<times> bool) \<Rightarrow> 'g \<Rightarrow>
    ('f \<times> 'n \<times> time \<times> time) list \<Rightarrow> bool list" where
  "accepted_at accept g [] = []"
| "accepted_at accept g ((f, n, e, t) # evs) =
    snd (accept f n e t g) # accepted_at accept (fst (accept f n e t g)) evs"

locale single_use =
  fixes accept :: "'f \<Rightarrow> 'n \<Rightarrow> time \<Rightarrow> time \<Rightarrow> 'g \<Rightarrow> 'g \<times> bool"
    and holds :: "'g \<Rightarrow> 'f \<Rightarrow> 'n \<Rightarrow> time option"
    and valid :: "'f \<Rightarrow> bool"
  assumes remembers: "snd (accept f n e t g) \<Longrightarrow> holds (fst (accept f n e t g)) f n = Some e"
    and keeps: "valid f \<Longrightarrow> valid f' \<Longrightarrow> holds g f n = Some e \<Longrightarrow> t < e \<Longrightarrow>
      holds (fst (accept f' n' e' t g)) f n = Some e"
    and refuses: "holds g f n = Some e \<Longrightarrow> t < e \<Longrightarrow> \<not> snd (accept f n e' t g)"
begin

lemma held_is_refused:
  assumes "holds g f n = Some e" "valid f" "\<forall>ev \<in> set evs. valid (fst ev)"
    "j < length evs" "evs ! j = (f, n, e', t)" "t < e"
    "sorted (map (\<lambda>ev. snd (snd (snd ev))) evs)"
  shows "\<not> accepted_at accept g evs ! j"
  using assms
proof (induction evs arbitrary: g j)
  case (Cons ev evs)
  obtain f0 n0 e0 t0 where ev: "ev = (f0, n0, e0, t0)" by (cases ev) auto
  show ?case
  proof (cases j)
    case 0
    with Cons.prems ev refuses[OF Cons.prems(1)] show ?thesis by simp
  next
    case (Suc k)
    have "evs ! k \<in> set evs" using Cons.prems(4) Suc by simp
    then have "t0 \<le> t" using Cons.prems(5,7) Suc ev by force
    then have "holds (fst (accept f0 n0 e0 t0 g)) f n = Some e"
      using keeps[of f f0 g n e t0] Cons.prems ev by auto
    from Cons.IH[OF this, of k] Cons.prems Suc ev show ?thesis by simp
  qed
qed simp

lemma accepted_once_before_expiry:
  assumes "\<forall>ev \<in> set evs. valid (fst ev)" "sorted (map (\<lambda>ev. snd (snd (snd ev))) evs)"
    "i < j" "j < length evs" "evs ! i = (f, n, e, s)" "evs ! j = (f, n, e', t)"
    "accepted_at accept g evs ! i" "accepted_at accept g evs ! j"
  shows "e \<le> t"
  using assms
proof (induction evs arbitrary: g i j)
  case (Cons ev evs)
  obtain f0 n0 e0 t0 where ev: "ev = (f0, n0, e0, t0)" by (cases ev) auto
  obtain k where j: "j = Suc k" using Cons.prems(3) by (cases j) auto
  show ?case
  proof (cases i)
    case 0
    with Cons.prems ev have "holds (fst (accept f0 n0 e0 t0 g)) f n = Some e" "valid f"
      using remembers[of f n e s g] by auto
    from held_is_refused[OF this, of evs k e' t] Cons.prems j ev show ?thesis
      by (cases "t < e") auto
  next
    case (Suc l)
    with Cons.prems j ev Cons.IH[of l k "fst (accept f0 n0 e0 t0 g)"] show ?thesis by simp
  qed
qed simp

end

definition replay_holds :: "replay_guard \<Rightarrow> string \<Rightarrow> string \<Rightarrow> time option" where
  "replay_holds g f n = fmlookup (rg_seen g) (replay_key f n)"

interpretation guard: single_use replay_accept replay_holds "\<lambda>f. nul \<notin> set f"
proof unfold_locales
  fix f n e t g
  assume "snd (replay_accept f n e t g)"
  then show "replay_holds (fst (replay_accept f n e t g)) f n = Some e"
    by (auto simp: replay_accept_def replay_holds_def Let_def split: if_splits)
next
  fix f f' n n' g e t e'
  assume "nul \<notin> set f" "nul \<notin> set f'" "replay_holds g f n = Some e" "t < e"
  then show "replay_holds (fst (replay_accept f' n' e' t g)) f n = Some e"
    by (auto simp: replay_accept_def replay_holds_def replay_key_inj Let_def)
next
  fix f n g e t e'
  assume "replay_holds g f n = Some e" "t < e"
  then show "\<not> snd (replay_accept f n e' t g)"
    by (auto simp: replay_accept_def replay_holds_def Let_def)
qed

text \<open>The table never outgrows its capacity.\<close>

definition replay_inv :: "replay_guard \<Rightarrow> bool" where
  "replay_inv g \<longleftrightarrow> fcard (fmdom (rg_seen g)) \<le> replay_capacity"

lemma replay_inv_new: "replay_inv replay_new"
  by (simp add: replay_inv_def replay_new_def fcard_fempty)

lemma replay_inv_accept: "replay_inv g \<Longrightarrow> replay_inv (fst (replay_accept f n e t g))"
  using fcard_prune[of t "rg_seen g"]
  by (auto simp: replay_inv_def replay_accept_def Let_def fcard_finsert_if)

subsection \<open>Properties\<close>

text \<open>
  C15: no proof is accepted twice before it expires.  In any sequence of presentations
  with a clock that does not run backwards, if the same fingerprint and nonce are
  accepted at two positions, the second acceptance happens at or after the expiry that
  the first one recorded.
\<close>

theorem no_replay_before_expiry:
  assumes "\<forall>ev \<in> set evs. nul \<notin> set (fst ev)"
    and "sorted (map (\<lambda>ev. snd (snd (snd ev))) evs)"
    and "i < j" "j < length evs" "evs ! i = (f, n, e, s)" "evs ! j = (f, n, e', t)"
    and "accepted_at replay_accept g evs ! i" "accepted_at replay_accept g evs ! j"
  shows "e \<le> t"
  using assms by (rule guard.accepted_once_before_expiry)

lemma prune_fmempty: "replay_prune now fmempty = fmempty"
  by (simp add: replay_prune_def)

lemma prune_fmupd: "replay_prune now (fmupd k e m) =
    (if now < e then fmupd k e (replay_prune now m) else fmdrop k (replay_prune now m))"
  by (rule fmap_ext) auto

lemmas replay_eval = replay_accept_def replay_new_def replay_capacity_def replay_key_def Let_def
  prune_fmempty prune_fmupd fcard_fempty fcard_finsert_if

lemma demo_presentations:
  "accepted_at replay_accept replay_new
     [(''f'', ''n'', 50, 10), (''f'', ''n'', 50, 49), (''f'', ''m'', 60, 49), (''f'', ''n'', 50, 50)]
   = [True, False, True, True]"
  by (simp add: replay_eval del: fmlookup_prune)

theorem no_replay_before_expiry_witness:
  "accepted_at replay_accept replay_new
     [(''f'', ''n'', 50, 10), (''f'', ''n'', 50, 49), (''f'', ''m'', 60, 49), (''f'', ''n'', 50, 50)]
   = [True, False, True, True] \<and> (50::time) \<le> 50"
  using no_replay_before_expiry
    [of "[(''f'', ''n'', 50, 10), (''f'', ''n'', 50, 49), (''f'', ''m'', 60, 49), (''f'', ''n'', 50, 50)]"
        0 3 "''f''" "''n''" 50 10 50 50 replay_new] demo_presentations
  by (simp add: nul_def)

end
