(* ===== verification/Server.thy ===== *)
theory Server
  imports Connection Calls Presence Access_Turn Trust Replay
begin

text \<open>
  The signaling server, \<open>internal/server/websocket/server.go\<close>: its state, the handshake and the
  message loop of \<open>serve\<close>, \<open>dispatch\<close>, deliveries, disconnects and the expiry sweep.

  A connection is a number; the state maps it to its \<open>client_connection\<close>.  Handlers run as
  single steps.  What a handler reads from outside, the clock, \<open>uuid.NewString\<close> and the
  choice a \<open>select\<close> makes, comes from a \<open>readings\<close> value, one entry per call site.
\<close>

record readings =
  rd_now :: "nat \<Rightarrow> time"
  rd_uuid :: "nat \<Rightarrow> string"
  rd_pick :: "nat \<Rightarrow> bool"
  rd_text :: string

record server_config =
  sc_QueueSize :: int
  sc_HelloTimeout :: duration
  sc_WriteTimeout :: duration
  sc_PingInterval :: duration
  sc_IdleTimeout :: duration
  sc_SweepInterval :: duration
  sc_RingTimeout :: duration
  sc_NegotiationTimeout :: duration
  sc_CleanupAfter :: duration
  sc_InviteLimit :: int
  sc_InviteWindow :: duration
  sc_Access :: "string option"
  sc_STUNURLs :: "string list"

definition DefaultConfig :: server_config where
  "DefaultConfig = \<lparr>sc_QueueSize = 64, sc_HelloTimeout = 10 * second, sc_WriteTimeout = 5 * second,
     sc_PingInterval = 20 * second, sc_IdleTimeout = 60 * second, sc_SweepInterval = second,
     sc_RingTimeout = 45 * second, sc_NegotiationTimeout = 30 * second, sc_CleanupAfter = minute,
     sc_InviteLimit = 5, sc_InviteWindow = minute, sc_Access = None, sc_STUNURLs = []\<rparr>"

text \<open>Where a connection is in \<open>serve\<close>: before the hello, in the message loop, or returned.\<close>

datatype phase = Absent | Awaiting | Serving | Gone

record server =
  sv_config :: server_config
  sv_conns :: "nat \<Rightarrow> client_connection"
  sv_phase :: "nat \<Rightarrow> phase"
  sv_next :: nat
  sv_presence :: registry
  sv_calls :: manager
  sv_user_invites :: keyed_limiter
  sv_suffixes :: "string \<rightharpoonup> string"
  sv_replays :: replay_guard
  sv_cancelled :: bool

definition positive_or :: "int \<Rightarrow> int \<Rightarrow> int" where
  "positive_or standard v = (if v \<le> 0 then standard else v)"

definition fill_config :: "server_config \<Rightarrow> server_config" where
  "fill_config c = c\<lparr>
     sc_QueueSize := positive_or (sc_QueueSize DefaultConfig) (sc_QueueSize c),
     sc_HelloTimeout := positive_or (sc_HelloTimeout DefaultConfig) (sc_HelloTimeout c),
     sc_WriteTimeout := positive_or (sc_WriteTimeout DefaultConfig) (sc_WriteTimeout c),
     sc_PingInterval := positive_or (sc_PingInterval DefaultConfig) (sc_PingInterval c),
     sc_IdleTimeout := positive_or (sc_IdleTimeout DefaultConfig) (sc_IdleTimeout c),
     sc_SweepInterval := positive_or (sc_SweepInterval DefaultConfig) (sc_SweepInterval c),
     sc_RingTimeout := positive_or (sc_RingTimeout DefaultConfig) (sc_RingTimeout c),
     sc_NegotiationTimeout := positive_or (sc_NegotiationTimeout DefaultConfig) (sc_NegotiationTimeout c),
     sc_CleanupAfter := positive_or (sc_CleanupAfter DefaultConfig) (sc_CleanupAfter c),
     sc_InviteLimit := positive_or (sc_InviteLimit DefaultConfig) (sc_InviteLimit c),
     sc_InviteWindow := positive_or (sc_InviteWindow DefaultConfig) (sc_InviteWindow c)\<rparr>"

definition server_connection :: "server_config \<Rightarrow> client_connection" where
  "server_connection c = newClientConnection (nat (sc_QueueSize c)) (sc_InviteLimit c) (sc_InviteWindow c)"

definition server_new :: "server_config \<Rightarrow> server" where
  "server_new config = (let c = fill_config config in
    \<lparr>sv_config = c, sv_conns = (\<lambda>_. server_connection c), sv_phase = (\<lambda>_. Absent), sv_next = 0,
     sv_presence = registry_new,
     sv_calls = calls_new \<lparr>ring_timeout = sc_RingTimeout c, negotiation_timeout = sc_NegotiationTimeout c,
                  cleanup_after = sc_CleanupAfter c\<rparr>,
     sv_user_invites = newKeyedFixedWindowLimiter (sc_InviteLimit c) (sc_InviteWindow c),
     sv_suffixes = Map.empty, sv_replays = replay_new, sv_cancelled = False\<rparr>)"

subsection \<open>Errors\<close>

datatype server_error = ErrUnauthorized | ErrBadProof | ErrRateLimited | ErrPeerOffline | ErrSlowClient
  | ErrCalls calls_error

definition of_deliver :: "deliver_error \<Rightarrow> server_error" where
  "of_deliver e = (case e of DeliverOffline \<Rightarrow> ErrPeerOffline | DeliverSlow \<Rightarrow> ErrSlowClient)"

text \<open>\<open>ErrBadProof\<close> wraps \<open>ErrUnauthorized\<close>.\<close>

fun errorCode :: "server_error \<Rightarrow> string" where
  "errorCode ErrUnauthorized = ''unauthorized''"
| "errorCode ErrBadProof = ''unauthorized''"
| "errorCode (ErrCalls ErrNotParticipant) = ''unauthorized''"
| "errorCode ErrRateLimited = ''rate_limited''"
| "errorCode ErrPeerOffline = ''peer_offline''"
| "errorCode (ErrCalls (ErrUserBusy u)) = ''busy''"
| "errorCode (ErrCalls (ErrInvalidTransition t)) = ''invalid_transition''"
| "errorCode (ErrCalls ErrCandidateLimit) = ''candidate_limit''"
| "errorCode _ = ''invalid_message''"

fun error_text :: "server_error \<Rightarrow> string" where
  "error_text ErrUnauthorized = ''unauthorized signaling message''"
| "error_text ErrBadProof = ''unauthorized signaling message: invalid or replayed identity proof''"
| "error_text ErrRateLimited = ''call invitation rate limit exceeded''"
| "error_text ErrPeerOffline = ''recipient is offline''"
| "error_text ErrSlowClient = ''client outbound queue is full''"
| "error_text (ErrCalls e) = calls_error_text e"

definition serverOnly :: "signal_type \<Rightarrow> bool" where
  "serverOnly t \<longleftrightarrow> t \<in> set [SignalSessionHello, SignalSessionReady, SignalSessionError,
     SignalPresenceResult, SignalCallRinging, SignalCallBusy, SignalCallTimeout]"

subsection \<open>Messages of the server\<close>

text \<open>\<open>s.message\<close>, reading clock and generator at call site \<open>k\<close>; the payload is JSON text.\<close>

definition server_message ::
  "readings \<Rightarrow> nat \<Rightarrow> signal_type \<Rightarrow> string \<Rightarrow> string \<Rightarrow> string \<Rightarrow> string \<Rightarrow> signal_message" where
  "server_message rd k t from to callID payload =
    \<lparr>sm_version = ProtocolVersion, sm_id = rd_uuid rd k, sm_type = t, sm_timestamp = rd_now rd k,
     sm_call_id = callID, sm_from = from, sm_to = to, sm_payload = payload\<rparr>"

definition json_text :: "string \<Rightarrow> string" where
  "json_text s = CHR 0x22 # json_escape s @ [CHR 0x22]"

definition json_list :: "string list \<Rightarrow> string" where
  "json_list xs = CHR ''['' # join_with CHR '','' (map json_text xs) @ '']''"

definition ready_payload :: "string list \<Rightarrow> string" where
  "ready_payload urls = (if urls = [] then ''{}'' else json_object [(''stun_urls'', json_list urls)])"

definition presence_payload :: "bool \<Rightarrow> string" where
  "presence_payload online = json_object [(''online'', if online then ''true'' else ''false'')]"

definition error_payload :: "string \<Rightarrow> string \<Rightarrow> string" where
  "error_payload what text = json_object [(''code'', json_text what), (''message'', json_text text)]"

subsection \<open>Deliveries\<close>

definition on_conn :: "nat \<Rightarrow> (client_connection \<Rightarrow> client_connection) \<Rightarrow> server \<Rightarrow> server" where
  "on_conn i f s = s\<lparr>sv_conns := (sv_conns s)(i := f (sv_conns s i))\<rparr>"

definition deliver_conn :: "readings \<Rightarrow> nat \<Rightarrow> nat \<Rightarrow> signal_message \<Rightarrow> server \<Rightarrow> server \<times> deliver_error option" where
  "deliver_conn rd k i m s = (let (c, e) = conn_deliver (rd_pick rd k) m (sv_conns s i)
     in (s\<lparr>sv_conns := (sv_conns s)(i := c)\<rparr>, e))"

text \<open>A result that is \<open>client.Deliver\<close>'s own.\<close>

definition reply :: "readings \<Rightarrow> nat \<Rightarrow> nat \<Rightarrow> signal_message \<Rightarrow> server \<Rightarrow> server \<times> server_error option" where
  "reply rd k i m s = (let (s, e) = deliver_conn rd k i m s in (s, map_option of_deliver e))"

definition deliverTo :: "readings \<Rightarrow> nat \<Rightarrow> string \<Rightarrow> signal_message \<Rightarrow> server \<Rightarrow> server \<times> server_error option" where
  "deliverTo rd k username m s = (case registry_get username (sv_presence s) of
      None \<Rightarrow> (s, Some ErrPeerOffline)
    | Some target \<Rightarrow> (case deliver_conn rd k target m s of
          (s, None) \<Rightarrow> (s, None)
        | (s, Some e) \<Rightarrow> (on_conn target conn_close s, Some ErrPeerOffline)))"

definition sendError :: "readings \<Rightarrow> nat \<Rightarrow> nat \<Rightarrow> string \<Rightarrow> string \<Rightarrow> server \<Rightarrow> server" where
  "sendError rd k i what text s = fst (deliver_conn rd k i
     (server_message rd k SignalSessionError ''server'' (cc_username (sv_conns s i)) [] (error_payload what text)) s)"

subsection \<open>Dispatch\<close>

definition verifyBoundProof ::
  "crypto \<Rightarrow> readings \<Rightarrow> nat \<Rightarrow> signal_message \<Rightarrow> server \<Rightarrow> server \<times> server_error option" where
  "verifyBoundProof cr rd i m s = (case Verify cr m (rd_now rd 2) of
      Inl e \<Rightarrow> (s, Some ErrBadProof)
    | Inr (p, key, fp) \<Rightarrow>
        if fp \<noteq> cc_fingerprint (sv_conns s i) then (s, Some ErrBadProof)
        else let (g, ok) = replay_accept fp (pf_Nonce p) (pf_ExpiresAt p) (rd_now rd 3) (sv_replays s);
                 s = s\<lparr>sv_replays := g\<rparr>
          in (s, if ok then None else Some ErrBadProof))"

definition allow_invite :: "nat \<Rightarrow> time \<Rightarrow> server \<Rightarrow> server \<times> bool" where
  "allow_invite i now s = (
     let c = sv_conns s i; (l, own) = fixed_allow (cc_invites c) now;
         s = s\<lparr>sv_conns := (sv_conns s)(i := c\<lparr>cc_invites := l\<rparr>)\<rparr>
     in if \<not> own then (s, False)
        else let (u, ok) = keyed_allow (cc_username c) now (sv_user_invites s)
          in (s\<lparr>sv_user_invites := u\<rparr>, ok))"

definition forward :: "readings \<Rightarrow> nat \<Rightarrow> signal_message \<Rightarrow> time \<Rightarrow> server \<Rightarrow> server \<times> server_error option" where
  "forward rd i m now s = (
     let (mgr, r) = transition (sm_type m) (sm_call_id m) (cc_username (sv_conns s i)) (sm_to m) now (sv_calls s);
         s = s\<lparr>sv_calls := mgr\<rparr>
     in case r of Inl e \<Rightarrow> (s, Some (ErrCalls e)) | Inr c \<Rightarrow> deliverTo rd 4 (sm_to m) m s)"

definition dispatch_invite :: "readings \<Rightarrow> nat \<Rightarrow> signal_message \<Rightarrow> time \<Rightarrow> server \<Rightarrow> server \<times> server_error option" where
  "dispatch_invite rd i m now s = (
     let username = cc_username (sv_conns s i); (s, ok) = allow_invite i now s in
     if \<not> ok then (s, Some ErrRateLimited)
     else case registry_get (sm_to m) (sv_presence s) of
         None \<Rightarrow> (s, Some ErrPeerOffline)
       | Some target \<Rightarrow>
           let (mgr, r) = invite (sm_call_id m) username (sm_to m) now (sv_calls s); s = s\<lparr>sv_calls := mgr\<rparr> in
           case r of
             Inl (ErrUserBusy u) \<Rightarrow> reply rd 5 i (server_message rd 5 SignalCallBusy (sm_to m) username (sm_call_id m) []) s
           | Inl e \<Rightarrow> (s, Some (ErrCalls e))
           | Inr c \<Rightarrow> (case deliver_conn rd 4 target m s of
                 (s, Some e) \<Rightarrow>
                   let s = on_conn target conn_close s
                   in (s\<lparr>sv_calls := fst (disconnect_user (sm_to m) now (sv_calls s))\<rparr>, Some ErrPeerOffline)
               | (s, None) \<Rightarrow> reply rd 5 i (server_message rd 5 SignalCallRinging (sm_to m) username (sm_call_id m) []) s))"

definition dispatch ::
  "crypto \<Rightarrow> readings \<Rightarrow> nat \<Rightarrow> signal_message \<Rightarrow> server \<Rightarrow> server \<times> server_error option" where
  "dispatch cr rd i m s = (
     let username = cc_username (sv_conns s i); now = rd_now rd 1 in
     if sm_from m \<noteq> username then (s, Some ErrUnauthorized)
     else if serverOnly (sm_type m) then (s, Some ErrUnauthorized)
     else case sm_type m of
       SignalSessionPong \<Rightarrow> (s, if sm_to m \<noteq> ''server'' then Some ErrUnauthorized else None)
     | SignalSessionPing \<Rightarrow>
         if sm_to m \<noteq> ''server'' then (s, Some ErrUnauthorized)
         else reply rd 5 i (server_message rd 5 SignalSessionPong ''server'' username [] []) s
     | SignalPresenceQuery \<Rightarrow>
         reply rd 5 i (server_message rd 5 SignalPresenceResult ''server'' username []
           (presence_payload (registry_get (sm_to m) (sv_presence s) \<noteq> None))) s
     | SignalCallInvite \<Rightarrow> (case verifyBoundProof cr rd i m s of
           (s, Some e) \<Rightarrow> (s, Some e)
         | (s, None) \<Rightarrow> dispatch_invite rd i m now s)
     | SignalCallAccept \<Rightarrow> (case verifyBoundProof cr rd i m s of
           (s, Some e) \<Rightarrow> (s, Some e)
         | (s, None) \<Rightarrow> forward rd i m now s)
     | t \<Rightarrow> if t \<in> set [SignalCallDecline, SignalCallCancel, SignalCallEnd, SignalWebRTCOffer,
                 SignalWebRTCAnswer, SignalWebRTCICE, SignalWebRTCICEComplete]
           then forward rd i m now s else (s, Some ErrUnauthorized))"

subsection \<open>Connections\<close>

fun end_calls :: "readings \<Rightarrow> nat \<Rightarrow> string \<Rightarrow> call list \<Rightarrow> server \<Rightarrow> server" where
  "end_calls rd k username [] s = s"
| "end_calls rd k username (c # cs) s = end_calls rd (Suc k) username cs
    (case call_other c username of
       Inl e \<Rightarrow> s
     | Inr other \<Rightarrow> fst (deliverTo rd k other (server_message rd k SignalCallEnd username other (c_id c) []) s))"

definition server_disconnect :: "readings \<Rightarrow> nat \<Rightarrow> server \<Rightarrow> server" where
  "server_disconnect rd i s = (
     let s = (on_conn i conn_close s)\<lparr>sv_phase := (sv_phase s)(i := Gone)\<rparr>; c = sv_conns s i in
     if \<not> cc_registered c then s
     else let s = s\<lparr>sv_presence := Unregister (cc_username c) i (sv_presence s)\<rparr> in
       if sv_cancelled s then s
       else let (mgr, ended) = disconnect_user (cc_username c) (rd_now rd 9) (sv_calls s)
         in end_calls rd 10 (cc_username c) ended (s\<lparr>sv_calls := mgr\<rparr>))"

text \<open>What a read returns: a text message, another message, or an error.\<close>

datatype inbound = TextFrame string | OtherFrame | ReadFailed

definition server_validator :: "time \<Rightarrow> validator" where
  "server_validator now = (NewValidator now)\<lparr>v_Now := Some now\<rparr>"

definition handleWebSocket :: "string \<Rightarrow> server \<Rightarrow> server \<times> nat option" where
  "handleWebSocket header s =
    (if \<not> Authorize (sc_Access (sv_config s)) header then (s, None)
     else let i = sv_next s in
       (s\<lparr>sv_next := Suc i, sv_conns := (sv_conns s)(i := server_connection (sv_config s)),
          sv_phase := (sv_phase s)(i := Awaiting)\<rparr>, Some i))"

text \<open>The handshake of \<open>serve\<close>, up to the start of the loop; \<open>False\<close> when \<open>serve\<close> returns.\<close>

definition handshake :: "crypto \<Rightarrow> readings \<Rightarrow> nat \<Rightarrow> inbound \<Rightarrow> server \<Rightarrow> server \<times> bool" where
  "handshake cr rd i frame s = (case frame of
      ReadFailed \<Rightarrow> (s, False)
    | OtherFrame \<Rightarrow> (s, False)
    | TextFrame data \<Rightarrow> (case DecodeSignal data (server_validator (rd_now rd 0)) of
        Inl e \<Rightarrow> (s, False)
      | Inr hello \<Rightarrow>
          if sm_type hello \<noteq> SignalSessionHello then (s, False)
          else case Verify cr hello (rd_now rd 2) of
            Inl e \<Rightarrow> (s, False)
          | Inr (p, key, fp) \<Rightarrow>
              let (g, fresh) = replay_accept fp (pf_Nonce p) (pf_ExpiresAt p) (rd_now rd 3) (sv_replays s);
                  s = s\<lparr>sv_replays := g\<rparr> in
              if \<not> fresh then (s, False)
              else let sfx = take AddressSuffixLength fp; known = sv_suffixes s sfx;
                       s = (if known = None then s\<lparr>sv_suffixes := (sv_suffixes s)(sfx \<mapsto> fp)\<rparr> else s) in
                if known \<noteq> None \<and> known \<noteq> Some fp then (s, False)
                else let s = on_conn i (\<lambda>c. c\<lparr>cc_username := sm_from hello, cc_fingerprint := fp\<rparr>) s;
                         (reg, err) = Register (sm_from hello) i (sv_presence s) in
                  if err \<noteq> None then (s, False)
                  else let s = s\<lparr>sv_presence := reg\<rparr>;
                           s = on_conn i (\<lambda>c. conn_touch (rd_now rd 4) (c\<lparr>cc_registered := True\<rparr>)) s;
                           (s, e) = deliver_conn rd 5 i (server_message rd 5 SignalSessionReady ''server''
                             (sm_from hello) [] (ready_payload (sc_STUNURLs (sv_config s)))) s
                    in (s, e = None)))"

definition serve_hello :: "crypto \<Rightarrow> readings \<Rightarrow> nat \<Rightarrow> inbound \<Rightarrow> server \<Rightarrow> server" where
  "serve_hello cr rd i frame s = (case handshake cr rd i frame s of
      (s, True) \<Rightarrow> s\<lparr>sv_phase := (sv_phase s)(i := Serving)\<rparr>
    | (s, False) \<Rightarrow> server_disconnect rd i s)"

text \<open>
  One round of the message loop.  The text of a decoding error is not modelled: the reading
  \<open>rd_text\<close> stands for it.
\<close>

definition serve_frame :: "crypto \<Rightarrow> readings \<Rightarrow> nat \<Rightarrow> inbound \<Rightarrow> server \<Rightarrow> server" where
  "serve_frame cr rd i frame s = (case frame of
      ReadFailed \<Rightarrow> server_disconnect rd i s
    | OtherFrame \<Rightarrow> sendError rd 6 i ''invalid_message'' ''only text WebSocket messages are accepted'' s
    | TextFrame data \<Rightarrow> (case DecodeSignal data (server_validator (rd_now rd 0)) of
        Inl e \<Rightarrow> sendError rd 6 i ''invalid_message'' (rd_text rd) s
      | Inr m \<Rightarrow>
          let s = on_conn i (conn_touch (rd_now rd 7)) s;
              (c, dup) = conn_duplicate (sm_id m) (sv_conns s i);
              s = s\<lparr>sv_conns := (sv_conns s)(i := c)\<rparr> in
          if dup then s
          else case dispatch cr rd i m s of
            (s, None) \<Rightarrow> s
          | (s, Some e) \<Rightarrow> sendError rd 6 i (errorCode e) (error_text e) s))"

subsection \<open>Sweep, shutdown\<close>

fun send_timeouts :: "readings \<Rightarrow> nat \<Rightarrow> call list \<Rightarrow> server \<Rightarrow> server" where
  "send_timeouts rd k [] s = s"
| "send_timeouts rd k (c # cs) s = (
    let s = fst (deliverTo rd k (caller c) (server_message rd k SignalCallTimeout (callee c) (caller c) (c_id c) []) s);
        s = fst (deliverTo rd (Suc k) (callee c) (server_message rd (Suc k) SignalCallTimeout (caller c) (callee c) (c_id c) []) s)
    in send_timeouts rd (Suc (Suc k)) cs s)"

text \<open>A tick of \<open>sweepLoop\<close>; \<open>order\<close> is the iteration order of the call table.\<close>

definition sweep :: "readings \<Rightarrow> string list \<Rightarrow> server \<Rightarrow> server" where
  "sweep rd order s = (if sv_cancelled s then s
     else let (mgr, expired) = expire order (rd_now rd 8) (sv_calls s)
       in send_timeouts rd 10 expired (s\<lparr>sv_calls := mgr\<rparr>))"

text \<open>
  \<open>Shutdown\<close>: \<open>CloseAll\<close> closes whatever is registered; \<open>Register\<close> keeps an endpoint under its
  own user name.
\<close>

definition Shutdown :: "server \<Rightarrow> server" where
  "Shutdown s = s\<lparr>sv_cancelled := True,
     sv_conns := (\<lambda>i. if registry_get (cc_username (sv_conns s i)) (sv_presence s) = Some i then conn_close (sv_conns s i) else sv_conns s i)\<rparr>"

subsection \<open>Steps\<close>

datatype server_event =
    EvConnect string | EvHello nat inbound | EvFrame nat inbound | EvTimeouts "string list"
  | EvHeartbeat nat | EvWrite nat bool | EvClose nat | EvShutdown

fun server_step :: "crypto \<Rightarrow> readings \<Rightarrow> server_event \<Rightarrow> server \<Rightarrow> server" where
  "server_step cr rd (EvConnect header) s = fst (handleWebSocket header s)"
| "server_step cr rd (EvHello i frame) s = (if sv_phase s i = Awaiting then serve_hello cr rd i frame s else s)"
| "server_step cr rd (EvFrame i frame) s = (if sv_phase s i = Serving then serve_frame cr rd i frame s else s)"
| "server_step cr rd (EvTimeouts order) s = sweep rd order s"
| "server_step cr rd (EvHeartbeat i) s = (if sv_phase s i = Serving
     then on_conn i (heartbeat (sc_IdleTimeout (sv_config s)) (rd_pick rd 5)
       (server_message rd 5 SignalSessionPing ''server'' (cc_username (sv_conns s i)) [] []) (rd_now rd 6)) s
     else s)"
| "server_step cr rd (EvWrite i fails) s =
     on_conn i (\<lambda>c. case write_one fails c of None \<Rightarrow> c | Some (c, m) \<Rightarrow> c) s"
| "server_step cr rd (EvClose i) s = on_conn i run_close s"
| "server_step cr rd EvShutdown s = Shutdown s"

inductive server_reachable :: "crypto \<Rightarrow> server_config \<Rightarrow> server \<Rightarrow> bool" for cr config where
  start: "server_reachable cr config (server_new config)"
| step: "server_reachable cr config s \<Longrightarrow>
     (\<And>order. ev = EvTimeouts order \<Longrightarrow> event_enabled (EvSweep order (rd_now rd 8)) (sv_calls s)) \<Longrightarrow>
     server_reachable cr config (server_step cr rd ev s)"

end
