(* ===== verification/Server_Safety.thy ===== *)
theory Server_Safety
  imports Server
begin

text \<open>
  What holds in every reachable state of the signaling server.  Handlers are first broken into
  primitive effects on the state (\<open>effect\<close>): an enqueued message, a closed connection, a call
  manager operation.  An invariant is then proved once per effect, and once per place where a
  connection enters or leaves the loop of \<open>serve\<close>.
\<close>

subsection \<open>Effects\<close>

text \<open>
  \<open>effect A\<close> is one primitive change in which a message is only enqueued where \<open>A\<close> permits.  The
  last rule covers the changes of the calls, the limiters and the replay guard: whoever becomes
  busy is online.
\<close>

inductive effect :: "(nat \<Rightarrow> signal_message \<Rightarrow> bool) \<Rightarrow> server \<Rightarrow> server \<Rightarrow> bool" for A where
  enqueue: "A j m \<Longrightarrow> effect A s (s\<lparr>sv_conns := (sv_conns s)(j := fst (conn_deliver b m (sv_conns s j)))\<rparr>)"
| close: "effect A s (on_conn j conn_close s)"
| touch: "effect A s (on_conn j (conn_touch t) s)"
| seen: "effect A s (s\<lparr>sv_conns := (sv_conns s)(j := fst (conn_duplicate x (sv_conns s j)))\<rparr>)"
| own_invites: "effect A s (s\<lparr>sv_conns := (sv_conns s)(j := (sv_conns s j)\<lparr>cc_invites := l\<rparr>)\<rparr>)"
| tables: "(manager_inv (sv_calls s) \<Longrightarrow> manager_inv mgr) \<Longrightarrow>
    (\<And>u. manager_inv (sv_calls s) \<Longrightarrow> m_active mgr u \<noteq> None \<Longrightarrow>
       m_active (sv_calls s) u \<noteq> None \<or> sv_presence s u \<noteq> None) \<Longrightarrow>
    effect A s (s\<lparr>sv_calls := mgr, sv_user_invites := l, sv_replays := g\<rparr>)"

abbreviation effects :: "(nat \<Rightarrow> signal_message \<Rightarrow> bool) \<Rightarrow> server \<Rightarrow> server \<Rightarrow> bool" where
  "effects A \<equiv> (effect A)\<^sup>*\<^sup>*"

text \<open>What no effect changes.\<close>

definition same_frame :: "server \<Rightarrow> server \<Rightarrow> bool" where
  "same_frame s s' \<longleftrightarrow> sv_config s' = sv_config s \<and> sv_phase s' = sv_phase s \<and> sv_next s' = sv_next s \<and>
     sv_presence s' = sv_presence s \<and> sv_suffixes s' = sv_suffixes s \<and> sv_cancelled s' = sv_cancelled s \<and>
     (\<forall>j. cc_username (sv_conns s' j) = cc_username (sv_conns s j) \<and>
          cc_fingerprint (sv_conns s' j) = cc_fingerprint (sv_conns s j) \<and>
          cc_registered (sv_conns s' j) = cc_registered (sv_conns s j) \<and>
          cc_queue_size (sv_conns s' j) = cc_queue_size (sv_conns s j))"

lemmas conn_steps = deliver_fields duplicate_fields close_fields

lemma effect_frame: "effect A s s' \<Longrightarrow> same_frame s s'"
  by (induction rule: effect.induct) (auto simp: same_frame_def on_conn_def conn_steps conn_touch_def)

lemma effects_frame: "effects A s s' \<Longrightarrow> same_frame s s'"
proof (induction rule: rtranclp_induct)
  case (step y z)
  from step(3) effect_frame[OF step(2)] show ?case by (simp add: same_frame_def)
qed (simp add: same_frame_def)

lemma effect_mono: "effect A s s' \<Longrightarrow> (\<And>j m. A j m \<Longrightarrow> B j m) \<Longrightarrow> effect B s s'"
proof (induction rule: effect.induct)
  case (tables s mgr l g)
  then show ?case by (intro effect.tables)
qed (auto intro: effect.intros)

lemma effects_mono: "effects A s s' \<Longrightarrow> (\<And>j m. A j m \<Longrightarrow> B j m) \<Longrightarrow> effects B s s'"
  by (induction rule: rtranclp_induct) (auto intro: effect_mono rtranclp.rtrancl_into_rtrancl)

lemma effects_trans: "effects A s t \<Longrightarrow> effects A t u \<Longrightarrow> effects A s u"
  by (rule rtranclp_trans)

lemma effects_Cons: "effect A s t \<Longrightarrow> effects A t u \<Longrightarrow> effects A s u"
  by (rule converse_rtranclp_into_rtranclp)

text \<open>The queues only grow, by permitted messages.\<close>

definition queues_grow :: "(nat \<Rightarrow> signal_message \<Rightarrow> bool) \<Rightarrow> server \<Rightarrow> server \<Rightarrow> bool" where
  "queues_grow A s s' \<longleftrightarrow> (\<forall>j. \<exists>new. cc_send (sv_conns s' j) = cc_send (sv_conns s j) @ new \<and>
     (\<forall>m \<in> set new. A j m))"

lemma queues_grow_trans: "queues_grow A s t \<Longrightarrow> queues_grow A t u \<Longrightarrow> queues_grow A s u"
  unfolding queues_grow_def by (metis append_assoc set_append Un_iff)

lemma effect_grow: "effect A s s' \<Longrightarrow> queues_grow A s s'"
proof (induction rule: effect.induct)
  case (enqueue j m s b)
  then show ?case
    using deliver_send[of b m "sv_conns s j"] by (fastforce simp: queues_grow_def)
qed (auto simp: queues_grow_def on_conn_def conn_steps conn_touch_def)

lemma effects_grow: "effects A s s' \<Longrightarrow> queues_grow A s s'"
proof (induction rule: rtranclp_induct)
  case (step y z)
  from step(3) effect_grow[OF step(2)] show ?case by (rule queues_grow_trans)
qed (simp add: queues_grow_def)

subsection \<open>Handlers as effects\<close>

lemma deliver_conn_effects: "A i m \<Longrightarrow> effects A s (fst (deliver_conn rd k i m s))"
  by (auto simp: deliver_conn_def split_beta Let_def intro: effect.enqueue)

lemma reply_effects: "A i m \<Longrightarrow> effects A s (fst (reply rd k i m s))"
  using deliver_conn_effects[of A i m s rd k] by (simp add: reply_def split_beta Let_def)

lemma sendError_effects:
  "A i (server_message rd k SignalSessionError ''server'' (cc_username (sv_conns s i)) [] (error_payload what text)) \<Longrightarrow>
   effects A s (sendError rd k i what text s)"
  unfolding sendError_def by (rule deliver_conn_effects)

lemma deliverTo_effects:
  assumes "\<And>j. sv_presence s u = Some j \<Longrightarrow> A j m"
  shows "effects A s (fst (deliverTo rd k u m s))"
proof (cases "sv_presence s u")
  case (Some j)
  obtain t e where t: "deliver_conn rd k j m s = (t, e)" by fastforce
  with deliver_conn_effects[of A j m s rd k] assms[OF Some] have "effects A s t" by simp
  then show ?thesis
    using Some t by (cases e) (auto simp: deliverTo_def registry_get_def intro: effect.close rtranclp.rtrancl_into_rtrancl)
qed (simp add: deliverTo_def registry_get_def)

lemma calls_effect:
  assumes "manager_inv (sv_calls s) \<Longrightarrow> manager_inv mgr"
    and "\<And>u. manager_inv (sv_calls s) \<Longrightarrow> m_active mgr u \<noteq> None \<Longrightarrow>
       m_active (sv_calls s) u \<noteq> None \<or> sv_presence s u \<noteq> None"
  shows "effect A s (s\<lparr>sv_calls := mgr\<rparr>)"
proof -
  have "effect A s (s\<lparr>sv_calls := mgr, sv_user_invites := sv_user_invites s, sv_replays := sv_replays s\<rparr>)"
    by (rule effect.tables) (use assms in blast)+
  then show ?thesis by simp
qed

lemma replays_effect: "effect A s (s\<lparr>sv_replays := g\<rparr>)"
  using effect.tables[where mgr = "sv_calls s" and l = "sv_user_invites s" and s = s] by simp

lemma user_invites_effect: "effect A s (s\<lparr>sv_user_invites := l\<rparr>)"
  using effect.tables[where mgr = "sv_calls s" and g = "sv_replays s" and s = s] by simp

lemma transition_active:
  "m_active (fst (transition mt i a r now m)) u \<noteq> None \<Longrightarrow> m_active m u \<noteq> None"
  by (cases mt) (auto simp: transition_def Let_def finish_eq split: option.splits if_splits)

lemma invite_active:
  "m_active (fst (invite i a b now m)) u \<noteq> None \<Longrightarrow> m_active m u \<noteq> None \<or> u = a \<or> u = b"
  by (auto simp: invite_def Let_def split: if_splits)

lemma disconnect_active:
  "m_active (fst (disconnect_user v now m)) u \<noteq> None \<Longrightarrow> m_active m u \<noteq> None"
  by (auto simp: disconnect_user_def finish_eq split: option.splits if_splits)

lemma expire_active: "m_active (fst (expire_loop now ids m ex)) u \<noteq> None \<Longrightarrow> m_active m u \<noteq> None"
  by (induction ids arbitrary: m ex)
    (force simp: finish_eq Let_def split: option.splits if_splits)+

text \<open>A connection answers itself, and otherwise speaks to whoever is online, in its own name.\<close>

definition speaks :: "server \<Rightarrow> nat \<Rightarrow> nat \<Rightarrow> signal_message \<Rightarrow> bool" where
  "speaks s i j m \<longleftrightarrow> j = i \<and> sm_to m = cc_username (sv_conns s i) \<or>
     sv_presence s (sm_to m) = Some j \<and> sm_from m = cc_username (sv_conns s i)"

lemma speaks_frame: "same_frame s t \<Longrightarrow> speaks t i = speaks s i"
  by (simp add: speaks_def same_frame_def fun_eq_iff)

lemma reply_self:
  "sm_to m = cc_username (sv_conns s i) \<Longrightarrow> effects (speaks s i) t (fst (reply rd k i m t))"
  by (rule reply_effects) (simp add: speaks_def)

lemma server_message_fields [simp]:
  "sm_to (server_message rd k t from to cid pl) = to" "sm_from (server_message rd k t from to cid pl) = from"
  "sm_type (server_message rd k t from to cid pl) = t" "sm_call_id (server_message rd k t from to cid pl) = cid"
  by (simp_all add: server_message_def)

lemma verifyBoundProof_effects: "effects A s (fst (verifyBoundProof cr rd i m s))"
  by (auto simp: verifyBoundProof_def Let_def split_beta intro: replays_effect split: sum.split)

lemma allow_invite_effects: "effects A s (fst (allow_invite i now s))"
  by (auto simp: allow_invite_def Let_def split_beta
      intro: effect.own_invites user_invites_effect rtranclp.rtrancl_into_rtrancl)

lemma forward_effects:
  assumes "sm_from m = cc_username (sv_conns s i)"
  shows "effects (speaks s i) s (fst (forward rd i m now s))"
proof -
  obtain mgr r where t: "transition (sm_type m) (sm_call_id m) (cc_username (sv_conns s i)) (sm_to m) now (sv_calls s) = (mgr, r)"
    by fastforce
  have calls: "effect (speaks s i) s (s\<lparr>sv_calls := mgr\<rparr>)"
    using manager_inv_transition[of "sv_calls s"] transition_active t
    by (intro calls_effect) (metis fst_conv)+
  have "effects (speaks s i) (s\<lparr>sv_calls := mgr\<rparr>) (fst (deliverTo rd 4 (sm_to m) m (s\<lparr>sv_calls := mgr\<rparr>)))"
    by (rule deliverTo_effects) (simp add: speaks_def assms)
  with calls show ?thesis by (auto simp: forward_def t Let_def effects_Cons split: sum.split)
qed

lemma dispatch_invite_effects:
  assumes "sm_from m = cc_username (sv_conns s i)" "sv_presence s (cc_username (sv_conns s i)) \<noteq> None"
  shows "effects (speaks s i) s (fst (dispatch_invite rd i m now s))"
proof -
  obtain s1 ok where s1: "allow_invite i now s = (s1, ok)" by fastforce
  have e1: "effects (speaks s i) s s1" using allow_invite_effects[of "speaks s i" s i now] s1 by simp
  note F1 = effects_frame[OF e1]
  show ?thesis
  proof (cases "ok \<and> sv_presence s1 (sm_to m) \<noteq> None")
    case False
    with e1 show ?thesis by (auto simp: dispatch_invite_def Let_def s1 registry_get_def)
  next
    case True
    then obtain target where target: "sv_presence s1 (sm_to m) = Some target" by auto
    obtain mgr r where inv: "invite (sm_call_id m) (cc_username (sv_conns s i)) (sm_to m) now (sv_calls s1) = (mgr, r)"
      by fastforce
    define s2 where "s2 = s1\<lparr>sv_calls := mgr\<rparr>"
    have "effect (speaks s i) s1 s2" unfolding s2_def
      using manager_inv_invite[of "sv_calls s1"] invite_active inv target assms F1
      by (intro calls_effect) (metis fst_conv same_frame_def option.distinct(1))+
    with e1 have e2: "effects (speaks s i) s s2" by (rule rtranclp.rtrancl_into_rtrancl)
    note F2 = effects_frame[OF e2]
    obtain s3 e where s3: "deliver_conn rd 4 target m s2 = (s3, e)" by fastforce
    have "speaks s i target m" using target F1 assms by (simp add: speaks_def same_frame_def)
    then have e3: "effects (speaks s i) s s3"
      using deliver_conn_effects[of "speaks s i" target m s2 rd 4] e2 s3 by (simp add: effects_trans)
    have e4: "effects (speaks s i) s ((on_conn target conn_close s3)\<lparr>sv_calls :=
        fst (disconnect_user (sm_to m) now (sv_calls (on_conn target conn_close s3)))\<rparr>)"
      using manager_inv_disconnect disconnect_active
      by (intro rtranclp.rtrancl_into_rtrancl[OF rtranclp.rtrancl_into_rtrancl[OF e3 effect.close] calls_effect]) blast+
    show ?thesis
      using True target e2 e3 e4 s3
        effects_trans[OF e2 reply_self] effects_trans[OF e3 reply_self]
      by (auto simp: dispatch_invite_def Let_def s1 registry_get_def inv s2_def[symmetric] s3
          split: sum.split calls_error.split option.split)
  qed
qed

lemma dispatch_effects:
  assumes "sv_presence s (cc_username (sv_conns s i)) \<noteq> None"
  shows "effects (speaks s i) s (fst (dispatch cr rd i m s))"
proof (cases "sm_from m = cc_username (sv_conns s i) \<and> \<not> serverOnly (sm_type m)")
  case True
  obtain s1 e where s1: "verifyBoundProof cr rd i m s = (s1, e)" by fastforce
  then have e1: "effects (speaks s i) s s1" using verifyBoundProof_effects[of "speaks s i" s cr rd i m] by simp
  note F1 = effects_frame[OF e1]
  then have sp: "speaks s1 i = speaks s i" by (rule speaks_frame)
  have own: "sm_from m = cc_username (sv_conns s1 i)" "sv_presence s1 (cc_username (sv_conns s1 i)) \<noteq> None"
    using F1 True assms by (simp_all add: same_frame_def)
  have bound: "effects (speaks s i) s (fst (forward rd i m now s1))"
    "effects (speaks s i) s (fst (dispatch_invite rd i m now s1))" for now
    using forward_effects[OF own(1)] dispatch_invite_effects[OF own] e1 sp by (auto intro: effects_trans)
  show ?thesis
    using True reply_self forward_effects[of m s i] bound e1
    by (cases "sm_type m") (auto simp: dispatch_def Let_def s1 split: option.split)
qed (auto simp: dispatch_def Let_def)

lemma sendError_self:
  assumes "effects (speaks s i) s t"
  shows "effects (speaks s i) s (sendError rd k i what text t)"
  using assms effects_frame[OF assms]
  by (auto intro!: effects_trans[OF assms] sendError_effects simp: speaks_def same_frame_def)

lemma serve_frame_effects:
  assumes "sv_presence s (cc_username (sv_conns s i)) \<noteq> None" "frame \<noteq> ReadFailed"
  shows "effects (speaks s i) s (serve_frame cr rd i frame s)"
proof -
  note err = sendError_self
  show ?thesis
  proof (cases frame)
    case (TextFrame data)
    show ?thesis
    proof (cases "DecodeSignal data (server_validator (rd_now rd 0))")
      case (Inr m)
      define s1 where "s1 = on_conn i (conn_touch (rd_now rd 7)) s"
      define s2 where "s2 = s1\<lparr>sv_conns := (sv_conns s1)(i := fst (conn_duplicate (sm_id m) (sv_conns s1 i)))\<rparr>"
      have e2: "effects (speaks s i) s s2"
        using effect.touch[of "speaks s i" s i "rd_now rd 7"] effect.seen[of "speaks s i" s1 i "sm_id m"]
        by (simp add: s2_def s1_def[symmetric] effects_Cons r_into_rtranclp)
      note F2 = effects_frame[OF e2]
      have sp: "speaks s2 i = speaks s i" using F2 by (rule speaks_frame)
      have "effects (speaks s i) s2 (fst (dispatch cr rd i m s2))"
        using dispatch_effects[of s2 i cr rd m] F2 assms(1) sp by (simp add: same_frame_def)
      with e2 have e3: "effects (speaks s i) s (fst (dispatch cr rd i m s2))" by (rule effects_trans)
      obtain c dup where dup: "conn_duplicate (sm_id m) (sv_conns s1 i) = (c, dup)" by fastforce
      obtain s3 e where s3: "dispatch cr rd i m s2 = (s3, e)" by fastforce
      have s2: "s1\<lparr>sv_conns := (sv_conns s1)(i := c)\<rparr> = s2" by (simp add: s2_def dup)
      have "serve_frame cr rd i frame s = (if dup then s2 else case e of None \<Rightarrow> s3
          | Some e \<Rightarrow> sendError rd 6 i (errorCode e) (error_text e) s3)"
        by (simp add: serve_frame_def TextFrame Inr s1_def[symmetric] Let_def dup s2 s3)
      then show ?thesis using e2 e3 s3 by (auto split: option.split intro: err)
    qed (simp add: serve_frame_def TextFrame err)
  qed (simp_all add: serve_frame_def assms(2) err)
qed

lemma end_calls_effects:
  "effects (\<lambda>j m. sv_presence s (sm_to m) = Some j \<and> sm_from m = u) s (end_calls rd k u cs s)"
proof (induction cs arbitrary: s k)
  case (Cons c cs)
  define t where "t = (case call_other c u of Inl e \<Rightarrow> s
     | Inr other \<Rightarrow> fst (deliverTo rd k other (server_message rd k SignalCallEnd u other (c_id c) []) s))"
  have t: "effects (\<lambda>j m. sv_presence s (sm_to m) = Some j \<and> sm_from m = u) s t"
    unfolding t_def by (auto intro: deliverTo_effects split: sum.split)
  have "sv_presence t = sv_presence s" using effects_frame[OF t] by (simp add: same_frame_def)
  with t Cons.IH[of t "Suc k"] show ?case by (simp add: t_def[symmetric] effects_trans)
qed simp

lemma send_timeouts_effects:
  "effects (\<lambda>j m. sv_presence s (sm_to m) = Some j) s (send_timeouts rd k cs s)"
proof (induction cs arbitrary: s k)
  case (Cons c cs)
  define t where "t = fst (deliverTo rd k (caller c) (server_message rd k SignalCallTimeout (callee c) (caller c) (c_id c) []) s)"
  define v where "v = fst (deliverTo rd (Suc k) (callee c)
    (server_message rd (Suc k) SignalCallTimeout (caller c) (callee c) (c_id c) []) t)"
  have t: "effects (\<lambda>j m. sv_presence s (sm_to m) = Some j) s t"
    unfolding t_def by (auto intro: deliverTo_effects)
  then have p: "sv_presence t = sv_presence s" by (auto dest: effects_frame simp: same_frame_def)
  have v: "effects (\<lambda>j m. sv_presence s (sm_to m) = Some j) t v"
    unfolding v_def by (rule deliverTo_effects) (simp add: p)
  from effects_trans[OF t v] have sv: "effects (\<lambda>j m. sv_presence s (sm_to m) = Some j) s v" .
  then have "sv_presence v = sv_presence s" by (auto dest: effects_frame simp: same_frame_def)
  with sv Cons.IH[of v "Suc (Suc k)"] show ?case
    by (simp add: Let_def t_def[symmetric] v_def[symmetric] effects_trans)
qed simp

lemma sweep_effects: "effects (\<lambda>j m. sv_presence s (sm_to m) = Some j) s (sweep rd order s)"
proof (cases "sv_cancelled s")
  case False
  obtain mgr expired where ex: "expire order (rd_now rd 8) (sv_calls s) = (mgr, expired)" by fastforce
  have "effect (\<lambda>j m. sv_presence s (sm_to m) = Some j) s (s\<lparr>sv_calls := mgr\<rparr>)"
    using manager_inv_expire[of "sv_calls s" order] ex expire_active
    by (intro calls_effect) (metis fst_conv expire_def)+
  then show ?thesis
    using False ex send_timeouts_effects[of "s\<lparr>sv_calls := mgr\<rparr>" rd 10 expired]
    by (simp add: sweep_def effects_Cons)
qed (simp add: sweep_def)

subsection \<open>The invariant\<close>

definition conn_ok :: "phase \<Rightarrow> (string \<rightharpoonup> string) \<Rightarrow> client_connection \<Rightarrow> bool" where
  "conn_ok ph known c \<longleftrightarrow>
     (ph = Serving \<longrightarrow> cc_registered c \<and> ValidAddress (cc_username c) \<and>
        suffix_of (cc_username c) = take 12 (cc_fingerprint c) \<and>
        known (take 12 (cc_fingerprint c)) = Some (cc_fingerprint c)) \<and>
     (ph = Absent \<or> ph = Awaiting \<longrightarrow> \<not> cc_registered c \<and> cc_send c = []) \<and>
     queue_ok c \<and> (\<forall>m \<in> set (cc_send c). sm_to m = cc_username c)"

definition presence_exact :: "server \<Rightarrow> bool" where
  "presence_exact s \<longleftrightarrow> (\<forall>u j. sv_presence s u = Some j \<longleftrightarrow>
     sv_phase s j = Serving \<and> cc_username (sv_conns s j) = u)"

definition busy_online :: "server \<Rightarrow> bool" where
  "busy_online s \<longleftrightarrow> sv_cancelled s \<or>
     (\<forall>u. m_active (sv_calls s) u \<noteq> None \<longrightarrow> sv_presence s u \<noteq> None)"

definition server_inv :: "server \<Rightarrow> bool" where
  "server_inv s \<longleftrightarrow> manager_inv (sv_calls s) \<and> presence_exact s \<and>
     (\<forall>j. conn_ok (sv_phase s j) (sv_suffixes s) (sv_conns s j)) \<and>
     (\<forall>j. sv_next s \<le> j \<longrightarrow> sv_phase s j = Absent) \<and> busy_online s \<and>
     (\<forall>j. cc_queue_size (sv_conns s j) = nat (sc_QueueSize (sv_config s)))"

lemma server_invD:
  assumes "server_inv s"
  shows "manager_inv (sv_calls s)" "presence_exact s" "conn_ok (sv_phase s j) (sv_suffixes s) (sv_conns s j)"
    "sv_next s \<le> j \<Longrightarrow> sv_phase s j = Absent" "busy_online s"
    "cc_queue_size (sv_conns s j) = nat (sc_QueueSize (sv_config s))"
  using assms by (simp_all add: server_inv_def)

lemma presence_exactD:
  "presence_exact s \<Longrightarrow> sv_presence s u = Some j \<longleftrightarrow> sv_phase s j = Serving \<and> cc_username (sv_conns s j) = u"
  by (simp add: presence_exact_def)

definition deliverable :: "server \<Rightarrow> nat \<Rightarrow> signal_message \<Rightarrow> bool" where
  "deliverable s j m \<longleftrightarrow> sv_phase s j = Serving \<and> sm_to m = cc_username (sv_conns s j)"

lemma server_inv_deliverable:
  assumes "server_inv s"
  shows "sv_presence s (sm_to m) = Some j \<Longrightarrow> deliverable s j m"
    and "sv_phase s i = Serving \<Longrightarrow> speaks s i j m \<Longrightarrow> deliverable s j m"
  using presence_exactD[OF server_invD(2)[OF assms]] by (auto simp: deliverable_def speaks_def)

lemma server_inv_conn:
  assumes inv: "server_inv s" and same: "cc_username c = cc_username (sv_conns s j)"
    "cc_fingerprint c = cc_fingerprint (sv_conns s j)" "cc_registered c = cc_registered (sv_conns s j)"
    "cc_queue_size c = cc_queue_size (sv_conns s j)"
    and "queue_ok c" "\<forall>m \<in> set (cc_send c). m \<in> set (cc_send (sv_conns s j)) \<or> deliverable s j m"
  shows "server_inv (s\<lparr>sv_conns := (sv_conns s)(j := c)\<rparr>)"
proof -
  have "cc_send c = []" if "sv_phase s j = Absent \<or> sv_phase s j = Awaiting"
    using assms(7) server_invD(3)[OF inv, of j] that
    by (cases "cc_send c") (auto simp: conn_ok_def deliverable_def)
  then have "conn_ok (sv_phase s j) (sv_suffixes s) c"
    using assms(6,7) server_invD(3)[OF inv, of j] same by (auto simp: conn_ok_def deliverable_def)
  moreover have "presence_exact (s\<lparr>sv_conns := (sv_conns s)(j := c)\<rparr>)"
    using server_invD(2)[OF inv] same by (simp add: presence_exact_def)
  ultimately show ?thesis using inv same by (simp add: server_inv_def busy_online_def)
qed

lemma server_inv_queue: "server_inv s \<Longrightarrow> queue_ok (sv_conns s j)"
  using server_invD(3)[of s j] by (simp add: conn_ok_def)

lemma server_inv_effect:
  assumes "server_inv s" "effect (deliverable s) s t"
  shows "server_inv t \<and> deliverable t = deliverable s"
proof -
  have F: "same_frame s t" using effect_frame[OF assms(2)] .
  note ok = server_inv_queue[OF assms(1)]
  have "server_inv t" using assms(2)
  proof (cases rule: effect.cases)
    case (enqueue j m b)
    then show ?thesis unfolding enqueue(1)
      using deliver_send[of b m "sv_conns s j"] ok
      by (intro server_inv_conn[OF assms(1)]) (auto simp: conn_steps deliver_queue_ok)
  next
    case (tables mgr l g)
    have "busy_online t"
      using server_invD(5)[OF assms(1)] tables(3)[OF server_invD(1)[OF assms(1)]]
      unfolding tables(1) busy_online_def by (simp del: not_None_eq) blast
    then show ?thesis
      using assms(1) tables(2)[OF server_invD(1)[OF assms(1)]]
      by (simp add: server_inv_def tables(1) presence_exact_def)
  next
    case (close j)
    then show ?thesis unfolding close on_conn_def using ok[of j]
      by (intro server_inv_conn[OF assms(1)]) (simp_all add: conn_steps queue_ok_def)
  next
    case (touch j t)
    then show ?thesis unfolding touch on_conn_def using ok[of j]
      by (intro server_inv_conn[OF assms(1)]) (simp_all add: conn_touch_def queue_ok_def)
  next
    case (seen j x)
    then show ?thesis unfolding seen using ok[of j]
      by (intro server_inv_conn[OF assms(1)]) (simp_all add: conn_steps queue_ok_def)
  next
    case (own_invites j l)
    then show ?thesis unfolding own_invites using ok[of j]
      by (intro server_inv_conn[OF assms(1)]) (simp_all add: queue_ok_def)
  qed
  with F show ?thesis by (simp add: same_frame_def deliverable_def fun_eq_iff)
qed

lemma server_inv_effects:
  assumes "server_inv s" "effects A s t" "\<And>j m. A j m \<Longrightarrow> deliverable s j m"
  shows "server_inv t"
proof -
  have "effects (deliverable s) s t" using assms(2,3) by (rule effects_mono)
  then have "server_inv t \<and> deliverable t = deliverable s"
    using assms(1) by (induction rule: rtranclp_induct) (use server_inv_effect in metis)+
  then show ?thesis ..
qed

lemma calls_new_active: "m_active (calls_new c) = Map.empty"
  by (simp add: calls_new_def Let_def)

lemma server_inv_new: "server_inv (server_new config)"
  by (simp add: server_inv_def server_new_def Let_def manager_inv_new presence_exact_def registry_new_def
      conn_ok_def busy_online_def calls_new_active server_connection_def newClientConnection_def queue_ok_def)

subsection \<open>Entering and leaving the loop\<close>

lemma disconnect_user_frees:
  assumes "manager_inv m"
  shows "m_active (fst (disconnect_user u now m)) u = None"
proof (cases "m_active m u")
  case (Some i)
  then obtain c where "m_calls m i = Some c" "party u c"
    using manager_inv_active[OF assms] by (auto simp: live_call_def)
  with Some show ?thesis
    by (auto simp: disconnect_user_inv_eq[OF assms] finish_eq party_def)
qed (simp add: disconnect_user_def)

text \<open>Taking a connection out: it is closed, gone, and no longer registered.\<close>

definition removed :: "readings \<Rightarrow> nat \<Rightarrow> server \<Rightarrow> server" where
  "removed rd i s = (let u = cc_username (sv_conns s i) in
     s\<lparr>sv_conns := (sv_conns s)(i := conn_close (sv_conns s i)), sv_phase := (sv_phase s)(i := Gone),
       sv_presence := Unregister u i (sv_presence s),
       sv_calls := (if sv_cancelled s then sv_calls s else fst (disconnect_user u (rd_now rd 9) (sv_calls s)))\<rparr>)"

lemma server_disconnect_registered:
  assumes "cc_registered (sv_conns s i)"
  shows "server_disconnect rd i s = (let u = cc_username (sv_conns s i) in
    if sv_cancelled s then removed rd i s
    else end_calls rd 10 u (snd (disconnect_user u (rd_now rd 9) (sv_calls s))) (removed rd i s))"
  using assms
  by (simp add: server_disconnect_def removed_def on_conn_def conn_steps Let_def split_beta)

lemma removed_inv:
  assumes inv: "server_inv s" and serving: "sv_phase s i = Serving"
  shows "server_inv (removed rd i s)"
proof -
  let ?u = "cc_username (sv_conns s i)"
  note P = presence_exactD[OF server_invD(2)[OF inv]]
  have pres: "sv_presence (removed rd i s) = (sv_presence s)(?u := None)"
    using serving P[of ?u i] by (simp add: removed_def Let_def Unregister_def)
  have uniq: "sv_phase s j = Serving \<Longrightarrow> cc_username (sv_conns s j) = ?u \<Longrightarrow> j = i" for j
    using P[of ?u i] P[of ?u j] serving by simp
  have "presence_exact (removed rd i s)"
    unfolding presence_exact_def pres using P uniq
    by (auto simp: removed_def Let_def conn_steps)
  moreover have "conn_ok (sv_phase (removed rd i s) j) (sv_suffixes (removed rd i s)) (sv_conns (removed rd i s) j)" for j
    using server_invD(3)[OF inv, of j] serving
    by (auto simp: removed_def Let_def conn_ok_def conn_steps queue_ok_def)
  moreover have "manager_inv (sv_calls (removed rd i s))"
    using server_invD(1)[OF inv] by (simp add: removed_def Let_def manager_inv_disconnect)
  moreover have "sv_phase (removed rd i s) j = Absent" if "sv_next (removed rd i s) \<le> j" for j
    using server_invD(4)[OF inv, of i] server_invD(4)[OF inv, of j] that serving
    by (auto simp: removed_def Let_def)
  moreover have "busy_online (removed rd i s)"
    using server_invD(5)[OF inv] disconnect_user_frees[OF server_invD(1)[OF inv], of ?u "rd_now rd 9"]
      disconnect_active[of ?u "rd_now rd 9" "sv_calls s"]
    unfolding busy_online_def pres by (auto simp: removed_def Let_def)
  moreover have "cc_queue_size (sv_conns (removed rd i s) j) = nat (sc_QueueSize (sv_config (removed rd i s)))" for j
    using server_invD(6)[OF inv] by (simp add: removed_def Let_def conn_steps)
  ultimately show ?thesis by (simp add: server_inv_def)
qed

lemma server_disconnect_serving:
  assumes inv: "server_inv s" and serving: "sv_phase s i = Serving"
  shows "effects (\<lambda>j m. sv_presence (removed rd i s) (sm_to m) = Some j \<and> sm_from m = cc_username (sv_conns s i))
    (removed rd i s) (server_disconnect rd i s)" "server_inv (server_disconnect rd i s)"
proof -
  have reg: "cc_registered (sv_conns s i)" using server_invD(3)[OF inv, of i] serving by (simp add: conn_ok_def)
  show e: "effects (\<lambda>j m. sv_presence (removed rd i s) (sm_to m) = Some j \<and> sm_from m = cc_username (sv_conns s i))
    (removed rd i s) (server_disconnect rd i s)"
    by (simp add: server_disconnect_registered[OF reg] Let_def end_calls_effects)
  note inv' = removed_inv[OF inv serving, of rd]
  show "server_inv (server_disconnect rd i s)"
    by (rule server_inv_effects[OF inv' e]) (use server_inv_deliverable(1)[OF inv'] in blast)
qed

lemma server_disconnect_awaiting:
  assumes inv: "server_inv s" and awaiting: "sv_phase s i = Awaiting"
  shows "server_inv (server_disconnect rd i s)"
proof -
  have c: "\<not> cc_registered (sv_conns s i)" "cc_send (sv_conns s i) = []" "queue_ok (sv_conns s i)"
    using server_invD(3)[OF inv, of i] awaiting by (simp_all add: conn_ok_def)
  define t where "t = s\<lparr>sv_conns := (sv_conns s)(i := conn_close (sv_conns s i)), sv_phase := (sv_phase s)(i := Gone)\<rparr>"
  have "presence_exact t"
    using presence_exactD[OF server_invD(2)[OF inv]] awaiting
    by (auto simp: presence_exact_def t_def conn_steps)
  moreover have "conn_ok (sv_phase t j) (sv_suffixes t) (sv_conns t j)" for j
    using server_invD(3)[OF inv, of j] c by (auto simp: t_def conn_ok_def conn_steps queue_ok_def)
  moreover have "i < sv_next s" using server_invD(4)[OF inv, of i] awaiting by fastforce
  ultimately have "server_inv t" using inv by (auto simp: server_inv_def t_def busy_online_def conn_steps)
  then show ?thesis using c by (simp add: server_disconnect_def t_def on_conn_def conn_steps Let_def)
qed

text \<open>The state a successful handshake reaches before it answers.\<close>

definition entered :: "readings \<Rightarrow> nat \<Rightarrow> string \<Rightarrow> string \<Rightarrow> replay_guard \<Rightarrow> server \<Rightarrow> server" where
  "entered rd i name fp g s = s\<lparr>sv_replays := g, sv_suffixes := (sv_suffixes s)(take 12 fp \<mapsto> fp),
     sv_presence := (sv_presence s)(name \<mapsto> i),
     sv_conns := (sv_conns s)(i := (sv_conns s i)\<lparr>cc_username := name, cc_fingerprint := fp,
       cc_registered := True, cc_last_seen := rd_now rd 4\<rparr>)\<rparr>"

text \<open>A handshake that stops before the registration has only noted the proof and the suffix.\<close>

definition noted :: "nat \<Rightarrow> server \<Rightarrow> server \<Rightarrow> bool" where
  "noted i s t \<longleftrightarrow> (\<exists>g known c. t = s\<lparr>sv_replays := g, sv_suffixes := known, sv_conns := (sv_conns s)(i := c)\<rparr> \<and>
     sv_suffixes s \<subseteq>\<^sub>m known \<and> cc_registered c = cc_registered (sv_conns s i) \<and> cc_send c = cc_send (sv_conns s i) \<and>
     cc_queue_size c = cc_queue_size (sv_conns s i))"

lemma noted_refl: "noted i s s"
  unfolding noted_def by (intro exI[of _ "sv_replays s"] exI[of _ "sv_suffixes s"] exI[of _ "sv_conns s i"]) simp

lemma noted_replays: "noted i s (s\<lparr>sv_replays := g\<rparr>)"
  unfolding noted_def by (intro exI[of _ g] exI[of _ "sv_suffixes s"] exI[of _ "sv_conns s i"]) simp

lemma noted_name:
  assumes "sv_suffixes s x = None \<or> sv_suffixes s x = Some fp"
  shows "noted i s (s\<lparr>sv_replays := g, sv_suffixes := (sv_suffixes s)(x \<mapsto> fp),
    sv_conns := (sv_conns s)(i := (sv_conns s i)\<lparr>cc_username := u, cc_fingerprint := fp\<rparr>)\<rparr>)"
  unfolding noted_def
  by (intro exI[of _ g] exI[of _ "(sv_suffixes s)(x \<mapsto> fp)"]
      exI[of _ "(sv_conns s i)\<lparr>cc_username := u, cc_fingerprint := fp\<rparr>"])
    (use assms in \<open>auto simp: map_le_def\<close>)

lemma handshake_cases:
  assumes "handshake cr rd i frame s = (t, ok)"
  obtains (stopped) "\<not> ok" "noted i s t"
  | (entered) hello p key fp g e where "Verify cr hello (rd_now rd 2) = Inr (p, key, fp)"
      "sv_suffixes s (take 12 fp) = None \<or> sv_suffixes s (take 12 fp) = Some fp"
      "sv_presence s (sm_from hello) = None" "ok \<longleftrightarrow> e = None"
      "deliver_conn rd 5 i (server_message rd 5 SignalSessionReady ''server''
         (sm_from hello) [] (ready_payload (sc_STUNURLs (sv_config s)))) (entered rd i (sm_from hello) fp g s) = (t, e)"
proof -
  have early: "thesis" if "(t, ok) = (u, False)" "noted i s u" for u
    using that stopped by simp
  show ?thesis
  proof (cases frame)
    case (TextFrame data)
    show ?thesis
    proof (cases "DecodeSignal data (server_validator (rd_now rd 0))")
      case (Inr hello)
      show ?thesis
      proof (cases "sm_type hello = SignalSessionHello")
        case hello: True
        show ?thesis
        proof (cases "Verify cr hello (rd_now rd 2)")
          case (Inl e)
          then show ?thesis using assms early[OF _ noted_refl]
            by (simp add: handshake_def TextFrame Inr hello)
        next
          case ok: (Inr v)
          obtain p key fp where v: "v = (p, key, fp)" by (cases v)
          obtain g fresh where g: "replay_accept fp (pf_Nonce p) (pf_ExpiresAt p) (rd_now rd 3) (sv_replays s) = (g, fresh)"
            by fastforce
          note defs = handshake_def TextFrame Inr hello ok v g Let_def AddressSuffixLength_def
          show ?thesis
          proof (cases "fresh \<and> (sv_suffixes s (take 12 fp) = None \<or> sv_suffixes s (take 12 fp) = Some fp)")
            case False
            then show ?thesis using assms early[OF _ noted_replays[of i s g]]
              by (auto simp: defs split: if_splits)
          next
            case known: True
            show ?thesis
            proof (cases "sv_presence s (sm_from hello)")
              case None
              obtain u e where u: "deliver_conn rd 5 i (server_message rd 5 SignalSessionReady ''server''
                (sm_from hello) [] (ready_payload (sc_STUNURLs (sv_config s)))) (entered rd i (sm_from hello) fp g s) = (u, e)"
                by fastforce
              have "t = u" "ok \<longleftrightarrow> e = None"
                using known assms u None
                by (auto simp: defs on_conn_def Register_def fun_upd_idem entered_def conn_touch_def split: if_splits)
              with u known None ok v show ?thesis by (intro entered) auto
            next
              case (Some j)
              with known assms show ?thesis
                using early[OF _ noted_name[where s = s and x = "take 12 fp" and fp = fp and i = i and g = g and u = "sm_from hello"]]
                by (auto simp: defs on_conn_def Register_def fun_upd_idem split: if_splits)
            qed
          qed
        qed
      qed (use assms early[OF _ noted_refl] in \<open>simp add: handshake_def TextFrame Inr\<close>)
    qed (use assms early[OF _ noted_refl] in \<open>simp add: handshake_def TextFrame\<close>)
  qed (use assms early[OF _ noted_refl] in \<open>simp_all add: handshake_def\<close>)
qed

lemma conn_ok_known: "conn_ok ph known c \<Longrightarrow> known \<subseteq>\<^sub>m known' \<Longrightarrow> conn_ok ph known' c"
  unfolding conn_ok_def map_le_def by (metis domI)

lemma noted_inv:
  assumes inv: "server_inv s" and await: "sv_phase s i = Awaiting" and "noted i s t"
  shows "server_inv t" "sv_phase t = sv_phase s"
proof -
  obtain g known c where t: "t = s\<lparr>sv_replays := g, sv_suffixes := known, sv_conns := (sv_conns s)(i := c)\<rparr>"
    and c: "sv_suffixes s \<subseteq>\<^sub>m known" "cc_registered c = cc_registered (sv_conns s i)"
      "cc_send c = cc_send (sv_conns s i)" "cc_queue_size c = cc_queue_size (sv_conns s i)"
    using assms(3) by (auto simp: noted_def)
  show "sv_phase t = sv_phase s" by (simp add: t)
  have "conn_ok (sv_phase s i) known c"
    using server_invD(3)[OF inv, of i] c await by (auto simp: conn_ok_def queue_ok_def)
  then have "conn_ok (sv_phase t j) (sv_suffixes t) (sv_conns t j)" for j
    using conn_ok_known[OF server_invD(3)[OF inv] c(1)] by (simp add: t)
  moreover have "presence_exact t"
    using presence_exactD[OF server_invD(2)[OF inv]] await by (auto simp: presence_exact_def t)
  ultimately show "server_inv t" using inv c(4) by (simp add: server_inv_def t busy_online_def)
qed

definition serving :: "nat \<Rightarrow> server \<Rightarrow> server" where
  "serving i s = s\<lparr>sv_phase := (sv_phase s)(i := Serving)\<rparr>"

lemma Verify_address:
  assumes "crypto_laws cr" "Verify cr m now = Inr (p, pk, fp)"
  shows "ValidAddress (sm_from m)" "suffix_of (sm_from m) = take 12 fp"
  using assms(2) AddressMatchesKey_iff[OF assms(1), of "sm_from m" pk]
  unfolding Verify_def by (auto simp: Let_def split: option.splits if_splits)

lemma entered_inv:
  assumes inv: "server_inv s" and await: "sv_phase s i = Awaiting" and laws: "crypto_laws cr"
    and ver: "Verify cr hello now = Inr (p, pk, fp)"
    and sfx: "sv_suffixes s (take 12 fp) = None \<or> sv_suffixes s (take 12 fp) = Some fp"
    and free: "sv_presence s (sm_from hello) = None"
  shows "server_inv (serving i (entered rd i (sm_from hello) fp g s))"
proof -
  let ?t = "serving i (entered rd i (sm_from hello) fp g s)"
  note P = presence_exactD[OF server_invD(2)[OF inv]]
  have le: "sv_suffixes s \<subseteq>\<^sub>m (sv_suffixes s)(take 12 fp \<mapsto> fp)" using sfx by (auto simp: map_le_def)
  have "conn_ok (sv_phase ?t j) (sv_suffixes ?t) (sv_conns ?t j)" for j
    using conn_ok_known[OF server_invD(3)[OF inv, of j] le] server_invD(3)[OF inv, of i] await
      Verify_address[OF laws ver]
    by (auto simp: serving_def entered_def conn_ok_def queue_ok_def)
  moreover have "presence_exact ?t"
    using P free await P[of "sm_from hello"] by (auto simp: presence_exact_def serving_def entered_def)
  moreover have "sv_next s \<le> j \<Longrightarrow> sv_phase ?t j = Absent" for j
    using server_invD(4)[OF inv, of i] server_invD(4)[OF inv, of j] await by (auto simp: serving_def entered_def)
  moreover have "busy_online ?t"
    using server_invD(5)[OF inv] by (auto simp: busy_online_def serving_def entered_def)
  ultimately show ?thesis using inv by (simp add: server_inv_def serving_def entered_def)
qed

lemma deliver_conn_serving:
  "deliver_conn rd k i m (serving i s) = (serving i (fst (deliver_conn rd k i m s)), snd (deliver_conn rd k i m s))"
  by (simp add: deliver_conn_def serving_def Let_def split_beta)

lemma server_disconnect_phase: "server_disconnect rd i (serving i s) = server_disconnect rd i s"
  by (simp add: server_disconnect_def serving_def on_conn_def Let_def split_beta)

lemma serve_hello_cases:
  assumes inv: "server_inv s" and await: "sv_phase s i = Awaiting" and laws: "crypto_laws cr"
  obtains (stopped) t where "server_inv t" "noted i s t" "serve_hello cr rd i frame s = server_disconnect rd i t"
  | (serves) hello :: signal_message and fp g t where "server_inv (serving i (entered rd i (sm_from hello) fp g s))"
      "sv_presence s (sm_from hello) = None" "server_inv t" "sv_phase t i = Serving"
      "effects (speaks (serving i (entered rd i (sm_from hello) fp g s)) i)
         (serving i (entered rd i (sm_from hello) fp g s)) t"
      "serve_hello cr rd i frame s = t \<or> serve_hello cr rd i frame s = server_disconnect rd i t"
proof -
  obtain u ok where h: "handshake cr rd i frame s = (u, ok)" by fastforce
  from h show ?thesis
  proof (cases rule: handshake_cases)
    case stopped
    then show ?thesis
      using that(1)[OF noted_inv(1)[OF inv await stopped(2)] stopped(2)] h by (simp add: serve_hello_def)
  next
    case (entered hello p key fp g e)
    let ?s1 = "serving i (entered rd i (sm_from hello) fp g s)"
    define m where "m = server_message rd 5 SignalSessionReady ''server'' (sm_from hello) []
      (ready_payload (sc_STUNURLs (sv_config s)))"
    note inv1 = entered_inv[OF inv await laws entered(1-3), of rd g]
    have name: "cc_username (sv_conns ?s1 i) = sm_from hello" "sv_phase ?s1 i = Serving"
      by (simp_all add: serving_def entered_def)
    have "effects (speaks ?s1 i) ?s1 (fst (deliver_conn rd 5 i m ?s1))"
      by (rule deliver_conn_effects) (simp add: speaks_def name m_def)
    moreover have "fst (deliver_conn rd 5 i m ?s1) = serving i u"
      using entered(5) by (simp add: deliver_conn_serving m_def[symmetric])
    ultimately have e: "effects (speaks ?s1 i) ?s1 (serving i u)" by simp
    have "server_inv (serving i u)"
      by (rule server_inv_effects[OF inv1 e]) (use server_inv_deliverable(2)[OF inv1 name(2)] in blast)
    moreover have "serve_hello cr rd i frame s = serving i u \<or>
        serve_hello cr rd i frame s = server_disconnect rd i (serving i u)"
      by (cases ok) (simp_all add: serve_hello_def h server_disconnect_phase serving_def[symmetric])
    ultimately show ?thesis
      using that(2)[OF inv1 entered(3), of "serving i u"] e by (simp add: serving_def)
  qed
qed

subsection \<open>Every step keeps the invariant\<close>

lemma serve_hello_inv:
  assumes inv: "server_inv s" and await: "sv_phase s i = Awaiting" and laws: "crypto_laws cr"
  shows "server_inv (serve_hello cr rd i frame s)"
  using inv await laws
proof (cases rule: serve_hello_cases[where rd = rd and frame = frame])
  case (stopped t)
  then show ?thesis
    using server_disconnect_awaiting[of t i rd] noted_inv(2)[OF inv await] await by simp
next
  case (serves hello fp g t)
  then show ?thesis using server_disconnect_serving(2)[of t i rd] by auto
qed

lemma serve_frame_inv:
  assumes inv: "server_inv s" and "sv_phase s i = Serving"
  shows "server_inv (serve_frame cr rd i frame s)"
proof (cases "frame = ReadFailed")
  case True
  then show ?thesis using server_disconnect_serving(2)[OF assms] by (simp add: serve_frame_def)
next
  case False
  have "sv_presence s (cc_username (sv_conns s i)) \<noteq> None"
    using presence_exactD[OF server_invD(2)[OF inv]] assms(2) by blast
  from serve_frame_effects[OF this False] show ?thesis
    by (rule server_inv_effects[OF inv]) (use server_inv_deliverable(2)[OF assms] in blast)
qed

lemma heartbeat_inv:
  assumes inv: "server_inv s" and "sv_phase s i = Serving" and to: "sm_to m = cc_username (sv_conns s i)"
  shows "server_inv (on_conn i (heartbeat idle pick m now) s)"
  unfolding on_conn_def
proof (rule server_inv_conn[OF inv])
  let ?c = "heartbeat idle pick m now (sv_conns s i)"
  have c: "?c \<in> {sv_conns s i, conn_close (sv_conns s i), fst (conn_deliver pick m (sv_conns s i)),
      conn_close (fst (conn_deliver pick m (sv_conns s i)))}"
    by (auto simp: heartbeat_def split: prod.split option.split)
  then show "cc_username ?c = cc_username (sv_conns s i)" "cc_fingerprint ?c = cc_fingerprint (sv_conns s i)"
    "cc_registered ?c = cc_registered (sv_conns s i)" "cc_queue_size ?c = cc_queue_size (sv_conns s i)"
    by (auto simp: conn_steps)
  show "queue_ok ?c"
    using c server_inv_queue[OF inv, of i] deliver_queue_ok[of "sv_conns s i" pick m]
    by (auto simp: queue_ok_def conn_steps)
  show "\<forall>x \<in> set (cc_send ?c). x \<in> set (cc_send (sv_conns s i)) \<or> deliverable s i x"
    using c deliver_send[of pick m "sv_conns s i"] assms(2) to by (auto simp: deliverable_def conn_steps)
qed

lemma write_inv:
  assumes inv: "server_inv s"
  shows "server_inv (on_conn i (\<lambda>c. case write_one fails c of None \<Rightarrow> c | Some (c, m) \<Rightarrow> c) s)"
  unfolding on_conn_def
  by (rule server_inv_conn[OF inv])
    (use server_inv_queue[OF inv, of i] in \<open>auto simp: write_one_def conn_steps queue_ok_def Let_def split: list.splits\<close>)

lemma run_close_inv:
  assumes inv: "server_inv s"
  shows "server_inv (on_conn i run_close s)"
  unfolding on_conn_def
  by (rule server_inv_conn[OF inv])
    (use server_inv_queue[OF inv, of i] in \<open>auto simp: run_close_def conn_steps queue_ok_def\<close>)

lemma connect_inv:
  assumes inv: "server_inv s"
  shows "server_inv (fst (handleWebSocket header s))"
proof (cases "Authorize (sc_Access (sv_config s)) header")
  case True
  let ?t = "fst (handleWebSocket header s)" and ?i = "sv_next s"
  have absent: "sv_phase s ?i = Absent" using server_invD(4)[OF inv] by simp
  have t: "?t = s\<lparr>sv_next := Suc ?i, sv_conns := (sv_conns s)(?i := server_connection (sv_config s)),
      sv_phase := (sv_phase s)(?i := Awaiting)\<rparr>"
    using True by (simp add: handleWebSocket_def Let_def)
  have "conn_ok (sv_phase ?t j) (sv_suffixes ?t) (sv_conns ?t j)" for j
    using server_invD(3)[OF inv, of j]
    by (simp add: t conn_ok_def server_connection_def newClientConnection_def queue_ok_def)
  moreover have "presence_exact ?t"
    using presence_exactD[OF server_invD(2)[OF inv]] absent by (auto simp: t presence_exact_def)
  ultimately show ?thesis
    using inv by (simp add: server_inv_def t busy_online_def server_connection_def newClientConnection_def)
qed (simp add: handleWebSocket_def inv)

lemma shutdown_inv:
  assumes inv: "server_inv s" shows "server_inv (Shutdown s)"
proof -
  have "conn_ok (sv_phase s j) (sv_suffixes s) (conn_close (sv_conns s j))" for j
    using server_invD(3)[OF inv, of j] by (simp add: conn_ok_def conn_steps queue_ok_def)
  then show ?thesis
    using inv by (auto simp: server_inv_def Shutdown_def presence_exact_def busy_online_def conn_steps)
qed

lemma server_inv_step:
  assumes inv: "server_inv s" and laws: "crypto_laws cr"
  shows "server_inv (server_step cr rd ev s)"
proof (cases ev)
  case (EvTimeouts order)
  show ?thesis unfolding EvTimeouts server_step.simps
    by (rule server_inv_effects[OF inv sweep_effects]) (use server_inv_deliverable(1)[OF inv] in blast)
qed (use inv laws in \<open>simp_all add: connect_inv serve_hello_inv serve_frame_inv heartbeat_inv write_inv
    run_close_inv shutdown_inv\<close>)

lemma server_reachable_inv:
  assumes "crypto_laws cr" "server_reachable cr config s"
  shows "server_inv s"
  using assms(2)
proof (induction rule: server_reachable.induct)
  case (step s ev rd)
  then show ?case using server_inv_step assms(1) by blast
qed (rule server_inv_new)

end
