(* ===== verification/Signaling_Client.thy ===== *)
theory Signaling_Client
  imports Identity
begin

text \<open>
  The client's side of signaling, \<open>internal/client/signaling/client.go\<close>: the checks of
  \<open>Connect\<close>, the messages \<open>NewMessage\<close> builds and signs, \<open>Send\<close>, and the two loops as single
  iterations.  What a call reads from outside, the clock and the generators, is an argument; a
  parsed URL is given by its parts, \<open>None\<close> when \<open>url.Parse\<close> fails.
\<close>

subsection \<open>Connecting\<close>

record url_parts =
  url_Scheme :: string
  url_Host :: string
  url_Hostname :: string

record connect_config =
  kc_URL :: string
  kc_Address :: string
  kc_QueueSize :: int
  kc_HandshakeTimeout :: duration
  kc_WriteTimeout :: duration
  kc_AccessKey :: string
  kc_Identity :: "identity option"

datatype connect_error = InvalidAddress | IdentityMismatch | NoURL | BadURL | InsecureAccessKey
  | ConnectFailed | HelloFailed | ErrUnexpectedHello

definition local_hostname :: "string \<Rightarrow> bool" where
  "local_hostname h \<longleftrightarrow> h = ''localhost'' \<or> h = ''127.0.0.1'' \<or> h = ''::1''"

definition connect_checks :: "crypto \<Rightarrow> (string \<Rightarrow> url_parts option) \<Rightarrow> connect_config \<Rightarrow> connect_error option" where
  "connect_checks cr parse c =
    (if \<not> ValidAddress (kc_Address c) then Some InvalidAddress
     else if (case kc_Identity c of None \<Rightarrow> True | Some i \<Rightarrow> \<not> AddressMatchesKey cr (kc_Address c) (PublicKey i))
     then Some IdentityMismatch
     else if kc_URL c = [] then Some NoURL
     else case parse (kc_URL c) of
         None \<Rightarrow> Some BadURL
       | Some u \<Rightarrow>
           if (url_Scheme u \<noteq> ''ws'' \<and> url_Scheme u \<noteq> ''wss'') \<or> url_Host u = [] then Some BadURL
           else if kc_AccessKey c \<noteq> [] \<and> url_Scheme u = ''ws'' \<and> \<not> local_hostname (url_Hostname u)
           then Some InsecureAccessKey
           else None)"

definition connect_defaults :: "connect_config \<Rightarrow> connect_config" where
  "connect_defaults c = (
     let c = (if kc_QueueSize c \<le> 0 then c\<lparr>kc_QueueSize := 64\<rparr> else c);
         c = (if kc_HandshakeTimeout c \<le> 0 then c\<lparr>kc_HandshakeTimeout := 10 * second\<rparr> else c)
     in if kc_WriteTimeout c \<le> 0 then c\<lparr>kc_WriteTimeout := 5 * second\<rparr> else c)"

definition authorization_header :: "connect_config \<Rightarrow> string" where
  "authorization_header c = (if kc_AccessKey c \<noteq> [] then ''Bearer '' @ kc_AccessKey c else [])"

subsection \<open>Messages\<close>

record client_readings =
  cr_uuid :: string
  cr_nonce :: string
  cr_created :: time
  cr_signed :: time
  cr_checked :: time

datatype message_error = SignFailed | InvalidMessage protocol_error

definition signs_payload :: "signal_type \<Rightarrow> bool" where
  "signs_payload t \<longleftrightarrow> t = SignalSessionHello \<or> t = SignalCallInvite \<or> t = SignalCallAccept"

text \<open>\<open>payload\<close> is the JSON text of the argument of \<open>NewMessage\<close>, \<open>None\<close> for nil.\<close>

definition NewMessage ::
  "crypto \<Rightarrow> client_readings \<Rightarrow> string \<Rightarrow> identity \<Rightarrow> signal_type \<Rightarrow> string \<Rightarrow> string \<Rightarrow> string option \<Rightarrow>
   message_error + signal_message" where
  "NewMessage cr rd address i t to callID payload = (
     let message = \<lparr>sm_version = ProtocolVersion, sm_id = cr_uuid rd, sm_type = t, sm_timestamp = cr_created rd,
           sm_call_id = callID, sm_from = address, sm_to = to,
           sm_payload = (case payload of None \<Rightarrow> [] | Some raw \<Rightarrow> raw)\<rparr>;
         signed = (if payload = None \<and> signs_payload t
           then (case Sign cr (cr_nonce rd) i t callID address to (cr_signed rd) of
                   None \<Rightarrow> None
                 | Some p \<Rightarrow> Some (message\<lparr>sm_payload := marshal_proof p\<rparr>))
           else Some message)
     in case signed of
          None \<Rightarrow> Inl SignFailed
        | Some message \<Rightarrow> (case ValidateSignal (NewValidator (cr_checked rd)) message of
              Some e \<Rightarrow> Inl (InvalidMessage e)
            | None \<Rightarrow> Inr message))"

text \<open>What \<open>Connect\<close> makes of the first message from the server: the STUN URLs it announces.\<close>

definition accept_ready :: "time \<Rightarrow> string \<Rightarrow> bool \<Rightarrow> string \<Rightarrow> connect_error + string list" where
  "accept_ready now address text data = (case DecodeSignal data (NewValidator now) of
      Inl e \<Rightarrow> Inl ErrUnexpectedHello
    | Inr ready \<Rightarrow>
        if \<not> text \<or> sm_type ready \<noteq> SignalSessionReady \<or> sm_to ready \<noteq> address then Inl ErrUnexpectedHello
        else if length (sm_payload ready) \<noteq> 0 then
          (case ready_of (sm_payload ready) of None \<Rightarrow> Inl ErrUnexpectedHello | Some p \<Rightarrow> Inr (STUNURLs p))
        else Inr [])"

subsection \<open>The loops\<close>

text \<open>
  A client: the messages its events channel holds, its error slot, whether it was closed.  \<open>Send\<close>
  hands the encoded message to \<open>writeLoop\<close> and waits; \<open>sent\<close> is what that wait returns.
\<close>

datatype client_error = ErrClosed | ErrContext | ErrWrite | ErrRead | ErrProtocol protocol_error

record signal_client =
  sg_address :: string
  sg_identity :: identity
  sg_events :: "signal_message list"
  sg_event_limit :: nat
  sg_errors :: "client_error list"
  sg_closed :: bool
  sg_wire :: "string list"

definition report :: "client_error \<Rightarrow> signal_client \<Rightarrow> signal_client" where
  "report e c = (if sg_errors c = [] then c\<lparr>sg_errors := [e]\<rparr> else c)"

definition client_close :: "signal_client \<Rightarrow> signal_client" where
  "client_close c = c\<lparr>sg_closed := True\<rparr>"

text \<open>\<open>writeLoop\<close>, one iteration, on the bytes it was handed: the result it sends back.\<close>

definition client_write :: "bool \<Rightarrow> string \<Rightarrow> signal_client \<Rightarrow> signal_client \<times> client_error option" where
  "client_write fails data c =
    (if fails then (client_close (if sg_closed c then c else report ErrWrite c), Some ErrWrite)
     else (c\<lparr>sg_wire := sg_wire c @ [data]\<rparr>, None))"

definition Send :: "time \<Rightarrow> bool \<Rightarrow> signal_message \<Rightarrow> signal_client \<Rightarrow> signal_client \<times> client_error option" where
  "Send now fails m c = (case ValidateSignal (NewValidator now) m of
      Some e \<Rightarrow> (c, Some (ErrProtocol e))
    | None \<Rightarrow> if sg_closed c then (c, Some ErrClosed) else client_write fails (marshal_signal m) c)"

datatype client_input = ReadError | NonText | Text string

text \<open>
  \<open>readLoop\<close>, one iteration; \<open>True\<close> when the loop goes on.  Handing over a message waits for room
  in the channel: an iteration with a full channel is not started.
\<close>

definition read_one ::
  "crypto \<Rightarrow> client_readings \<Rightarrow> time \<Rightarrow> bool \<Rightarrow> client_input \<Rightarrow> signal_client \<Rightarrow> signal_client \<times> bool" where
  "read_one cr rd now fails input c = (case input of
      ReadError \<Rightarrow> (client_close (if sg_closed c then c else report ErrRead c), False)
    | NonText \<Rightarrow> (c, True)
    | Text data \<Rightarrow> (case DecodeSignal data (NewValidator now) of
        Inl e \<Rightarrow> (report (ErrProtocol e) c, True)
      | Inr m \<Rightarrow>
          if sm_type m = SignalSessionPing then
            (case NewMessage cr rd (sg_address c) (sg_identity c) SignalSessionPong ''server'' [] None of
               Inl e \<Rightarrow> (client_close c, False)
             | Inr pong \<Rightarrow> (case Send (cr_checked rd) fails pong c of
                   (c, None) \<Rightarrow> (c, True)
                 | (c, Some e) \<Rightarrow> (client_close c, False)))
          else if sg_closed c then (c, False)
          else (c\<lparr>sg_events := sg_events c @ [m]\<rparr>, True)))"

end
