(* ===== verification/Handshake.thy ===== *)
theory Handshake
  imports Server_Safety Signaling_Client
begin

text \<open>
  The handshake across both programs: what \<open>signaling.Connect\<close> sends is what the server's
  \<open>serve\<close> lets in.
\<close>

subsection \<open>The configuration stays\<close>

lemma server_disconnect_config: "sv_config (server_disconnect rd i s) = sv_config s"
proof (cases "cc_registered (sv_conns s i)")
  case True
  have "sv_config (end_calls rd k u cs t) = sv_config t" for k u cs t
    using effects_frame[OF end_calls_effects[of t u rd k cs]] by (simp add: same_frame_def)
  then show ?thesis using True by (simp add: server_disconnect_registered Let_def removed_def)
qed (simp add: server_disconnect_def on_conn_def conn_steps Let_def)

lemma serve_hello_config: "sv_config (serve_hello cr rd i frame s) = sv_config s"
proof -
  obtain t ok where h: "handshake cr rd i frame s = (t, ok)" by fastforce
  from h have "sv_config t = sv_config s"
  proof (cases rule: handshake_cases)
    case stopped
    then show ?thesis by (auto simp: noted_def)
  next
    case (entered hello p key fp g e)
    have cfg: "deliver_conn rd k i m u = (v, r) \<Longrightarrow> sv_config v = sv_config u" for k m u v r
      by (auto simp: deliver_conn_def split_beta Let_def)
    show ?thesis using cfg[OF entered(5)] by (simp add: entered_def)
  qed
  then show ?thesis by (cases ok) (simp_all add: serve_hello_def h server_disconnect_config)
qed

lemma server_step_config:
  assumes "server_inv s"
  shows "sv_config (server_step cr rd ev s) = sv_config s"
proof (cases ev)
  case (EvFrame i frame)
  show ?thesis
  proof (cases "sv_phase s i = Serving \<and> frame \<noteq> ReadFailed")
    case True
    then have "sv_presence s (cc_username (sv_conns s i)) \<noteq> None"
      using presence_exactD[OF server_invD(2)[OF assms]] by blast
    from effects_frame[OF serve_frame_effects[OF this]] True EvFrame show ?thesis by (simp add: same_frame_def)
  qed (auto simp: EvFrame serve_frame_def server_disconnect_config)
next
  case (EvTimeouts order)
  then show ?thesis using effects_frame[OF sweep_effects[of s rd order]] by (simp add: same_frame_def)
qed (simp_all add: handleWebSocket_def Let_def serve_hello_config on_conn_def Shutdown_def)

lemma server_reachable_config:
  assumes "crypto_laws cr" "server_reachable cr config s"
  shows "sv_config s = fill_config config"
  using assms(2)
proof (induction rule: server_reachable.induct)
  case (step s ev rd)
  then show ?case using server_step_config[OF server_reachable_inv[OF assms(1)]] by simp
qed (simp add: server_new_def Let_def)

lemma fill_config_queue: "0 < sc_QueueSize (fill_config c)"
  by (simp add: fill_config_def positive_or_def DefaultConfig_def)

subsection \<open>The client's hello\<close>

lemma NewMessage_signed:
  assumes "NewMessage cr crd address i t to callID None = Inr m" "signs_payload t"
  obtains p where "Sign cr (cr_nonce crd) i t callID address to (cr_signed crd) = Some p"
    "m = \<lparr>sm_version = ProtocolVersion, sm_id = cr_uuid crd, sm_type = t,
       sm_timestamp = cr_created crd, sm_call_id = callID, sm_from = address, sm_to = to, sm_payload = marshal_proof p\<rparr>"
    "ValidateSignal (NewValidator (cr_checked crd)) m = None"
  using assms by (auto simp: NewMessage_def Let_def split: option.splits)

lemma ValidateSignal_later:
  assumes "ValidateSignal (NewValidator t) m = None"
    "now - 24 * hour \<le> sm_timestamp m" "sm_timestamp m \<le> now + 5 * minute"
  shows "ValidateSignal (server_validator now) m = None"
proof -
  have nz: "hour \<noteq> 0" "minute \<noteq> 0" using hour_pos minute_pos by linarith+
  have old: "validateCommon (NewValidator t) (sm_version m) (sm_id m) (sm_timestamp m) = None"
    using assms(1) by (simp only: ValidateSignal_def split: option.splits)
  have new: "validateCommon (server_validator now) (sm_version m) (sm_id m) (sm_timestamp m) = None"
    using old assms(2,3) nz
    by (auto simp: validateCommon_def server_validator_def NewValidator_def v_now_def
        v_age_def v_future_def split: if_splits)
  from assms(1) show ?thesis by (simp only: ValidateSignal_def old new option.case)
qed

lemma Sign_plain:
  assumes "crypto_laws cr" "length seed = 32" "validUUID nonce"
    "Sign cr nonce (Generate cr seed) t callID from to t0 = Some p"
    "year_of (t0 + 2 * minute) \<in> {0..9999}"
  shows "proof_plain p"
proof -
  have "pf_ExpiresAt p = t0 + 2 * minute" "pf_Nonce p = nonce"
    "pf_PublicKey p = base64_url_encode (PublicKey (Generate cr seed))"
    using Sign_fields[OF assms(4)] by (simp_all add: proofLifetime_def EncodePublicKey_def)
  moreover have "\<exists>b. pf_Signature p = base64_url_encode b"
    using assms(4) by (auto simp: Sign_def Let_def split: if_splits)
  ultimately show ?thesis
    using assms(3,5) plain_base64 by (auto simp: proof_plain_def plain_uuid plain_char_text)
qed

text \<open>A signed message, and clocks that agree with its time and the validity of its proof.\<close>

definition good_message :: "crypto \<Rightarrow> readings \<Rightarrow> client_readings \<Rightarrow> string \<Rightarrow> string \<Rightarrow> signal_type \<Rightarrow> string \<Rightarrow>
    string \<Rightarrow> signal_message \<Rightarrow> bool" where
  "good_message cr rd crd address seed t to callID m \<longleftrightarrow>
     length seed = 32 \<and> validUUID (cr_nonce crd) \<and> AddressMatchesKey cr address (ed25519_public cr seed) \<and>
     NewMessage cr crd address (Generate cr seed) t to callID None = Inr m \<and>
     year_of (cr_created crd) \<in> {0..9999} \<and> year_of (cr_signed crd + 2 * minute) \<in> {0..9999} \<and>
     cr_signed crd + 2 * minute \<noteq> 0 \<and> length (marshal_signal m) \<le> MaxSignalMessageSize \<and>
     (\<forall>k. rd_now rd k - 24 * hour \<le> cr_created crd \<and> cr_created crd \<le> rd_now rd k + 5 * minute \<and>
          cr_signed crd - minute \<le> rd_now rd k \<and> rd_now rd k \<le> cr_signed crd + 2 * minute)"

lemma good_message_facts:
  assumes laws: "crypto_laws cr" and good: "good_message cr rd crd address seed t to callID m"
    and t: "signs_payload t" "plain_text callID"
  obtains p where "DecodeSignal (marshal_signal m) (server_validator (rd_now rd k)) = Inr m"
    "Verify cr m (rd_now rd l) = Inr (p, ed25519_public cr seed, Fingerprint cr (ed25519_public cr seed))"
    "pf_Nonce p = cr_nonce crd" "pf_ExpiresAt p = cr_signed crd + 2 * minute" "sm_from m = address"
    "sm_to m = to" "sm_type m = t" "sm_call_id m = callID" "sm_id m = cr_uuid crd"
proof -
  from good have seed: "length seed = 32" and uuid: "validUUID (cr_nonce crd)"
    and addr: "AddressMatchesKey cr address (ed25519_public cr seed)"
    and m: "NewMessage cr crd address (Generate cr seed) t to callID None = Inr m"
    and years: "year_of (cr_created crd) \<in> {0..9999}" "year_of (cr_signed crd + 2 * minute) \<in> {0..9999}"
      "cr_signed crd + 2 * minute \<noteq> 0"
    and size: "length (marshal_signal m) \<le> MaxSignalMessageSize"
    and fresh: "\<And>k. rd_now rd k - 24 * hour \<le> cr_created crd" "\<And>k. cr_created crd \<le> rd_now rd k + 5 * minute"
      "\<And>k. cr_signed crd - minute \<le> rd_now rd k" "\<And>k. rd_now rd k \<le> cr_signed crd + 2 * minute"
    by (auto simp: good_message_def)
  obtain p where p: "Sign cr (cr_nonce crd) (Generate cr seed) t callID address to (cr_signed crd) = Some p"
    and msg: "m = \<lparr>sm_version = ProtocolVersion, sm_id = cr_uuid crd, sm_type = t,
       sm_timestamp = cr_created crd, sm_call_id = callID, sm_from = address, sm_to = to, sm_payload = marshal_proof p\<rparr>"
    and val: "ValidateSignal (NewValidator (cr_checked crd)) m = None"
    using NewMessage_signed[OF m t(1)] by blast
  have "DecodeSignal (marshal_signal m) (server_validator (rd_now rd k)) = Inr m"
  proof (rule decode_written)
    show "ValidateSignal (server_validator (rd_now rd k)) m = None"
      by (rule ValidateSignal_later[OF val]) (use fresh in \<open>simp_all add: msg\<close>)
    have "reads 1 (marshal_proof p) (JObject (proof_members p))"
      by (rule reads_marshal_proof[OF Sign_plain[OF laws seed uuid p years(2)]]) (simp add: max_nesting_def)
    then show "sm_payload m = [] \<or> reads 1 (sm_payload m) (JObject (proof_members p))" by (simp add: msg)
    show "length (marshal_signal m) \<le> (if IsSDP (sm_type m) then MaxSDPMessageSize else MaxSignalMessageSize)"
      using size t(1) by (auto simp: msg signs_payload_def)
  qed (use years t in \<open>auto simp: msg known_signals_def signs_payload_def\<close>)
  moreover have "Verify cr m (rd_now rd l) = Inr (p, ed25519_public cr seed, Fingerprint cr (ed25519_public cr seed))"
    using sign_verify[OF laws seed uuid, where m = m and ?t0.0 = "cr_signed crd" and p = p and now = "rd_now rd l"]
      p addr fresh years by (simp add: msg)
  moreover have "pf_Nonce p = cr_nonce crd" "pf_ExpiresAt p = cr_signed crd + 2 * minute"
    using Sign_fields[OF p] by (simp_all add: proofLifetime_def)
  ultimately show ?thesis using that by (simp add: msg)
qed

abbreviation good_hello :: "crypto \<Rightarrow> readings \<Rightarrow> client_readings \<Rightarrow> string \<Rightarrow> string \<Rightarrow> signal_message \<Rightarrow> bool" where
  "good_hello cr rd crd address seed m \<equiv> good_message cr rd crd address seed SignalSessionHello [] [] m"

definition admits :: "readings \<Rightarrow> server \<Rightarrow> string \<Rightarrow> string \<Rightarrow> string \<Rightarrow> time \<Rightarrow> bool" where
  "admits rd s address fp nonce expiry \<longleftrightarrow> sv_presence s address = None \<and>
     (sv_suffixes s (take 12 fp) = None \<or> sv_suffixes s (take 12 fp) = Some fp) \<and>
     snd (replay_accept fp nonce expiry (rd_now rd 3) (sv_replays s))"

lemma hello_enters:
  assumes laws: "crypto_laws cr" and good: "good_hello cr rd crd address seed m"
    and free: "admits rd s address fp (cr_nonce crd) (cr_signed crd + 2 * minute)"
    and fp: "fp = Fingerprint cr (ed25519_public cr seed)"
    and conn: "\<not> cc_done (sv_conns s i)" "cc_send (sv_conns s i) = []" "0 < cc_queue_size (sv_conns s i)"
  defines "ready \<equiv> server_message rd 5 SignalSessionReady ''server'' address [] (ready_payload (sc_STUNURLs (sv_config s)))"
    and "g \<equiv> fst (replay_accept fp (cr_nonce crd) (cr_signed crd + 2 * minute) (rd_now rd 3) (sv_replays s))"
  shows "handshake cr rd i (TextFrame (marshal_signal m)) s =
    (fst (deliver_conn rd 5 i ready (entered rd i address fp g s)), True)" and
    "cc_send (sv_conns (fst (deliver_conn rd 5 i ready (entered rd i address fp g s))) i) = [ready]"
proof -
  obtain p where p: "DecodeSignal (marshal_signal m) (server_validator (rd_now rd 0)) = Inr m"
    "Verify cr m (rd_now rd 2) = Inr (p, ed25519_public cr seed, fp)"
    "pf_Nonce p = cr_nonce crd" "pf_ExpiresAt p = cr_signed crd + 2 * minute" "sm_from m = address"
    "sm_type m = SignalSessionHello"
    using good_message_facts[OF laws good, where k = 0 and l = 2] unfolding fp
    by (auto simp: signs_payload_def plain_text_def)
  have acc: "replay_accept fp (cr_nonce crd) (cr_signed crd + 2 * minute) (rd_now rd 3) (sv_replays s) = (g, True)"
    using free by (simp add: g_def admits_def prod_eq_iff)
  have sfx: "sv_suffixes s (take 12 fp) = None \<or> sv_suffixes s (take 12 fp) = Some fp" "sv_presence s address = None"
    using free by (simp_all add: admits_def)
  have room: "deliver_conn rd 5 i ready (entered rd i address fp g s) = (u, e) \<Longrightarrow> e = None \<and> cc_send (sv_conns u i) = [ready]" for u e
    using conn by (auto simp: deliver_conn_def entered_def conn_deliver_def Let_def)
  obtain u e where u: "deliver_conn rd 5 i ready (entered rd i address fp g s) = (u, e)" by fastforce
  have "handshake cr rd i (TextFrame (marshal_signal m)) s = (u, e = None)"
    using sfx u
    by (auto simp: handshake_def p acc Let_def AddressSuffixLength_def Register_def on_conn_def conn_touch_def
        entered_def ready_def fun_upd_idem)
  with room[OF u] u show "handshake cr rd i (TextFrame (marshal_signal m)) s =
      (fst (deliver_conn rd 5 i ready (entered rd i address fp g s)), True)"
    "cc_send (sv_conns (fst (deliver_conn rd 5 i ready (entered rd i address fp g s))) i) = [ready]" by simp_all
qed

text \<open>
  C11: The hello a client builds for its own address is let in: with clocks that agree within the
  validity of its proof, a nonce not presented before, and an address and suffix not taken by
  another, the waiting connection is served under that address and is sent \<open>session.ready\<close>.
\<close>

theorem hello_is_served:
  assumes "crypto_laws cr" "server_reachable cr config s" "sv_phase s i = Awaiting" "\<not> cc_done (sv_conns s i)"
    "good_hello cr rd crd address seed m" "fp = Fingerprint cr (ed25519_public cr seed)"
    "admits rd s address fp (cr_nonce crd) (cr_signed crd + 2 * minute)"
  shows "let s' = server_step cr rd (EvHello i (TextFrame (marshal_signal m))) s in
    sv_phase s' i = Serving \<and> sv_presence s' address = Some i \<and> sv_suffixes s' (take 12 fp) = Some fp \<and>
    (\<exists>ready. cc_send (sv_conns s' i) = [ready] \<and> sm_type ready = SignalSessionReady \<and> sm_to ready = address)"
proof -
  note inv = server_reachable_inv[OF assms(1,2)]
  have conn: "cc_send (sv_conns s i) = []" "0 < cc_queue_size (sv_conns s i)"
    using server_invD(3,6)[OF inv, of i] assms(3) fill_config_queue[of config] server_reachable_config[OF assms(1,2)]
    by (simp_all add: conn_ok_def)
  note H = hello_enters[OF assms(1,5,7,6,4) conn]
  have pres: "sv_presence (fst (deliver_conn rd 5 i r (entered rd i address fp g s))) address = Some i"
    "sv_suffixes (fst (deliver_conn rd 5 i r (entered rd i address fp g s))) (take 12 fp) = Some fp" for r g
    by (simp_all add: deliver_conn_def split_beta Let_def entered_def)
  show ?thesis
    using assms(3) H(2) pres by (simp add: serve_hello_def H(1) Let_def)
qed

subsection \<open>Two clients\<close>

definition demo_nonce :: string where "demo_nonce = ''11234567-89ab-4cde-8f01-23456789abcd''"
definition demo_seed_2 :: string where "demo_seed_2 = ''ABCDEF0123456789abcdef0123456789''"
definition demo_callee :: string where
  "demo_callee = the (CanonicalAddress demo_crypto ''dave'' (ed25519_public demo_crypto demo_seed_2))"

definition demo_readings :: readings where
  "demo_readings = \<lparr>rd_now = (\<lambda>k. demo_now), rd_uuid = (\<lambda>k. demo_uuid), rd_pick = (\<lambda>k. True), rd_text = []\<rparr>"

definition demo_client :: "string \<Rightarrow> client_readings" where
  "demo_client nonce = \<lparr>cr_uuid = demo_uuid, cr_nonce = nonce, cr_created = demo_now, cr_signed = demo_now,
     cr_checked = demo_now\<rparr>"

definition demo_message :: "string \<Rightarrow> string \<Rightarrow> string \<Rightarrow> signal_type \<Rightarrow> string \<Rightarrow> string \<Rightarrow> signal_message" where
  "demo_message address seed nonce t to callID = projr (NewMessage demo_crypto (demo_client nonce) address
     (Generate demo_crypto seed) t to callID None)"

abbreviation demo_hello :: "string \<Rightarrow> string \<Rightarrow> string \<Rightarrow> signal_message" where
  "demo_hello address seed nonce \<equiv> demo_message address seed nonce SignalSessionHello [] []"

definition demo_built :: "string \<Rightarrow> string \<Rightarrow> string \<Rightarrow> signal_type \<Rightarrow> string \<Rightarrow> string \<Rightarrow> bool" where
  "demo_built address seed nonce t to callID = (case NewMessage demo_crypto (demo_client nonce) address
       (Generate demo_crypto seed) t to callID None of
     Inl e \<Rightarrow> False | Inr m \<Rightarrow> length (marshal_signal m) \<le> MaxSignalMessageSize)"

lemma demo_hellos_built:
  "demo_built demo_caller demo_seed demo_uuid SignalSessionHello [] []"
  "demo_built demo_callee demo_seed_2 demo_nonce SignalSessionHello [] []"
  "demo_built demo_caller demo_seed demo_nonce SignalCallInvite demo_callee demo_uuid"
  by code_simp+

lemma demo_clock:
  "year_of demo_now \<in> {0..9999}" "year_of (demo_now + 2 * minute) \<in> {0..9999}" "demo_now + 2 * minute \<noteq> 0"
proof -
  have "0 \<le> year_of demo_now \<and> year_of demo_now \<le> 9999 \<and> 0 \<le> year_of (demo_now + 2 * minute) \<and>
    year_of (demo_now + 2 * minute) \<le> 9999 \<and> demo_now + 2 * minute \<noteq> 0" by code_simp
  then show "year_of demo_now \<in> {0..9999}" "year_of (demo_now + 2 * minute) \<in> {0..9999}" "demo_now + 2 * minute \<noteq> 0"
    by auto
qed

lemma demo_good_message:
  assumes "demo_built address seed nonce t to callID" "length seed = 32" "validUUID nonce"
    "AddressMatchesKey demo_crypto address (ed25519_public demo_crypto seed)"
  shows "good_message demo_crypto demo_readings (demo_client nonce) address seed t to callID
    (demo_message address seed nonce t to callID)"
  using assms demo_clock
  by (auto simp: good_message_def demo_built_def demo_message_def demo_client_def demo_readings_def duration_defs
      split: sum.splits)

lemma demo_dave: "ValidBaseName ''dave''" by code_simp

lemma demo_addresses:
  "AddressMatchesKey demo_crypto demo_caller (ed25519_public demo_crypto demo_seed)"
  "AddressMatchesKey demo_crypto demo_callee (ed25519_public demo_crypto demo_seed_2)"
  using demo_caller_facts(2) canonical_facts[OF demo_crypto_laws demo_dave, of "ed25519_public demo_crypto demo_seed_2"]
  by (auto simp: demo_public demo_callee_def)

definition demo_fp_1 :: string where "demo_fp_1 = Fingerprint demo_crypto (ed25519_public demo_crypto demo_seed)"
definition demo_fp_2 :: string where "demo_fp_2 = Fingerprint demo_crypto (ed25519_public demo_crypto demo_seed_2)"

lemma demo_hellos:
  "good_hello demo_crypto demo_readings (demo_client demo_uuid) demo_caller demo_seed (demo_hello demo_caller demo_seed demo_uuid)"
  "good_hello demo_crypto demo_readings (demo_client demo_nonce) demo_callee demo_seed_2 (demo_hello demo_callee demo_seed_2 demo_nonce)"
proof -
  have uuids: "validUUID demo_uuid" "validUUID demo_nonce" by code_simp+
  have seeds: "length demo_seed = 32" "length demo_seed_2 = 32" by (simp_all add: demo_seed_def demo_seed_2_def)
  show "good_hello demo_crypto demo_readings (demo_client demo_uuid) demo_caller demo_seed (demo_hello demo_caller demo_seed demo_uuid)"
    "good_hello demo_crypto demo_readings (demo_client demo_nonce) demo_callee demo_seed_2 (demo_hello demo_callee demo_seed_2 demo_nonce)"
    using demo_good_message demo_hellos_built demo_addresses uuids seeds by simp_all
qed

lemma demo_different:
  "demo_caller \<noteq> demo_callee" "take 12 demo_fp_1 \<noteq> take 12 demo_fp_2" "demo_uuid \<noteq> demo_nonce"
  by code_simp+

text \<open>Both connect, then both say hello.\<close>

definition demo_events :: "server_event list" where
  "demo_events = [EvConnect [], EvConnect [],
     EvHello 0 (TextFrame (marshal_signal (demo_hello demo_caller demo_seed demo_uuid))),
     EvHello 1 (TextFrame (marshal_signal (demo_hello demo_callee demo_seed_2 demo_nonce)))]"

definition demo_state :: "nat \<Rightarrow> server" where
  "demo_state n = fold (server_step demo_crypto demo_readings) (take n demo_events) (server_new DefaultConfig)"

lemma demo_state_Suc:
  "n < length demo_events \<Longrightarrow> demo_state (Suc n) = server_step demo_crypto demo_readings (demo_events ! n) (demo_state n)"
  by (simp add: demo_state_def take_Suc_conv_app_nth)

lemma demo_state_reachable: "n \<le> 4 \<Longrightarrow> server_reachable demo_crypto DefaultConfig (demo_state n)"
proof (induction n)
  case 0
  then show ?case by (simp add: demo_state_def server_reachable.start)
next
  case (Suc n)
  then have n: "n < length demo_events" "\<forall>order. demo_events ! n \<noteq> EvTimeouts order"
    by (auto simp: demo_events_def nth_Cons split: nat.split)
  have "server_reachable demo_crypto DefaultConfig (server_step demo_crypto demo_readings (demo_events ! n) (demo_state n))"
    by (rule server_reachable.step) (use Suc n(2) in auto)
  with n(1) show ?case by (simp add: demo_state_Suc)
qed

lemma demo_waiting:
  "sv_phase (demo_state 2) 0 = Awaiting" "sv_phase (demo_state 2) (Suc 0) = Awaiting"
  "sv_conns (demo_state 2) j = server_connection (fill_config DefaultConfig)"
  "sv_presence (demo_state 2) = Map.empty" "sv_suffixes (demo_state 2) = Map.empty"
  "sv_replays (demo_state 2) = replay_new" "sv_cancelled (demo_state 2) = False"
  "sv_calls (demo_state 2) = sv_calls (server_new DefaultConfig)"
  "sv_user_invites (demo_state 2) = sv_user_invites (server_new DefaultConfig)"
proof -
  have "demo_state 2 = fold (server_step demo_crypto demo_readings) [EvConnect [], EvConnect []] (server_new DefaultConfig)"
    by (simp add: demo_state_def demo_events_def numeral_2_eq_2)
  moreover have "Authorize (sc_Access (fill_config DefaultConfig)) []"
    by (simp add: fill_config_def DefaultConfig_def Authorize_def)
  ultimately show "sv_phase (demo_state 2) 0 = Awaiting" "sv_phase (demo_state 2) (Suc 0) = Awaiting"
    "sv_conns (demo_state 2) j = server_connection (fill_config DefaultConfig)"
    "sv_presence (demo_state 2) = Map.empty" "sv_suffixes (demo_state 2) = Map.empty"
    "sv_replays (demo_state 2) = replay_new" "sv_cancelled (demo_state 2) = False"
    "sv_calls (demo_state 2) = sv_calls (server_new DefaultConfig)"
    "sv_user_invites (demo_state 2) = sv_user_invites (server_new DefaultConfig)"
    by (simp_all add: server_new_def handleWebSocket_def registry_new_def Let_def del: One_nat_def)
qed

lemma demo_conn:
  "\<not> cc_done (server_connection (fill_config DefaultConfig))"
  "cc_send (server_connection (fill_config DefaultConfig)) = []"
  "cc_queue_size (server_connection (fill_config DefaultConfig)) = 64"
  by (simp_all add: server_connection_def newClientConnection_def fill_config_def DefaultConfig_def positive_or_def)

lemma demo_seen:
  "cc_seen_ids (server_connection (fill_config DefaultConfig)) = {}"
  "cc_invites (server_connection (fill_config DefaultConfig)) = newFixedWindowLimiter 5 minute"
  by (simp_all add: server_connection_def newClientConnection_def fill_config_def DefaultConfig_def positive_or_def)

lemma deliver_window:
  "cc_seen_ids (fst (conn_deliver b m c)) = cc_seen_ids c" "cc_invites (fst (conn_deliver b m c)) = cc_invites c"
  by (simp_all add: conn_deliver_def Let_def)

lemma serve_hello_enters:
  assumes "crypto_laws cr" "good_hello cr rd crd address seed m"
    "admits rd s address fp (cr_nonce crd) (cr_signed crd + 2 * minute)"
    "fp = Fingerprint cr (ed25519_public cr seed)"
    "\<not> cc_done (sv_conns s i)" "cc_send (sv_conns s i) = []" "0 < cc_queue_size (sv_conns s i)"
  defines "t \<equiv> serve_hello cr rd i (TextFrame (marshal_signal m)) s"
  shows "sv_phase t = (sv_phase s)(i := Serving)" "sv_presence t = (sv_presence s)(address \<mapsto> i)"
    "sv_suffixes t = (sv_suffixes s)(take 12 fp \<mapsto> fp)" "j \<noteq> i \<Longrightarrow> sv_conns t j = sv_conns s j"
    "sv_replays t = fst (replay_accept fp (cr_nonce crd) (cr_signed crd + 2 * minute) (rd_now rd 3) (sv_replays s))"
    "sv_calls t = sv_calls s" "sv_cancelled t = sv_cancelled s"
    "cc_username (sv_conns t i) = address" "cc_fingerprint (sv_conns t i) = fp"
    "length (cc_send (sv_conns t i)) = 1" "cc_done (sv_conns t i) = False"
    "cc_queue_size (sv_conns t i) = cc_queue_size (sv_conns s i)"
    "cc_seen_ids (sv_conns t i) = cc_seen_ids (sv_conns s i)" "cc_invites (sv_conns t i) = cc_invites (sv_conns s i)"
    "sv_user_invites t = sv_user_invites s"
  using hello_enters(2)[OF assms(1-7)] assms(5)
  by (simp_all add: t_def serve_hello_def hello_enters(1)[OF assms(1-7)] deliver_conn_def split_beta Let_def
      entered_def conn_steps deliver_window)

lemma demo_reading: "rd_now demo_readings k = demo_now"
  by (simp add: demo_readings_def)

lemma demo_client_fields: "cr_nonce (demo_client n) = n" "cr_signed (demo_client n) = demo_now"
  by (simp_all add: demo_client_def)

lemma demo_first_admitted:
  "admits demo_readings (demo_state 2) demo_caller demo_fp_1 (cr_nonce (demo_client demo_uuid))
     (cr_signed (demo_client demo_uuid) + 2 * minute)"
  by (simp add: admits_def demo_waiting demo_client_fields demo_reading replay_eval del: fmlookup_prune)

lemma demo_step_3: "demo_state 3 = serve_hello demo_crypto demo_readings 0
    (TextFrame (marshal_signal (demo_hello demo_caller demo_seed demo_uuid))) (demo_state 2)"
  using demo_state_Suc[of 2] by (simp add: demo_events_def demo_waiting)

lemmas demo_one = serve_hello_enters[OF demo_crypto_laws demo_hellos(1) demo_first_admitted demo_fp_1_def,
    of 0, unfolded demo_waiting(3), OF demo_conn(1,2), unfolded demo_conn(3), OF zero_less_numeral,
    folded demo_step_3]

lemma demo_second_admitted:
  "admits demo_readings (demo_state 3) demo_callee demo_fp_2 (cr_nonce (demo_client demo_nonce))
     (cr_signed (demo_client demo_nonce) + 2 * minute)"
proof -
  have len: "length demo_fp_1 = 52" "length demo_fp_2 = 52"
    by (simp_all add: demo_fp_1_def demo_fp_2_def length_fingerprint demo_crypto_laws)
  have "take 12 (demo_fp_1 @ nul # demo_uuid) \<noteq> take 12 (demo_fp_2 @ nul # demo_nonce)"
    using demo_different(2) len by simp
  then have "demo_fp_1 @ nul # demo_uuid \<noteq> demo_fp_2 @ nul # demo_nonce" by fastforce
  then show ?thesis using demo_different
    by (simp add: admits_def demo_one demo_waiting demo_client_fields demo_reading replay_eval duration_defs
        del: fmlookup_prune)
qed

lemma demo_conn_2: "sv_conns (demo_state 3) 1 = server_connection (fill_config DefaultConfig)"
  using demo_one(4)[of 1] demo_waiting(3)[of 1] by simp

lemma demo_step_4: "demo_state 4 = serve_hello demo_crypto demo_readings 1
    (TextFrame (marshal_signal (demo_hello demo_callee demo_seed_2 demo_nonce))) (demo_state 3)"
  using demo_state_Suc[of 3] by (simp add: demo_events_def demo_one(1) demo_waiting(2))

lemmas demo_two = serve_hello_enters[OF demo_crypto_laws demo_hellos(2) demo_second_admitted demo_fp_2_def,
    of 1, unfolded demo_conn_2, OF demo_conn(1,2), unfolded demo_conn(3), OF zero_less_numeral,
    folded demo_step_4]

lemma demo_served:
  "sv_phase (demo_state 4) 0 = Serving" "sv_phase (demo_state 4) 1 = Serving"
  "sv_presence (demo_state 4) = [demo_caller \<mapsto> 0, demo_callee \<mapsto> 1]"
  "cc_username (sv_conns (demo_state 4) 0) = demo_caller" "cc_username (sv_conns (demo_state 4) 1) = demo_callee"
  "cc_fingerprint (sv_conns (demo_state 4) 0) = demo_fp_1"
  "sv_calls (demo_state 4) = sv_calls (server_new DefaultConfig)" "sv_cancelled (demo_state 4) = False"
  "sv_user_invites (demo_state 4) = sv_user_invites (server_new DefaultConfig)"
  "cc_seen_ids (sv_conns (demo_state 4) 0) = {}"
  "cc_invites (sv_conns (demo_state 4) 0) = newFixedWindowLimiter 5 minute"
  "length (cc_send (sv_conns (demo_state 4) 0)) = 1" "length (cc_send (sv_conns (demo_state 4) 1)) = 1"
  "\<not> cc_done (sv_conns (demo_state 4) 0)" "\<not> cc_done (sv_conns (demo_state 4) 1)"
  "cc_queue_size (sv_conns (demo_state 4) 0) = 64" "cc_queue_size (sv_conns (demo_state 4) 1) = 64"
  using demo_two(4)[of 0]
  by (simp_all add: demo_one demo_two demo_waiting demo_conn demo_seen del: One_nat_def)

definition demo_invitation :: signal_message where
  "demo_invitation = demo_message demo_caller demo_seed demo_nonce SignalCallInvite demo_callee demo_uuid"

lemma demo_good_invitation:
  "good_message demo_crypto demo_readings (demo_client demo_nonce) demo_caller demo_seed SignalCallInvite
     demo_callee demo_uuid demo_invitation"
proof -
  have "validUUID demo_nonce" "length demo_seed = 32" by (code_simp, simp add: demo_seed_def)
  then show ?thesis unfolding demo_invitation_def
    using demo_good_message[OF demo_hellos_built(3)] demo_addresses(1) by simp
qed

lemma demo_second_replays:
  "snd (replay_accept demo_fp_1 demo_nonce (demo_now + 2 * minute) demo_now (sv_replays (demo_state 4)))"
proof -
  have "take 12 (demo_fp_1 @ nul # demo_nonce) \<noteq> take 12 (demo_fp_2 @ nul # demo_nonce)"
    using demo_different(2) by (simp add: demo_fp_1_def demo_fp_2_def length_fingerprint demo_crypto_laws)
  then have "demo_fp_1 @ nul # demo_nonce \<noteq> demo_fp_2 @ nul # demo_nonce" by fastforce
  then show ?thesis using demo_different
    by (simp add: demo_one demo_two demo_waiting demo_client_fields demo_reading replay_eval duration_defs
        del: fmlookup_prune)
qed

theorem hello_is_served_witness:
  "sv_phase (demo_state 3) 0 = Serving \<and> sv_presence (demo_state 3) demo_caller = Some 0"
proof -
  have "sv_phase (demo_state 2) 0 = Awaiting" "\<not> cc_done (sv_conns (demo_state 2) 0)"
    using demo_waiting demo_conn by simp_all
  from hello_is_served[OF demo_crypto_laws demo_state_reachable this demo_hellos(1) demo_fp_1_def demo_first_admitted]
    demo_step_3 this(1)
  show ?thesis by (simp add: Let_def)
qed

end
