(* ===== verification/Server_Properties.thy ===== *)
theory Server_Properties
  imports Handshake
begin

text \<open>The properties of the signaling server, over its reachable states.\<close>

subsection \<open>Who is served\<close>

lemma server_disconnect_suffixes: "sv_suffixes (server_disconnect rd i s) = sv_suffixes s"
proof (cases "cc_registered (sv_conns s i)")
  case True
  have "sv_suffixes (end_calls rd k u cs t) = sv_suffixes t" for k u cs t
    using effects_frame[OF end_calls_effects[of t u rd k cs]] by (simp add: same_frame_def)
  then show ?thesis using True by (simp add: server_disconnect_registered Let_def removed_def)
qed (simp add: server_disconnect_def on_conn_def conn_steps Let_def)

lemma serve_hello_suffixes: "sv_suffixes s \<subseteq>\<^sub>m sv_suffixes (serve_hello cr rd i frame s)"
proof -
  obtain t ok where h: "handshake cr rd i frame s = (t, ok)" by fastforce
  from h have "sv_suffixes s \<subseteq>\<^sub>m sv_suffixes t"
  proof (cases rule: handshake_cases)
    case stopped
    then show ?thesis by (auto simp: noted_def)
  next
    case (entered hello p key fp g e)
    have same: "deliver_conn rd k i m u = (v, r) \<Longrightarrow> sv_suffixes v = sv_suffixes u" for k m u v r
      by (auto simp: deliver_conn_def split_beta Let_def)
    show ?thesis using same[OF entered(5)] entered(2) by (auto simp: entered_def map_le_def)
  qed
  then show ?thesis by (cases ok) (simp_all add: serve_hello_def h server_disconnect_suffixes)
qed

lemma server_step_suffixes:
  assumes "server_inv s"
  shows "sv_suffixes s \<subseteq>\<^sub>m sv_suffixes (server_step cr rd ev s)"
proof (cases ev)
  case (EvFrame i frame)
  show ?thesis
  proof (cases "sv_phase s i = Serving \<and> frame \<noteq> ReadFailed")
    case True
    then have "sv_presence s (cc_username (sv_conns s i)) \<noteq> None"
      using presence_exactD[OF server_invD(2)[OF assms]] by blast
    from effects_frame[OF serve_frame_effects[OF this]] True EvFrame show ?thesis by (simp add: same_frame_def)
  qed (auto simp: EvFrame serve_frame_def server_disconnect_suffixes)
next
  case (EvTimeouts order)
  then show ?thesis using effects_frame[OF sweep_effects[of s rd order]] by (simp add: same_frame_def)
qed (simp_all add: handleWebSocket_def Let_def serve_hello_suffixes on_conn_def Shutdown_def)

text \<open>
  C4: In every reachable state the registry lists exactly the connections in the message loop,
  each under its own valid address, whose suffix is the start of the fingerprint it proved; two
  served connections with the same suffix have proved the same key, and no later step gives a
  suffix to another key.
\<close>

theorem served_identities:
  assumes "crypto_laws cr" "server_reachable cr config s"
  shows "(sv_presence s u = Some j \<longleftrightarrow> sv_phase s j = Serving \<and> cc_username (sv_conns s j) = u) \<and>
    (sv_phase s j = Serving \<longrightarrow> ValidAddress (cc_username (sv_conns s j)) \<and>
       suffix_of (cc_username (sv_conns s j)) = take 12 (cc_fingerprint (sv_conns s j)) \<and>
       (\<forall>k. sv_phase s k = Serving \<and>
            suffix_of (cc_username (sv_conns s k)) = suffix_of (cc_username (sv_conns s j)) \<longrightarrow>
          cc_fingerprint (sv_conns s k) = cc_fingerprint (sv_conns s j))) \<and>
    (sv_suffixes s x = Some fp \<longrightarrow> sv_suffixes (server_step cr rd ev s) x = Some fp)"
proof -
  note inv = server_reachable_inv[OF assms]
  have conn: "sv_phase s k = Serving \<Longrightarrow> ValidAddress (cc_username (sv_conns s k)) \<and>
      suffix_of (cc_username (sv_conns s k)) = take 12 (cc_fingerprint (sv_conns s k)) \<and>
      sv_suffixes s (take 12 (cc_fingerprint (sv_conns s k))) = Some (cc_fingerprint (sv_conns s k))" for k
    using server_invD(3)[OF inv, of k] by (simp add: conn_ok_def)
  have "sv_suffixes s x = Some fp \<Longrightarrow> sv_suffixes (server_step cr rd ev s) x = Some fp"
    using server_step_suffixes[OF inv, of cr rd ev] by (metis domI map_le_def)
  moreover have "cc_fingerprint (sv_conns s k) = cc_fingerprint (sv_conns s j)"
    if "sv_phase s j = Serving" "sv_phase s k = Serving"
      "suffix_of (cc_username (sv_conns s k)) = suffix_of (cc_username (sv_conns s j))" for k
    using conn[OF that(1)] conn[OF that(2)] that(3) by simp
  ultimately show ?thesis
    using conn presence_exactD[OF server_invD(2)[OF inv]] by blast
qed

theorem served_identities_witness:
  "sv_phase (demo_state 4) 0 = Serving \<and> ValidAddress demo_caller \<and> suffix_of demo_caller = take 12 demo_fp_1"
  using served_identities[OF demo_crypto_laws demo_state_reachable, of 4 _ 0] demo_served by simp

subsection \<open>Queues\<close>

text \<open>
  C6: No outbound queue ever holds more messages than configured, and every message in it is
  addressed to the user of its connection.
\<close>

theorem queues_bounded:
  assumes "crypto_laws cr" "server_reachable cr config s"
  shows "int (length (cc_send (sv_conns s j))) \<le> sc_QueueSize (fill_config config) \<and>
    (m \<in> set (cc_send (sv_conns s j)) \<longrightarrow> sm_to m = cc_username (sv_conns s j))"
proof -
  note inv = server_reachable_inv[OF assms]
  show ?thesis
    using server_invD(3,6)[OF inv, of j] fill_config_queue[of config]
    by (auto simp: conn_ok_def queue_ok_def server_reachable_config[OF assms])
qed

theorem queues_bounded_witness:
  "length (cc_send (sv_conns (demo_state 4) 1)) \<le> 64"
  using queues_bounded[OF demo_crypto_laws demo_state_reachable, of 4 1]
  by (simp add: fill_config_def DefaultConfig_def positive_or_def)

subsection \<open>Nobody speaks for another\<close>

lemma removed_queues: "cc_send (sv_conns (removed rd i s) j) = cc_send (sv_conns s j)"
  "cc_username (sv_conns (removed rd i s) j) = cc_username (sv_conns s j)"
  by (simp_all add: removed_def Let_def conn_steps)

definition heard :: "server \<Rightarrow> server \<Rightarrow> nat \<Rightarrow> nat \<Rightarrow> bool" where
  "heard s s' i j \<longleftrightarrow> (\<exists>new. cc_send (sv_conns s' j) = cc_send (sv_conns s j) @ new \<and>
     (\<forall>m \<in> set new. sm_from m = cc_username (sv_conns s' i) \<and> sm_to m = cc_username (sv_conns s j)))"

lemma effects_heard:
  assumes "server_inv s" "effects A s t" "j \<noteq> i"
    "\<And>k m. k \<noteq> i \<Longrightarrow> A k m \<Longrightarrow> sm_from m = cc_username (sv_conns s i) \<and> sv_presence s (sm_to m) = Some k"
  shows "heard s t i j"
proof -
  obtain new where new: "cc_send (sv_conns t j) = cc_send (sv_conns s j) @ new" "\<forall>m \<in> set new. A j m"
    using effects_grow[OF assms(2)] by (auto simp: queues_grow_def)
  have "cc_username (sv_conns t i) = cc_username (sv_conns s i)"
    using effects_frame[OF assms(2)] by (simp add: same_frame_def)
  moreover have "sm_to m = cc_username (sv_conns s j)" if "sv_presence s (sm_to m) = Some j" for m
    using presence_exactD[OF server_invD(2)[OF assms(1)]] that by simp
  ultimately show ?thesis using new assms(3,4) unfolding heard_def by metis
qed

lemma disconnect_heard:
  assumes inv: "server_inv s" and serving: "sv_phase s i = Serving" and "j \<noteq> i"
  shows "heard s (server_disconnect rd i s) i j"
proof -
  have "heard (removed rd i s) (server_disconnect rd i s) i j"
    by (rule effects_heard[OF removed_inv[OF inv serving] server_disconnect_serving(1)[OF inv serving] assms(3)])
      (simp_all add: removed_queues)
  then show ?thesis by (simp add: heard_def removed_queues)
qed

lemma heard_trans:
  "heard s t i j \<Longrightarrow> heard t u i j \<Longrightarrow> cc_username (sv_conns t j) = cc_username (sv_conns s j) \<Longrightarrow>
   cc_username (sv_conns u i) = cc_username (sv_conns t i) \<Longrightarrow> heard s u i j"
  unfolding heard_def by (metis append_assoc set_append Un_iff)

lemma server_disconnect_usernames: "cc_username (sv_conns (server_disconnect rd i s) j) = cc_username (sv_conns s j)"
proof (cases "cc_registered (sv_conns s i)")
  case True
  have "cc_username (sv_conns (end_calls rd k u cs t) j) = cc_username (sv_conns t j)" for k u cs t
    using effects_frame[OF end_calls_effects[of t u rd k cs]] by (simp add: same_frame_def)
  then show ?thesis using True by (simp add: server_disconnect_registered Let_def removed_queues)
qed (simp add: server_disconnect_def on_conn_def conn_steps Let_def)

lemma hello_heard:
  assumes inv: "server_inv s" and await: "sv_phase s i = Awaiting" and laws: "crypto_laws cr" and "j \<noteq> i"
  shows "heard s (serve_hello cr rd i frame s) i j"
  using inv await laws
proof (cases rule: serve_hello_cases[where rd = rd and frame = frame])
  case (stopped t)
  have "\<not> cc_registered (sv_conns t i)" "sv_conns t j = sv_conns s j"
    using stopped(2) server_invD(3)[OF inv, of i] await \<open>j \<noteq> i\<close> by (auto simp: noted_def conn_ok_def)
  then have "cc_send (sv_conns (server_disconnect rd i t) j) = cc_send (sv_conns s j)"
    using \<open>j \<noteq> i\<close> by (simp add: server_disconnect_def on_conn_def conn_steps Let_def)
  then show ?thesis by (simp add: heard_def stopped(3))
next
  case (serves hello fp g t)
  let ?s1 = "serving i (entered rd i (sm_from hello) fp g s)"
  have same: "sv_conns ?s1 j = sv_conns s j" using \<open>j \<noteq> i\<close> by (simp add: serving_def entered_def)
  have "heard ?s1 t i j"
    by (rule effects_heard[OF serves(1,5) \<open>j \<noteq> i\<close>]) (auto simp: speaks_def)
  then have h: "heard s t i j" by (simp add: heard_def same)
  have name: "cc_username (sv_conns t j) = cc_username (sv_conns s j)"
    using effects_frame[OF serves(5)] same by (simp add: same_frame_def)
  from serves(6) show ?thesis
  proof
    assume "serve_hello cr rd i frame s = server_disconnect rd i t"
    then show ?thesis
      using heard_trans[OF h disconnect_heard[OF serves(3,4) \<open>j \<noteq> i\<close>] name server_disconnect_usernames] by simp
  qed (simp add: h)
qed

text \<open>
  C5: Whatever a connection sends, whether its hello, a message of any kind, or by going away,
  the queue of another connection only grows at its end, and only by messages that name the
  sender's own address as their sender and the receiving user as their recipient.
\<close>

theorem no_impersonation:
  assumes "crypto_laws cr" "server_reachable cr config s" "ev = EvHello i frame \<or> ev = EvFrame i frame" "j \<noteq> i"
  shows "\<exists>new. cc_send (sv_conns (server_step cr rd ev s) j) = cc_send (sv_conns s j) @ new \<and>
    (\<forall>m \<in> set new. sm_from m = cc_username (sv_conns (server_step cr rd ev s) i) \<and>
       sm_to m = cc_username (sv_conns s j))"
proof -
  note inv = server_reachable_inv[OF assms(1,2)]
  have idle: "heard s s i j" by (simp add: heard_def)
  have "heard s (serve_frame cr rd i frame s) i j" if "sv_phase s i = Serving"
  proof (cases "frame = ReadFailed")
    case True
    then show ?thesis using disconnect_heard[OF inv that assms(4)] by (simp add: serve_frame_def)
  next
    case False
    have "sv_presence s (cc_username (sv_conns s i)) \<noteq> None"
      using presence_exactD[OF server_invD(2)[OF inv]] that by blast
    from serve_frame_effects[OF this False] show ?thesis
      by (rule effects_heard[OF inv _ assms(4)]) (auto simp: speaks_def)
  qed
  then have "heard s (server_step cr rd ev s) i j"
    using assms(3) hello_heard[OF inv _ assms(1,4)] idle by auto
  then show ?thesis by (simp add: heard_def)
qed

theorem no_impersonation_witness:
  "\<exists>new. cc_send (sv_conns (server_step demo_crypto demo_readings (EvFrame 0 ReadFailed) (demo_state 4)) 1) =
      cc_send (sv_conns (demo_state 4) 1) @ new \<and>
    (\<forall>m \<in> set new. sm_to m = demo_callee)"
proof -
  have "EvFrame 0 ReadFailed = EvHello 0 ReadFailed \<or> EvFrame 0 ReadFailed = EvFrame 0 ReadFailed" "(1::nat) \<noteq> 0"
    by simp_all
  from no_impersonation[OF demo_crypto_laws demo_state_reachable this, of 4 demo_readings] demo_served(5)
  show ?thesis by auto
qed

subsection \<open>Calls and presence\<close>


lemma deliverTo_calls: "sv_calls (fst (deliverTo rd k u m s)) = sv_calls s"
  by (auto simp: deliverTo_def deliver_conn_def on_conn_def split_beta Let_def split: option.split prod.split)

lemma end_calls_calls: "sv_calls (end_calls rd k u cs s) = sv_calls s"
  by (induction cs arbitrary: s k) (simp_all add: deliverTo_calls split: sum.split)

lemma deliverTo_room:
  assumes "sv_presence s v = Some j" "\<not> cc_done (sv_conns s j)" "length (cc_send (sv_conns s j)) < cc_queue_size (sv_conns s j)"
  shows "cc_send (sv_conns (fst (deliverTo rd k v m s)) j) = cc_send (sv_conns s j) @ [m]"
  using assms by (simp add: deliverTo_def registry_get_def deliver_conn_def conn_deliver_def Let_def)

lemma partner_call:
  assumes "manager_inv m" "call_table.partner m u = Some v"
  obtains k c where "m_active m u = Some k" "m_calls m k = Some c" "call_other c u = Inr v" "v \<noteq> u"
    "snd (disconnect_user u now m) = [finished c StateEnded now m]"
proof -
  from assms(2) obtain k a b where k: "m_active m u = Some k" "live_parties m k = Some (a, b)"
    "v = (if u = a then b else a)"
    by (auto simp: call_table.partner_def split: option.splits)
  then obtain c where c: "m_calls m k = Some c" "a = caller c" "b = callee c" "\<not> terminal c"
    by (auto simp: live_parties_Some live_call_def)
  moreover have "u = a \<or> u = b"
    using k(1) c manager_inv_active[OF assms(1), of u k] by (auto simp: live_call_def party_def)
  moreover have "a \<noteq> b" using manager_inv_wf(2)[OF assms(1) c(1)] c by simp
  ultimately show ?thesis
    using that[of k c] k disconnect_user_inv_eq[OF assms(1), of u now] by (auto simp: call_other_def Let_def)
qed

lemma end_call_told:
  assumes "manager_inv m" "call_table.partner m u = Some v" "sv_presence t v = Some j" "\<not> cc_done (sv_conns t j)"
    "length (cc_send (sv_conns t j)) < cc_queue_size (sv_conns t j)"
  shows "\<exists>x. cc_send (sv_conns (end_calls rd k u (snd (disconnect_user u now m)) t) j) = cc_send (sv_conns t j) @ [x] \<and>
    sm_type x = SignalCallEnd \<and> sm_from x = u \<and> sm_to x = v"
proof -
  obtain c where c: "call_other c u = Inr v" "snd (disconnect_user u now m) = [finished c StateEnded now m]"
    using partner_call[OF assms(1,2), of now] by metis
  have "call_other (finished c StateEnded now m) u = call_other c u" by (simp add: call_other_def)
  then have "end_calls rd k u (snd (disconnect_user u now m)) t = fst (deliverTo rd k v
      (server_message rd k SignalCallEnd u v (c_id (finished c StateEnded now m)) []) t)"
    by (simp add: c)
  then show ?thesis using deliverTo_room[OF assms(3-5)] by simp
qed

text \<open>
  C8: When a served user's connection goes away, the name is free, the user and the partner in
  the call are free for new calls, and a partner with room in its queue is sent \<open>call.end\<close> in the
  leaving user's name.
\<close>

theorem disconnect_frees:
  assumes "crypto_laws cr" "server_reachable cr config s" "\<not> sv_cancelled s" "sv_phase s i = Serving"
    "u = cc_username (sv_conns s i)" "s' = server_step cr rd (EvFrame i ReadFailed) s"
  shows "sv_presence s' u = None \<and> sv_phase s' i = Gone \<and>
    call_table.partner (sv_calls s') u = None \<and>
    (call_table.partner (sv_calls s) u = Some v \<longrightarrow> call_table.partner (sv_calls s') v = None \<and>
      (\<forall>j. sv_presence s v = Some j \<and> \<not> cc_done (sv_conns s j) \<and>
           length (cc_send (sv_conns s j)) < cc_queue_size (sv_conns s j) \<longrightarrow>
         (\<exists>m. cc_send (sv_conns s' j) = cc_send (sv_conns s j) @ [m] \<and> sm_type m = SignalCallEnd \<and>
              sm_from m = u \<and> sm_to m = v)))"
proof -
  note inv = server_reachable_inv[OF assms(1,2)]
  let ?now = "rd_now rd 9" and ?m = "sv_calls s"
  have reg: "cc_registered (sv_conns s i)" using server_invD(3)[OF inv, of i] assms(4) by (simp add: conn_ok_def)
  have s': "s' = end_calls rd 10 u (snd (disconnect_user u ?now ?m)) (removed rd i s)"
    using assms(3-6) by (simp add: serve_frame_def server_disconnect_registered[OF reg] Let_def)
  have frame: "same_frame (removed rd i s) s'" unfolding s' by (rule effects_frame[OF end_calls_effects])
  have own: "sv_presence s u = Some i" using presence_exactD[OF server_invD(2)[OF inv]] assms(4,5) by simp
  have pres: "sv_presence s' = (sv_presence s)(u := None)" and phase: "sv_phase s' i = Gone"
    using frame own assms(5) by (simp_all add: same_frame_def removed_def Let_def Unregister_def)
  have calls: "sv_calls s' = fst (disconnect_user u ?now ?m)"
    using assms(3,5) by (simp add: s' end_calls_calls removed_def Let_def)
  note free = call_table.drop_frees_both[OF server_invD(1)[OF inv], where u = u and now = ?now]
  have told: "\<exists>m. cc_send (sv_conns s' j) = cc_send (sv_conns s j) @ [m] \<and> sm_type m = SignalCallEnd \<and>
      sm_from m = u \<and> sm_to m = v"
    if "call_table.partner ?m u = Some v" "sv_presence s v = Some j" "\<not> cc_done (sv_conns s j)"
      "length (cc_send (sv_conns s j)) < cc_queue_size (sv_conns s j)" for j
  proof -
    have "v \<noteq> u" using call_table.partner_irrefl[OF server_invD(1)[OF inv]] that(1) by blast
    moreover from this have "j \<noteq> i"
      using presence_exactD[OF server_invD(2)[OF inv], of v j] that(2) assms(5) by auto
    ultimately have "sv_conns (removed rd i s) j = sv_conns s j" "sv_presence (removed rd i s) v = Some j"
      using own assms(5) that(2) by (simp_all add: removed_def Let_def Unregister_def)
    with end_call_told[OF server_invD(1)[OF inv] that(1), of "removed rd i s" j rd 10 ?now] that(3,4)
    show ?thesis by (simp add: s')
  qed
  have partner: "call_table.partner ?m u = Some v \<longrightarrow> call_table.partner (sv_calls s') v = None \<and>
      (\<forall>j. sv_presence s v = Some j \<and> \<not> cc_done (sv_conns s j) \<and>
           length (cc_send (sv_conns s j)) < cc_queue_size (sv_conns s j) \<longrightarrow>
         (\<exists>m. cc_send (sv_conns s' j) = cc_send (sv_conns s j) @ [m] \<and> sm_type m = SignalCallEnd \<and>
              sm_from m = u \<and> sm_to m = v))"
    unfolding calls using free(2) told by blast
  have "sv_presence s' u = None" "call_table.partner (sv_calls s') u = None"
    using pres free(1) by (simp_all add: calls)
  with partner phase show ?thesis by blast
qed

subsection \<open>Dispatch\<close>

lemma dispatch_guard:
  assumes "sm_from m \<noteq> cc_username (sv_conns s i) \<or> serverOnly (sm_type m)"
  shows "dispatch cr rd i m s = (s, Some ErrUnauthorized)"
  using assms by (simp add: dispatch_def Let_def)

definition call_signals :: "signal_type list" where
  "call_signals = [SignalCallAccept, SignalCallDecline, SignalCallCancel, SignalCallEnd, SignalWebRTCOffer,
     SignalWebRTCAnswer, SignalWebRTCICE, SignalWebRTCICEComplete]"

lemma verifyBoundProof_frame:
  assumes "verifyBoundProof cr rd i m s = (t, e)"
  shows "\<exists>g. t = s\<lparr>sv_replays := g\<rparr>" "e = None \<or> e = Some ErrBadProof"
    "e = None \<Longrightarrow> \<exists>p key. Verify cr m (rd_now rd 2) = Inr (p, key, cc_fingerprint (sv_conns s i)) \<and>
       snd (replay_accept (cc_fingerprint (sv_conns s i)) (pf_Nonce p) (pf_ExpiresAt p) (rd_now rd 3) (sv_replays s))"
proof -
  have "t = s\<lparr>sv_replays := sv_replays t\<rparr>" using assms
    by (auto simp: verifyBoundProof_def Let_def split_beta split: sum.splits if_splits)
  then show "\<exists>g. t = s\<lparr>sv_replays := g\<rparr>" ..
qed (use assms in \<open>auto simp: verifyBoundProof_def Let_def split_beta split: sum.splits if_splits\<close>)

lemma dispatch_signal:
  assumes "sm_from m = cc_username (sv_conns s i)" "sm_type m \<in> set call_signals"
  obtains (refused) g where "dispatch cr rd i m s = (s\<lparr>sv_replays := g\<rparr>, Some ErrBadProof)"
  | (forwarded) g where "dispatch cr rd i m s = forward rd i m (rd_now rd 1) (s\<lparr>sv_replays := g\<rparr>)"
proof -
  obtain t e where v: "verifyBoundProof cr rd i m s = (t, e)" by fastforce
  from verifyBoundProof_frame(1)[OF v] obtain g where g: "t = s\<lparr>sv_replays := g\<rparr>" ..
  have same: "s\<lparr>sv_replays := sv_replays s\<rparr> = s" by simp
  show ?thesis
  proof (cases "sm_type m = SignalCallAccept")
    case True
    then show ?thesis
      using verifyBoundProof_frame(2)[OF v] assms refused[of g] forwarded[of g] v g
      by (auto simp: dispatch_def Let_def serverOnly_def)
  next
    case False
    then show ?thesis
      using assms forwarded[of "sv_replays s"] by (auto simp: dispatch_def Let_def serverOnly_def call_signals_def)
  qed
qed

lemma deliverTo_result:
  assumes "deliverTo rd k u m s = (t, e)"
  shows "e = None \<or> e = Some ErrPeerOffline"
    "e = None \<Longrightarrow> \<exists>j. sv_presence s u = Some j \<and> cc_send (sv_conns t j) = cc_send (sv_conns s j) @ [m] \<and>
       (\<forall>k. k \<noteq> j \<longrightarrow> sv_conns t k = sv_conns s k)"
  using assms
  by (auto simp: deliverTo_def registry_get_def deliver_conn_def conn_deliver_def Let_def
      split: option.splits prod.splits if_splits)


lemma allow_invite_frame:
  assumes "allow_invite i now s = (t, ok)"
  shows "sv_presence t = sv_presence s" "sv_calls t = sv_calls s" "k \<noteq> i \<Longrightarrow> sv_conns t k = sv_conns s k"
    "cc_send (sv_conns t k) = cc_send (sv_conns s k)" "cc_username (sv_conns t k) = cc_username (sv_conns s k)"
    "cc_done (sv_conns t k) = cc_done (sv_conns s k)" "cc_queue_size (sv_conns t k) = cc_queue_size (sv_conns s k)"
  using assms by (auto simp: allow_invite_def Let_def split_beta split: if_splits)

lemma deliver_conn_result:
  assumes "deliver_conn rd k j m s = (t, e)"
  shows "sv_calls t = sv_calls s" "l \<noteq> j \<Longrightarrow> sv_conns t l = sv_conns s l"
    "e = None \<Longrightarrow> cc_send (sv_conns t j) = cc_send (sv_conns s j) @ [m]"
    "set (cc_send (sv_conns s l)) \<subseteq> set (cc_send (sv_conns t l))"
  using assms by (auto simp: deliver_conn_def conn_deliver_def Let_def split: if_splits)

lemma reply_result: "reply rd k i m s = (t, None) \<Longrightarrow> deliver_conn rd k i m s = (t, None)"
  by (simp add: reply_def split_beta Let_def prod_eq_iff)

lemma dispatch_invite_outcome:
  assumes "dispatch_invite rd i m now s = (s', None)"
  defines "r \<equiv> invite (sm_call_id m) (cc_username (sv_conns s i)) (sm_to m) now (sv_calls s)"
  shows "(\<exists>c j. snd r = Inr c \<and> sv_calls s' = fst r \<and> sv_presence s (sm_to m) = Some j \<and> m \<in> set (cc_send (sv_conns s' j))) \<or>
    (\<exists>u. snd r = Inl (ErrUserBusy u) \<and> sv_calls s' = sv_calls s \<and> (\<forall>k. k \<noteq> i \<longrightarrow> sv_conns s' k = sv_conns s k))"
proof -
  obtain s1 ok where s1: "allow_invite i now s = (s1, ok)" by fastforce
  note F = allow_invite_frame[OF s1]
  obtain mgr e where r: "r = (mgr, e)" by fastforce
  let ?s2 = "s1\<lparr>sv_calls := mgr\<rparr>"
  obtain target where ok: "ok" and target: "sv_presence s (sm_to m) = Some target"
    using assms(1) F(1) by (auto simp: dispatch_invite_def s1 registry_get_def Let_def split: if_splits option.splits)
  note defs = dispatch_invite_def s1 registry_get_def Let_def ok target F(1,2) r[unfolded r_def]
  show ?thesis
  proof (cases e)
    case (Inl x)
    then obtain u where u: "x = ErrUserBusy u" and rep: "reply rd 5 i
        (server_message rd 5 SignalCallBusy (sm_to m) (cc_username (sv_conns s i)) (sm_call_id m) []) ?s2 = (s', None)"
      using assms(1) by (cases x) (simp_all add: defs)
    have "mgr = sv_calls s"
      using r Inl by (auto simp: r_def invite_def Let_def split: if_splits)
    moreover have "sv_calls s' = mgr" "\<forall>k. k \<noteq> i \<longrightarrow> sv_conns s' k = sv_conns s k"
      using F(3) deliver_conn_result(1,2)[OF reply_result[OF rep]] by simp_all
    ultimately show ?thesis using u Inl r by simp
  next
    case (Inr c)
    obtain s3 d where s3: "deliver_conn rd 4 target m ?s2 = (s3, d)" by fastforce
    have d: "d = None" and rep: "reply rd 5 i
        (server_message rd 5 SignalCallRinging (sm_to m) (cc_username (sv_conns s i)) (sm_call_id m) []) s3 = (s', None)"
      using assms(1) Inr s3 by (auto simp: defs split: option.splits)
    note R = deliver_conn_result[OF s3]
    have "m \<in> set (cc_send (sv_conns s3 target))" using R(3)[OF d] by simp
    moreover have "sv_calls s' = sv_calls s3" "set (cc_send (sv_conns s3 l)) \<subseteq> set (cc_send (sv_conns s' l))" for l
      using deliver_conn_result(1,4)[OF reply_result[OF rep]] .
    ultimately show ?thesis using target Inr r R(1) by auto
  qed
qed


subsection \<open>A call between the two clients\<close>

lemma dispatch_invite_rings:
  assumes "allow_invite i now s = (s1, True)" "sv_presence s (sm_to m) = Some j" "j \<noteq> i"
    "\<not> cc_done (sv_conns s i)" "length (cc_send (sv_conns s i)) < cc_queue_size (sv_conns s i)"
    "\<not> cc_done (sv_conns s j)" "length (cc_send (sv_conns s j)) < cc_queue_size (sv_conns s j)"
    "invite (sm_call_id m) (cc_username (sv_conns s i)) (sm_to m) now (sv_calls s) = (mgr, Inr c)"
  shows "\<exists>s'. dispatch_invite rd i m now s = (s', None)"
  using assms(2-) allow_invite_frame[OF assms(1)]
  by (simp add: dispatch_invite_def assms(1) registry_get_def Let_def deliver_conn_def conn_deliver_def reply_def)

lemma demo_invite_allowed: "\<exists>s1. allow_invite 0 demo_now (s\<lparr>sv_replays := g\<rparr>) = (s1, True)"
  if "cc_invites (sv_conns s 0) = newFixedWindowLimiter 5 minute" "sv_user_invites s = sv_user_invites (server_new DefaultConfig)"
proof -
  have "\<not> is_zero demo_now" "demo_now \<noteq> 0" by code_simp+
  then show ?thesis using that
    by (simp add: allow_invite_def server_new_def fixed_allow_def keyed_allow_def newFixedWindowLimiter_def
        newKeyedFixedWindowLimiter_def fill_config_def DefaultConfig_def positive_or_def drop_where_def is_zero_def Let_def)
qed

definition demo_ringing :: call where
  "demo_ringing = \<lparr>c_id = demo_uuid, caller = demo_caller, callee = demo_callee, c_state = StateRinging,
     created_at = demo_now, updated_at = demo_now, deadline = demo_now + 45 * second, cleanup_at = 0,
     caller_candidates = 0, callee_candidates = 0\<rparr>"

lemma demo_invite_result:
  "\<exists>mgr. invite demo_uuid demo_caller demo_callee demo_now (sv_calls (demo_state 4)) = (mgr, Inr demo_ringing) \<and>
     m_calls mgr demo_uuid = Some demo_ringing"
  using demo_different(1)
  by (simp add: demo_served server_new_def calls_new_def invite_def demo_ringing_def fill_config_def DefaultConfig_def
      positive_or_def Let_def)

lemmas demo_invitation_facts = good_message_facts[OF demo_crypto_laws demo_good_invitation]

lemma demo_invitation_fields:
  "sm_from demo_invitation = demo_caller" "sm_to demo_invitation = demo_callee"
  "sm_type demo_invitation = SignalCallInvite" "sm_call_id demo_invitation = demo_uuid"
  "sm_id demo_invitation = demo_uuid"
  "DecodeSignal (marshal_signal demo_invitation) (server_validator demo_now) = Inr demo_invitation"
proof -
  have "signs_payload SignalCallInvite" "plain_text demo_uuid" by code_simp+
  from demo_invitation_facts[OF this, of 0 0]
  show "sm_from demo_invitation = demo_caller" "sm_to demo_invitation = demo_callee"
    "sm_type demo_invitation = SignalCallInvite" "sm_call_id demo_invitation = demo_uuid"
    "sm_id demo_invitation = demo_uuid"
    "DecodeSignal (marshal_signal demo_invitation) (server_validator demo_now) = Inr demo_invitation"
    by (auto simp: demo_reading demo_client_def)
qed

lemma demo_invitation_bound:
  assumes "sv_replays s = sv_replays (demo_state 4)" "cc_fingerprint (sv_conns s 0) = demo_fp_1"
  obtains g where "verifyBoundProof demo_crypto demo_readings 0 demo_invitation s = (s\<lparr>sv_replays := g\<rparr>, None)"
proof -
  have "signs_payload SignalCallInvite" "plain_text demo_uuid" by code_simp+
  from demo_invitation_facts[OF this, of 0 2] obtain p where
    p: "Verify demo_crypto demo_invitation demo_now = Inr (p, ed25519_public demo_crypto demo_seed, demo_fp_1)"
      "pf_Nonce p = demo_nonce" "pf_ExpiresAt p = demo_now + 2 * minute"
    by (auto simp: demo_reading demo_client_def demo_fp_1_def)
  then show ?thesis
    using that demo_second_replays assms
    by (simp add: verifyBoundProof_def demo_reading Let_def split_beta)
qed

lemma demo_dispatch:
  assumes "sv_replays s = sv_replays (demo_state 4)" "sv_calls s = sv_calls (demo_state 4)"
    "sv_presence s = sv_presence (demo_state 4)" "sv_user_invites s = sv_user_invites (demo_state 4)"
    "sv_conns s 1 = sv_conns (demo_state 4) 1"
    "cc_username (sv_conns s 0) = demo_caller" "cc_fingerprint (sv_conns s 0) = demo_fp_1"
    "cc_invites (sv_conns s 0) = newFixedWindowLimiter 5 minute" "length (cc_send (sv_conns s 0)) = 1"
    "\<not> cc_done (sv_conns s 0)" "cc_queue_size (sv_conns s 0) = 64"
  obtains s' where "dispatch demo_crypto demo_readings 0 demo_invitation s = (s', None)"
proof -
  obtain g where g: "verifyBoundProof demo_crypto demo_readings 0 demo_invitation s = (s\<lparr>sv_replays := g\<rparr>, None)"
    using demo_invitation_bound[OF assms(1,7)] by blast
  obtain s1 where s1: "allow_invite 0 demo_now (s\<lparr>sv_replays := g\<rparr>) = (s1, True)"
    using demo_invite_allowed[of s g] assms(4,8) demo_served(9) by auto
  obtain mgr where mgr: "invite demo_uuid demo_caller demo_callee demo_now (sv_calls (demo_state 4)) = (mgr, Inr demo_ringing)"
    using demo_invite_result by blast
  have "\<exists>s'. dispatch_invite demo_readings 0 demo_invitation demo_now (s\<lparr>sv_replays := g\<rparr>) = (s', None)"
    by (rule dispatch_invite_rings[OF s1, where j = 1 and mgr = mgr and c = demo_ringing])
      (use assms mgr demo_served in \<open>simp_all add: demo_invitation_fields\<close>)
  then show ?thesis
    using that g assms(6) by (auto simp: dispatch_def demo_invitation_fields serverOnly_def demo_reading Let_def)
qed

definition demo_call :: server where
  "demo_call = server_step demo_crypto demo_readings (EvFrame 0 (TextFrame (marshal_signal demo_invitation))) (demo_state 4)"

lemma demo_call_reachable: "server_reachable demo_crypto DefaultConfig demo_call"
  unfolding demo_call_def by (rule server_reachable.step[OF demo_state_reachable]) simp_all

lemma demo_call_frame: "same_frame (demo_state 4) demo_call"
  unfolding demo_call_def
  using effects_frame[OF serve_frame_effects[of "demo_state 4" 0]] demo_served by simp

lemma demo_call_dispatch:
  obtains u where "dispatch demo_crypto demo_readings 0 demo_invitation u = (demo_call, None)"
    "sv_calls u = sv_calls (demo_state 4)" "cc_username (sv_conns u 0) = demo_caller"
    "sv_presence u = sv_presence (demo_state 4)"
proof -
  define c where "c = fst (conn_duplicate demo_uuid (conn_touch demo_now (sv_conns (demo_state 4) 0)))"
  define u where "u = (demo_state 4)\<lparr>sv_conns := (sv_conns (demo_state 4))(0 := c)\<rparr>"
  have c: "cc_invites c = newFixedWindowLimiter 5 minute" "cc_username c = demo_caller" "cc_fingerprint c = demo_fp_1"
    "length (cc_send c) = 1" "\<not> cc_done c" "cc_queue_size c = 64"
    "snd (conn_duplicate demo_uuid (conn_touch demo_now (sv_conns (demo_state 4) 0))) = False"
    using demo_served by (auto simp: c_def conn_duplicate_def conn_touch_def Let_def)
  obtain s' where d: "dispatch demo_crypto demo_readings 0 demo_invitation u = (s', None)"
    by (rule demo_dispatch[of u]) (use c in \<open>simp_all add: u_def\<close>)
  have "demo_call = s'"
    using c(7) d demo_served(1)
    by (simp add: demo_call_def serve_frame_def demo_reading demo_invitation_fields on_conn_def Let_def split_beta
        u_def[unfolded c_def, symmetric])
  with d c show ?thesis using that[of u] by (simp add: u_def)
qed

lemma demo_call_live: "live_call (sv_calls demo_call) demo_uuid demo_ringing"
proof -
  obtain u where u: "dispatch demo_crypto demo_readings 0 demo_invitation u = (demo_call, None)"
    "sv_calls u = sv_calls (demo_state 4)" "cc_username (sv_conns u 0) = demo_caller"
    "sv_presence u = sv_presence (demo_state 4)"
    by (rule demo_call_dispatch)
  obtain t e where v: "verifyBoundProof demo_crypto demo_readings 0 demo_invitation u = (t, e)" by fastforce
  have d: "dispatch_invite demo_readings 0 demo_invitation demo_now t = (demo_call, None)"
    using u(1,3) v by (auto simp: dispatch_def Let_def serverOnly_def demo_invitation_fields demo_reading split: option.splits)
  obtain g where t: "t = u\<lparr>sv_replays := g\<rparr>" using verifyBoundProof_frame(1)[OF v] ..
  obtain mgr where mgr: "invite demo_uuid demo_caller demo_callee demo_now (sv_calls (demo_state 4)) = (mgr, Inr demo_ringing)"
    "m_calls mgr demo_uuid = Some demo_ringing"
    using demo_invite_result by blast
  have "sv_calls demo_call = mgr"
    using dispatch_invite_outcome[OF d] by (auto simp: t u mgr(1) demo_invitation_fields)
  then show ?thesis using mgr(2) by (simp add: live_call_def demo_ringing_def terminal_def)
qed

lemma demo_call_partner: "call_table.partner (sv_calls demo_call) demo_caller = Some demo_callee"
proof -
  have "live_parties (sv_calls demo_call) demo_uuid = Some (demo_caller, demo_callee)"
    using demo_call_live by (auto simp: live_parties_Some demo_ringing_def)
  then show ?thesis
    using call_table.partner_Some[OF server_invD(1)[OF server_reachable_inv[OF demo_crypto_laws demo_call_reachable]]]
    by blast
qed

lemma demo_call_served: "sv_phase demo_call 0 = Serving" "cc_username (sv_conns demo_call 0) = demo_caller"
  "\<not> sv_cancelled demo_call" "sv_presence demo_call = sv_presence (demo_state 4)"
  using demo_call_frame demo_served by (simp_all add: same_frame_def)


theorem disconnect_frees_witness:
  "let s' = server_step demo_crypto demo_readings (EvFrame 0 ReadFailed) demo_call in
   sv_presence s' demo_caller = None \<and> call_table.partner (sv_calls s') demo_callee = None"
  using disconnect_frees[OF demo_crypto_laws demo_call_reachable demo_call_served(3,1) demo_call_served(2)[symmetric] refl,
      where rd = demo_readings] demo_call_partner
  by (simp only: Let_def)


definition demo_cancel :: signal_message where
  "demo_cancel = \<lparr>sm_version = 2, sm_id = demo_nonce, sm_type = SignalCallCancel, sm_timestamp = demo_now,
     sm_call_id = demo_uuid, sm_from = demo_caller, sm_to = demo_callee, sm_payload = []\<rparr>"


end
