(* ===== verification/Flags.thy ===== *)
theory Flags
  imports Encoding
begin

text \<open>
  Command line flags the way both commands read them: Go's \<open>flag.FlagSet\<close> with \<open>ContinueOnError\<close>,
  one definition per step of \<open>FlagSet.parseOne\<close>, and the conversions of \<open>flags.Bool\<close>, \<open>flags.Int\<close> and
  \<open>flags.String\<close> (\<open>strconv.ParseBool\<close>, \<open>strconv.ParseInt\<close> with base 0 and 64 bits).  The variables
  the flags are bound to are the fields of a record of options \<open>'o\<close>.
\<close>

subsection \<open>Flags and their values\<close>

datatype 'o flag = BoolFlag "bool \<Rightarrow> 'o \<Rightarrow> 'o" | ValueFlag "string \<Rightarrow> 'o \<Rightarrow> 'o option"

datatype flag_error = BadFlagSyntax string | UndefinedFlag string | ErrHelp | InvalidValue string string | NeedsArgument string

definition parse_bool :: "string \<Rightarrow> bool option" where
  "parse_bool s =
    (if s \<in> set [''1'', ''t'', ''T'', ''true'', ''TRUE'', ''True''] then Some True
     else if s \<in> set [''0'', ''f'', ''F'', ''false'', ''FALSE'', ''False''] then Some False
     else None)"

definition string_flag :: "(string \<Rightarrow> 'o \<Rightarrow> 'o) \<Rightarrow> 'o flag" where
  "string_flag update = ValueFlag (\<lambda>v s. Some (update v s))"

subsection \<open>Numbers\<close>

definition digit_value :: "char \<Rightarrow> nat option" where
  "digit_value c = (
     if 48 \<le> code c \<and> code c \<le> 57 then Some (code c - 48)
     else if 97 \<le> code (to_lower_char c) \<and> code (to_lower_char c) \<le> 122 then Some (code (to_lower_char c) - 87)
     else None)"

text \<open>The loop of \<open>ParseUint\<close> with base 0, where underscores are skipped; \<open>None\<close> is an error.\<close>

fun parse_digits :: "nat \<Rightarrow> string \<Rightarrow> nat \<Rightarrow> nat option" where
  "parse_digits base [] n = Some n"
| "parse_digits base (c # cs) n = (
     if c = CHR ''_'' then parse_digits base cs n
     else case digit_value c of
         None \<Rightarrow> None
       | Some d \<Rightarrow>
           if d \<ge> base then None
           else let n = n * base + d in if n \<ge> 2 ^ 64 then None else parse_digits base cs n)"

text \<open>
  \<open>underscoreOK\<close>: underscores stand between digits or after the base prefix.  The state is the class
  of the last character: the beginning, a digit or prefix, an underscore, or anything else.
\<close>

datatype last_seen = Beginning | Digit | Underscore | Other

fun underscores_ok :: "bool \<Rightarrow> last_seen \<Rightarrow> string \<Rightarrow> bool" where
  "underscores_ok hex i [] = (i \<noteq> Underscore)"
| "underscores_ok hex i (c # cs) = (
     if (48 \<le> code c \<and> code c \<le> 57) \<or> (hex \<and> 97 \<le> code (to_lower_char c) \<and> code (to_lower_char c) \<le> 102)
     then underscores_ok hex Digit cs
     else if c = CHR ''_'' then i = Digit \<and> underscores_ok hex Underscore cs
     else i \<noteq> Underscore \<and> underscores_ok hex Other cs)"

definition base_prefix :: "string \<Rightarrow> nat option" where
  "base_prefix s = (case s of
       z # c # cs \<Rightarrow>
         if z = CHR ''0'' \<and> to_lower_char c = CHR ''b'' then Some 2
         else if z = CHR ''0'' \<and> to_lower_char c = CHR ''o'' then Some 8
         else if z = CHR ''0'' \<and> to_lower_char c = CHR ''x'' then Some 16
         else None
     | _ \<Rightarrow> None)"

definition underscoreOK :: "string \<Rightarrow> bool" where
  "underscoreOK s = (
     let s = (if s \<noteq> [] \<and> (hd s = CHR ''-'' \<or> hd s = CHR ''+'') then tl s else s) in
     case base_prefix s of
       Some base \<Rightarrow> underscores_ok (base = 16) Digit (drop 2 s)
     | None \<Rightarrow> underscores_ok False Beginning s)"

definition parse_uint :: "string \<Rightarrow> nat option" where
  "parse_uint s = (
     if s = [] then None
     else
       let (base, digits) = (case base_prefix s of
             Some base \<Rightarrow> if length s \<ge> 3 then (base, drop 2 s) else (8, tl s)
           | None \<Rightarrow> if hd s = CHR ''0'' then (8, tl s) else (10, s))
       in case parse_digits base digits 0 of
            None \<Rightarrow> None
          | Some n \<Rightarrow> if CHR ''_'' \<in> set digits \<and> \<not> underscoreOK s then None else Some n)"

definition parse_int64 :: "string \<Rightarrow> int option" where
  "parse_int64 s = (
     if s = [] then None
     else
       let neg = (hd s = CHR ''-'');
           digits = (if hd s = CHR ''+'' \<or> neg then tl s else s)
       in case parse_uint digits of
            None \<Rightarrow> None
          | Some un \<Rightarrow>
              if \<not> neg \<and> un \<ge> 2 ^ 63 then None
              else if neg \<and> un > 2 ^ 63 then None
              else Some (if neg then - int un else int un))"

definition int_flag :: "(int \<Rightarrow> 'o \<Rightarrow> 'o) \<Rightarrow> 'o flag" where
  "int_flag update = ValueFlag (\<lambda>v s. map_option (\<lambda>n. update n s) (parse_int64 v))"

text \<open>What is read is an integer of 64 bits.\<close>

lemma parse_int64_range: "parse_int64 s = Some n \<Longrightarrow> - (2 ^ 63) \<le> n \<and> n < 2 ^ 63"
  by (auto simp: parse_int64_def Let_def split: option.splits if_splits)

subsection \<open>Reading the arguments\<close>

text \<open>The name of a flag and the value after its first equals sign, which is not the first character.\<close>

definition split_flag :: "string \<Rightarrow> string \<times> string option" where
  "split_flag name = (
     let rest = dropWhile (\<lambda>c. c \<noteq> CHR ''='') (tl name) in
     if rest = [] then (name, None) else (hd name # takeWhile (\<lambda>c. c \<noteq> CHR ''='') (tl name), Some (tl rest)))"

text \<open>One \<open>parseOne\<close>: whether a flag was read, with the options and the arguments that are left.\<close>

definition apply_flag :: "'o flag \<Rightarrow> string \<Rightarrow> string option \<Rightarrow> string list \<Rightarrow> 'o \<Rightarrow> flag_error + 'o \<times> string list" where
  "apply_flag f name given args s = (case f of
       BoolFlag update \<Rightarrow> (case given of
           Some v \<Rightarrow> (case parse_bool v of None \<Rightarrow> Inl (InvalidValue name v) | Some b \<Rightarrow> Inr (update b s, args))
         | None \<Rightarrow> Inr (update True s, args))
     | ValueFlag convert \<Rightarrow>
         let (given, args) = (case given of None \<Rightarrow> if args \<noteq> [] then (Some (hd args), tl args) else (None, args) | Some v \<Rightarrow> (given, args)) in
         (case given of
            None \<Rightarrow> Inl (NeedsArgument name)
          | Some v \<Rightarrow> (case convert v s of None \<Rightarrow> Inl (InvalidValue name v) | Some s \<Rightarrow> Inr (s, args))))"

definition parse_one :: "(string \<rightharpoonup> 'o flag) \<Rightarrow> string list \<Rightarrow> 'o \<Rightarrow> flag_error + bool \<times> 'o \<times> string list" where
  "parse_one flags args s = (case args of
       [] \<Rightarrow> Inr (False, s, args)
     | arg # rest \<Rightarrow>
         if length arg < 2 \<or> hd arg \<noteq> CHR ''-'' then Inr (False, s, args)
         else if arg = ''--'' then Inr (False, s, rest)
         else
           let name = (if arg ! 1 = CHR ''-'' then drop 2 arg else drop 1 arg) in
           if name = [] \<or> hd name = CHR ''-'' \<or> hd name = CHR ''='' then Inl (BadFlagSyntax arg)
           else
             let (name, given) = split_flag name in
             (case flags name of
                None \<Rightarrow> if name = ''help'' \<or> name = ''h'' then Inl ErrHelp else Inl (UndefinedFlag name)
              | Some f \<Rightarrow> (case apply_flag f name given rest s of
                    Inl e \<Rightarrow> Inl e
                  | Inr (s, rest) \<Rightarrow> Inr (True, s, rest))))"

lemma apply_flag_shorter: "apply_flag f name given args s = Inr (s', rest) \<Longrightarrow> length rest \<le> length args"
  by (cases f; cases given; cases args) (auto simp: apply_flag_def Let_def split: option.splits)

lemma parse_one_shorter:
  assumes "parse_one flags args s = Inr (True, s', rest)"
  shows "length rest < length args"
proof (cases args)
  case Nil
  then show ?thesis using assms by (simp add: parse_one_def)
next
  case (Cons arg tail)
  define name where "name = (if arg ! 1 = CHR ''-'' then drop 2 arg else drop 1 arg)"
  obtain name' given where split: "split_flag name = (name', given)" by (cases "split_flag name")
  obtain f where "apply_flag f name' given tail s = Inr (s', rest)"
    using assms unfolding parse_one_def Cons list.case name_def[symmetric] Let_def split prod.case
    by (auto split: if_splits option.splits sum.splits)
  from apply_flag_shorter[OF this] show ?thesis by (simp add: Cons)
qed

text \<open>\<open>FlagSet.Parse\<close>: the options and the arguments after the flags.\<close>

function parse_flags :: "(string \<rightharpoonup> 'o flag) \<Rightarrow> string list \<Rightarrow> 'o \<Rightarrow> flag_error + 'o \<times> string list" where
  "parse_flags flags args s = (case parse_one flags args s of
       Inl e \<Rightarrow> Inl e
     | Inr (again, s, rest) \<Rightarrow> if again then parse_flags flags rest s else Inr (s, rest))"
  by pat_completeness auto
termination by (relation "measure (\<lambda>(flags, args, s). length args)") (auto dest: parse_one_shorter)

declare parse_flags.simps [simp del]

subsection \<open>Flags written the usual way\<close>

lemma split_plain: "list_all (\<lambda>c. c \<noteq> CHR ''='') name \<Longrightarrow> split_flag name = (name, None)"
  by (cases name) (auto simp: split_flag_def list_all_iff)

definition flag_name :: "string \<Rightarrow> bool" where
  "flag_name name \<longleftrightarrow> name \<noteq> [] \<and> hd name \<noteq> CHR ''-'' \<and> list_all (\<lambda>c. c \<noteq> CHR ''='') name"

lemma parse_flag:
  assumes "flag_name name" "flags name = Some f"
  shows "parse_flags flags ((CHR ''-'' # CHR ''-'' # name) # args) s = (case apply_flag f name None args s of
      Inl e \<Rightarrow> Inl e | Inr (s, rest) \<Rightarrow> parse_flags flags rest s)"
proof -
  have n: "name \<noteq> []" "hd name \<noteq> CHR ''-''" "hd name \<noteq> CHR ''=''" "split_flag name = (name, None)"
    using assms(1) split_plain by (cases name; auto simp: flag_name_def)+
  then have "parse_one flags ((CHR ''-'' # CHR ''-'' # name) # args) s = (case apply_flag f name None args s of
      Inl e \<Rightarrow> Inl e | Inr (s, rest) \<Rightarrow> Inr (True, s, rest))"
    using assms(2) by (simp add: parse_one_def)
  then show ?thesis
    by (subst parse_flags.simps) (auto split: sum.splits)
qed

text \<open>
  A value flag takes the argument after it whatever it looks like, a boolean flag takes none, and
  nothing is read beyond an argument that is not a flag.
\<close>

lemma parse_value_flag:
  "flag_name name \<Longrightarrow> flags name = Some (ValueFlag convert) \<Longrightarrow>
   parse_flags flags ((CHR ''-'' # CHR ''-'' # name) # v # args) s =
     (case convert v s of None \<Rightarrow> Inl (InvalidValue name v) | Some s \<Rightarrow> parse_flags flags args s)"
  by (simp add: parse_flag apply_flag_def split: option.splits)

lemma parse_bool_flag:
  "flag_name name \<Longrightarrow> flags name = Some (BoolFlag update) \<Longrightarrow>
   parse_flags flags ((CHR ''-'' # CHR ''-'' # name) # args) s = parse_flags flags args (update True s)"
  by (simp add: parse_flag apply_flag_def)

lemma parse_no_flags: "parse_flags flags [] s = Inr (s, [])"
  by (simp add: parse_flags.simps parse_one_def)

text \<open>What every flag keeps of the options holds of what is read.\<close>

definition keeps :: "('o \<Rightarrow> bool) \<Rightarrow> 'o flag \<Rightarrow> bool" where
  "keeps P f \<longleftrightarrow> (case f of
       BoolFlag update \<Rightarrow> (\<forall>b s. P s \<longrightarrow> P (update b s))
     | ValueFlag convert \<Rightarrow> (\<forall>v s s'. P s \<longrightarrow> convert v s = Some s' \<longrightarrow> P s'))"

lemma apply_flag_keeps: "keeps P f \<Longrightarrow> P s \<Longrightarrow> apply_flag f name given args s = Inr (s', rest) \<Longrightarrow> P s'"
  by (cases f; cases given; cases args) (auto simp: keeps_def apply_flag_def Let_def split: option.splits)

lemma parse_one_keeps:
  assumes "parse_one flags args s = Inr (again, s', rest)" "\<And>name f. flags name = Some f \<Longrightarrow> keeps P f" "P s"
  shows "P s'"
  using assms
  by (auto simp: parse_one_def Let_def split: list.splits if_splits prod.splits option.splits sum.splits
      dest: apply_flag_keeps)

lemma parse_flags_keeps:
  assumes "parse_flags flags args s = Inr (s', rest)" "\<And>name f. flags name = Some f \<Longrightarrow> keeps P f" "P s"
  shows "P s'"
  using assms
proof (induction flags args s arbitrary: s' rest rule: parse_flags.induct)
  case (1 flags args s)
  obtain again t left where one: "parse_one flags args s = Inr (again, t, left)"
    using 1(2) by (subst (asm) parse_flags.simps) (auto split: sum.splits)
  have t: "P t" using parse_one_keeps[OF one 1(3) 1(4)] .
  show ?case
  proof (cases again)
    case True
    then have "parse_flags flags left t = Inr (s', rest)" using 1(2) by (subst (asm) parse_flags.simps) (simp add: one)
    from 1(1)[OF one refl refl True this 1(3) t] show ?thesis .
  next
    case False
    then show ?thesis using 1(2) t by (subst (asm) parse_flags.simps) (simp add: one)
  qed
qed

end
