(* ===== verification/Server_Command.thy ===== *)
theory Server_Command
  imports Flags Access_Turn Server
begin

text \<open>
  The server's command, \<open>cmd/termcall-signald/main.go\<close>: its flags and environment, the checks it makes
  before it listens, and the configuration it starts the signaling server with.  The command is a
  function of its arguments, the environment and the files; \<open>time.ParseDuration\<close> is a parameter, and
  so is whether an IPv6 address is a loopback one.
\<close>

subsection \<open>Addresses to listen on\<close>

text \<open>\<open>net.SplitHostPort\<close>, the host only; positions are counted as in Go.\<close>

definition byte_index :: "char \<Rightarrow> string \<Rightarrow> nat option" where
  "byte_index c s = (if c \<in> set s then Some (length (takeWhile (\<lambda>d. d \<noteq> c) s)) else None)"

definition last_index :: "char \<Rightarrow> string \<Rightarrow> nat option" where
  "last_index c s = map_option (\<lambda>i. length s - 1 - i) (byte_index c (rev s))"

definition split_host :: "string \<Rightarrow> string option" where
  "split_host hostport = (case last_index CHR '':'' hostport of
       None \<Rightarrow> None
     | Some i \<Rightarrow>
         if hd hostport = CHR ''['' then (case byte_index CHR '']'' hostport of
             None \<Rightarrow> None
           | Some end' \<Rightarrow>
               if Suc end' = i
               then if CHR ''['' \<in> set (drop 1 hostport) \<or> CHR '']'' \<in> set (drop (Suc end') hostport) then None
                 else Some (drop 1 (take end' hostport))
               else None)
         else
           let host = take i hostport in
           if CHR '':'' \<in> set host then None
           else if CHR ''['' \<in> set hostport \<or> CHR '']'' \<in> set hostport then None
           else Some host)"

text \<open>An IPv4 address as \<open>net.ParseIP\<close> reads it: four decimal numbers up to 255 without leading zeros.\<close>

definition parse_octet :: "string \<Rightarrow> nat option" where
  "parse_octet s = (
     if s = [] \<or> \<not> list_all is_digit s \<or> (length s > 1 \<and> hd s = CHR ''0'') \<or> digits_val s > 255 then None
     else Some (digits_val s))"

fun split_at :: "char \<Rightarrow> string \<Rightarrow> string list" where
  "split_at c [] = [[]]"
| "split_at c (d # s) = (if d = c then [] # split_at c s else (case split_at c s of p # ps \<Rightarrow> (d # p) # ps | [] \<Rightarrow> [[d]]))"

definition parse_ipv4 :: "string \<Rightarrow> nat list option" where
  "parse_ipv4 s = (let octets = map parse_octet (split_at CHR ''.'' s) in
     if length octets = 4 \<and> None \<notin> set octets then Some (map the octets) else None)"

text \<open>\<open>isLoopbackListen\<close>: the first dot or colon tells which kind of address the host is read as.\<close>

definition isLoopbackListen :: "(string \<Rightarrow> bool) \<Rightarrow> string \<Rightarrow> bool" where
  "isLoopbackListen ipv6_loopback address = (case split_host address of
       None \<Rightarrow> False
     | Some host \<Rightarrow>
         if host = ''localhost'' then True
         else (case List.find (\<lambda>c. c = CHR ''.'' \<or> c = CHR '':'' \<or> c = CHR ''%'') host of
             None \<Rightarrow> False
           | Some c \<Rightarrow>
               if c = CHR ''.'' then (case parse_ipv4 host of None \<Rightarrow> False | Some ip \<Rightarrow> hd ip = 127)
               else if c = CHR '':'' then ipv6_loopback host
               else False))"

lemma loopback_examples:
  "isLoopbackListen v6 ''127.0.0.1:8080''" "isLoopbackListen v6 ''localhost:80''" "\<not> isLoopbackListen v6 ''0.0.0.0:8080''"
  "\<not> isLoopbackListen v6 '':8080''" "\<not> isLoopbackListen v6 ''127.0.0.1''" "\<not> isLoopbackListen v6 ''127.0.0.256:80''"
  "isLoopbackListen v6 ''[::1]:80'' = v6 ''::1''"
  by code_simp+

subsection \<open>Flags\<close>

record signald_options =
  so_version :: bool
  so_listen :: string
  so_logLevel :: string
  so_keyFile :: string
  so_open :: bool
  so_certificate :: string
  so_key :: string
  so_turnSecret :: string
  so_turnTTL :: duration
  so_stun :: "string list"
  so_turn :: "string list"

definition set_stun :: "string \<Rightarrow> signald_options \<Rightarrow> signald_options option" where
  "set_stun v s = (if \<not> ValidSTUNURL v then None else Some (s\<lparr>so_stun := so_stun s @ [v]\<rparr>))"

definition set_turn :: "string \<Rightarrow> signald_options \<Rightarrow> signald_options option" where
  "set_turn v s = (if \<not> ValidTURNURL v then None else Some (s\<lparr>so_turn := so_turn s @ [v]\<rparr>))"

definition signald_flags :: "(string \<Rightarrow> duration option) \<Rightarrow> string \<rightharpoonup> signald_options flag" where
  "signald_flags parse_duration = [
     ''version'' \<mapsto> BoolFlag (\<lambda>v s. s\<lparr>so_version := v\<rparr>),
     ''listen'' \<mapsto> string_flag (\<lambda>v s. s\<lparr>so_listen := v\<rparr>),
     ''log-level'' \<mapsto> string_flag (\<lambda>v s. s\<lparr>so_logLevel := v\<rparr>),
     ''access-key-file'' \<mapsto> string_flag (\<lambda>v s. s\<lparr>so_keyFile := v\<rparr>),
     ''open'' \<mapsto> BoolFlag (\<lambda>v s. s\<lparr>so_open := v\<rparr>),
     ''tls-cert'' \<mapsto> string_flag (\<lambda>v s. s\<lparr>so_certificate := v\<rparr>),
     ''tls-key'' \<mapsto> string_flag (\<lambda>v s. s\<lparr>so_key := v\<rparr>),
     ''turn-secret-file'' \<mapsto> string_flag (\<lambda>v s. s\<lparr>so_turnSecret := v\<rparr>),
     ''turn-ttl'' \<mapsto> ValueFlag (\<lambda>v s. map_option (\<lambda>d. s\<lparr>so_turnTTL := d\<rparr>) (parse_duration v)),
     ''stun'' \<mapsto> ValueFlag set_stun,
     ''turn'' \<mapsto> ValueFlag set_turn]"

text \<open>The defaults, with the environment's port and STUN servers; an invalid one of these is dropped.\<close>

definition env_stun :: "signald_options \<Rightarrow> string \<Rightarrow> signald_options" where
  "env_stun s v = (if trim_space v \<noteq> [] then (case set_stun (trim_space v) s of None \<Rightarrow> s | Some s \<Rightarrow> s) else s)"

definition signald_defaults :: "(string \<Rightarrow> string) \<Rightarrow> signald_options" where
  "signald_defaults env = (
     let defaultListen = (if env ''PORT'' \<noteq> [] then ''0.0.0.0:'' @ env ''PORT'' else ''127.0.0.1:8080'');
         s = \<lparr>so_version = False, so_listen = defaultListen, so_logLevel = ''info'', so_keyFile = [], so_open = False,
           so_certificate = [], so_key = [], so_turnSecret = [], so_turnTTL = 10 * minute, so_stun = [], so_turn = []\<rparr>
     in foldl env_stun s (split_at CHR '','' (env ''TERMCALL_STUN_URLS'')))"

subsection \<open>Starting\<close>

datatype secret_error = SecretMissing | SecretPermissions | SecretUnread

text \<open>A file with a secret: \<open>readable\<close> tells whether reading a file that is there succeeds.\<close>

definition secret_file :: "(string \<rightharpoonup> disk_file) \<Rightarrow> (string \<Rightarrow> bool) \<Rightarrow> string \<Rightarrow> secret_error + string" where
  "secret_file fs readable path = (case fs path of
       None \<Rightarrow> Inl SecretMissing
     | Some f \<Rightarrow>
         if f_perm f mod 64 \<noteq> 0 then Inl SecretPermissions
         else if \<not> readable path then Inl SecretUnread
         else Inr (trim_space (f_data f)))"

definition loadAccessKey :: "(string \<Rightarrow> string) \<Rightarrow> (string \<rightharpoonup> disk_file) \<Rightarrow> (string \<Rightarrow> bool) \<Rightarrow> string \<Rightarrow> secret_error + string" where
  "loadAccessKey env fs readable path = (if path = [] then Inr (env ''TERMCALL_ACCESS_KEY'') else secret_file fs readable path)"

text \<open>\<open>logging.ParseLevel\<close>.\<close>

datatype log_level = LevelDebug | LevelInfo | LevelWarn | LevelError

definition ParseLevel :: "string \<Rightarrow> log_level option" where
  "ParseLevel v = (
     let v = to_lower (trim_space v) in
     if v = ''debug'' then Some LevelDebug
     else if v = [] \<or> v = ''info'' then Some LevelInfo
     else if v = ''warn'' \<or> v = ''warning'' then Some LevelWarn
     else if v = ''error'' then Some LevelError
     else None)"

datatype signald_error = BadSignaldFlags flag_error | TLSPair | TURNPair | BadAccessKeyFile secret_error | OpenWithoutFlag
  | TURNWithoutKey | BadLogLevel | BadAccessKeyLength | BadTURNSecret secret_error | BadTURN issuer_error

text \<open>What the server is started with; arguments after the flags are ignored.\<close>

record signald_start =
  ss_options :: signald_options
  ss_config :: server_config
  ss_issuer :: "issuer_config option"
  ss_level :: log_level

datatype signald_outcome = VersionShown | Refused signald_error | Listens signald_start

definition signald_issuer :: "(string \<rightharpoonup> disk_file) \<Rightarrow> (string \<Rightarrow> bool) \<Rightarrow> signald_options \<Rightarrow> signald_error + issuer_config option" where
  "signald_issuer fs readable opts = (
     if so_turnSecret opts \<noteq> [] then (case secret_file fs readable (so_turnSecret opts) of
         Inl e \<Rightarrow> Inl (BadTURNSecret e)
       | Inr secret \<Rightarrow> (case issuer_new \<lparr>ic_Secret = secret, ic_URLs = so_turn opts, ic_STUNURLs = so_stun opts, ic_TTL = so_turnTTL opts\<rparr> of
             Inl e \<Rightarrow> Inl (BadTURN e)
           | Inr issuer \<Rightarrow> Inr (Some issuer)))
     else Inr None)"

definition signald_main ::
  "(string \<Rightarrow> duration option) \<Rightarrow> (string \<Rightarrow> bool) \<Rightarrow> (string \<Rightarrow> string) \<Rightarrow> (string \<rightharpoonup> disk_file) \<Rightarrow> (string \<Rightarrow> bool) \<Rightarrow> string list \<Rightarrow> signald_outcome" where
  "signald_main parse_duration ipv6_loopback env fs readable arguments = (
     case parse_flags (signald_flags parse_duration) arguments (signald_defaults env) of
       Inl e \<Rightarrow> Refused (BadSignaldFlags e)
     | Inr (opts, _) \<Rightarrow>
         if so_version opts then VersionShown
         else if (so_certificate opts = []) \<noteq> (so_key opts = []) then Refused TLSPair
         else if (so_turnSecret opts = []) \<noteq> (length (so_turn opts) = 0) then Refused TURNPair
         else (case loadAccessKey env fs readable (so_keyFile opts) of
             Inl e \<Rightarrow> Refused (BadAccessKeyFile e)
           | Inr accessKey \<Rightarrow>
               if length accessKey = 0 \<and> \<not> isLoopbackListen ipv6_loopback (so_listen opts) \<and> \<not> so_open opts then Refused OpenWithoutFlag
               else if length (so_turn opts) \<noteq> 0 \<and> length accessKey = 0 then Refused TURNWithoutKey
               else (case ParseLevel (so_logLevel opts) of
                   None \<Rightarrow> Refused BadLogLevel
                 | Some level \<Rightarrow>
                     let serverConfig = DefaultConfig\<lparr>sc_STUNURLs := so_stun opts\<rparr>;
                         gate = (if length accessKey \<noteq> 0 then gate_new accessKey else None) in
                     if length accessKey \<noteq> 0 \<and> gate = None then Refused BadAccessKeyLength
                     else (case signald_issuer fs readable opts of
                         Inl e \<Rightarrow> Refused e
                       | Inr issuer \<Rightarrow> Listens \<lparr>ss_options = opts, ss_config = serverConfig\<lparr>sc_Access := gate\<rparr>,
                           ss_issuer = issuer, ss_level = level\<rparr>))))"

subsection \<open>What the checks guarantee\<close>

lemma gate_new_length: "gate_new key = Some k \<Longrightarrow> k = key \<and> 24 \<le> length k \<and> length k \<le> 1024"
  by (auto simp: gate_new_def split: if_splits)

lemma listens_parts:
  assumes "signald_main parse_duration v6 env fs readable arguments = Listens st"
  shows "\<exists>rest. parse_flags (signald_flags parse_duration) arguments (signald_defaults env) = Inr (ss_options st, rest)"
    "(so_turnSecret (ss_options st) = []) = (so_turn (ss_options st) = [])"
    "sc_Access (ss_config st) = None \<Longrightarrow> isLoopbackListen v6 (so_listen (ss_options st)) \<or> so_open (ss_options st)"
    "so_turn (ss_options st) \<noteq> [] \<Longrightarrow> sc_Access (ss_config st) \<noteq> None"
    "sc_Access (ss_config st) = Some key \<Longrightarrow> 24 \<le> length key \<and> length key \<le> 1024"
    "signald_issuer fs readable (ss_options st) = Inr (ss_issuer st)"
    "sc_STUNURLs (ss_config st) = so_stun (ss_options st)"
  using assms
  by (auto simp: signald_main_def Let_def dest: gate_new_length split: sum.splits prod.splits if_splits option.splits)

lemma signald_issuer_facts:
  assumes "signald_issuer fs readable opts = Inr (Some issuer)"
  shows "so_turnSecret opts \<noteq> [] \<and> (\<exists>secret. secret_file fs readable (so_turnSecret opts) = Inr secret \<and> 32 \<le> length secret \<and> ic_Secret issuer = secret) \<and>
    ic_URLs issuer = so_turn opts \<and> ic_STUNURLs issuer = so_stun opts \<and> so_turn opts \<noteq> []"
  using assms by (auto simp: signald_issuer_def split: if_splits sum.splits dest!: issuer_new_facts)

definition valid_servers :: "signald_options \<Rightarrow> bool" where
  "valid_servers s \<longleftrightarrow> list_all ValidSTUNURL (so_stun s) \<and> list_all ValidTURNURL (so_turn s)"

lemma defaults_valid: "valid_servers (signald_defaults env)"
proof -
  have "valid_servers (env_stun s v)" if "valid_servers s" for s v
    using that by (auto simp: env_stun_def valid_servers_def set_stun_def)
  then have "valid_servers s \<Longrightarrow> valid_servers (foldl env_stun s vs)" for s vs
    by (induction vs arbitrary: s) auto
  then show ?thesis unfolding signald_defaults_def Let_def by (simp add: valid_servers_def)
qed

lemma signald_flags_keep: "signald_flags parse_duration name = Some f \<Longrightarrow> keeps valid_servers f"
  by (auto simp: signald_flags_def keeps_def string_flag_def valid_servers_def set_stun_def set_turn_def split: if_splits)

text \<open>
  C12: A signaling server that starts on an address other hosts can reach has an access key of 24 to
  1024 bytes, unless it was told to be open: then no connection is taken up without exactly this key.
  TURN credentials are only ever issued against that key, by a server that read a secret of at least
  32 bytes from a file no other user can read; and all servers it advertises have valid URLs.
\<close>

theorem server_started_guarded:
  assumes "signald_main parse_duration v6 env fs readable arguments = Listens st"
  shows "(\<not> isLoopbackListen v6 (so_listen (ss_options st)) \<and> \<not> so_open (ss_options st) \<longrightarrow>
      (\<exists>key. sc_Access (ss_config st) = Some key \<and> 24 \<le> length key \<and> length key \<le> 1024 \<and>
        (\<forall>header s. sv_config s = sv_config (server_new (ss_config st)) \<longrightarrow> header \<noteq> bearer @ key \<longrightarrow> handleWebSocket header s = (s, None)))) \<and>
    (\<forall>issuer. ss_issuer st = Some issuer \<longrightarrow> 32 \<le> length (ic_Secret issuer) \<and>
      (\<exists>f. fs (so_turnSecret (ss_options st)) = Some f \<and> f_perm f mod 64 = 0) \<and>
      (\<forall>header now random creds. turn_handler hmac (sc_Access (ss_config st)) (ss_issuer st) header now random = Issued creds \<longrightarrow>
        (\<exists>key. sc_Access (ss_config st) = Some key \<and> header = bearer @ key))) \<and>
    list_all ValidSTUNURL (sc_STUNURLs (ss_config st)) \<and> list_all ValidTURNURL (so_turn (ss_options st))"
proof -
  note parts = listens_parts[OF assms]
  have access: "sc_Access (sv_config (server_new (ss_config st))) = sc_Access (ss_config st)"
    by (simp add: server_new_def fill_config_def Let_def)
  have exact: "Authorize (Some key) header \<longleftrightarrow> header = bearer @ key" if "sc_Access (ss_config st) = Some key" for key header
    using parts(5)[OF that] gate_exact[of key key header] by (simp add: gate_new_def)
  have guarded: "\<exists>key. sc_Access (ss_config st) = Some key \<and> 24 \<le> length key \<and> length key \<le> 1024 \<and>
      (\<forall>header s. sv_config s = sv_config (server_new (ss_config st)) \<longrightarrow> header \<noteq> bearer @ key \<longrightarrow> handleWebSocket header s = (s, None))"
    if far: "\<not> isLoopbackListen v6 (so_listen (ss_options st))" "\<not> so_open (ss_options st)"
  proof -
    obtain key where key: "sc_Access (ss_config st) = Some key" using far parts(3) by (cases "sc_Access (ss_config st)") auto
    with parts(5) exact[OF key] access show ?thesis by (auto simp: handleWebSocket_def)
  qed
  have turn: "32 \<le> length (ic_Secret issuer) \<and> (\<exists>f. fs (so_turnSecret (ss_options st)) = Some f \<and> f_perm f mod 64 = 0) \<and>
      (\<forall>header now random creds. turn_handler hmac (sc_Access (ss_config st)) (ss_issuer st) header now random = Issued creds \<longrightarrow>
        (\<exists>key. sc_Access (ss_config st) = Some key \<and> header = bearer @ key))" if issuer: "ss_issuer st = Some issuer" for issuer
  proof -
    note facts = signald_issuer_facts[OF parts(6)[unfolded issuer]]
    then obtain key where key: "sc_Access (ss_config st) = Some key" using parts(4) by blast
    with facts exact[OF key] show ?thesis
      by (auto simp: turn_handler_def issuer secret_file_def split: if_splits option.splits)
  qed
  obtain rest where "parse_flags (signald_flags parse_duration) arguments (signald_defaults env) = Inr (ss_options st, rest)"
    using parts(1) by blast
  then have "valid_servers (ss_options st)"
    using signald_flags_keep defaults_valid by (rule parse_flags_keeps)
  with guarded turn parts(7) show ?thesis by (simp add: valid_servers_def)
qed

subsection \<open>A server that starts\<close>

definition demo_env :: "string \<Rightarrow> string" where
  "demo_env name = (if name = ''PORT'' then ''8080'' else if name = ''TERMCALL_ACCESS_KEY'' then ''correct horse battery staple'' else [])"

theorem server_started_guarded_witness:
  "\<exists>st key. signald_main (\<lambda>_. None) (\<lambda>_. False) demo_env Map.empty (\<lambda>_. True) [] = Listens st \<and>
     so_listen (ss_options st) = ''0.0.0.0:8080'' \<and> sc_Access (ss_config st) = Some key \<and>
     handleWebSocket [] (server_new (ss_config st)) = (server_new (ss_config st), None)"
proof -
  have defaults: "signald_defaults demo_env = \<lparr>so_version = False, so_listen = ''0.0.0.0:8080'', so_logLevel = ''info'', so_keyFile = [],
      so_open = False, so_certificate = [], so_key = [], so_turnSecret = [], so_turnTTL = 10 * minute, so_stun = [], so_turn = []\<rparr>"
    by (simp add: signald_defaults_def demo_env_def env_stun_def trim_space_def)
  have level: "ParseLevel ''info'' = Some LevelInfo" and far: "\<not> isLoopbackListen (\<lambda>_. False) ''0.0.0.0:8080''" by code_simp+
  obtain st where st: "signald_main (\<lambda>_. None) (\<lambda>_. False) demo_env Map.empty (\<lambda>_. True) [] = Listens st"
    "so_listen (ss_options st) = ''0.0.0.0:8080''" "\<not> so_open (ss_options st)"
    by (simp add: signald_main_def parse_no_flags defaults loadAccessKey_def demo_env_def level far gate_new_def signald_issuer_def Let_def)
  with server_started_guarded[OF st(1), of "\<lambda>_ _. []"] far show ?thesis
    by (auto simp: bearer_def)
qed

end
