(* ===== verification/Profile.thy ===== *)
theory Profile
  imports Identity
begin

text \<open>
  The user's saved profile, \<open>internal/client/profile/profile.go\<close>: its checks, its file, which a save
  replaces by renaming a temporary file over it, and the access key from the environment.
\<close>

subsection \<open>The profile and its checks\<close>

definition profileVersion :: int where "profileVersion = 2"

record profile =
  pl_Version :: int
  pl_BaseName :: string
  pl_Address :: string
  pl_ServerURL :: string
  pl_AccessKey :: string

datatype profile_error = UnsupportedProfile | IncompleteProfile | BadAccessKey | IdentityMismatch
  | ProfileIO | ProfilePermissions | ProfileJSON

definition profile_Validate :: "profile \<Rightarrow> profile_error option" where
  "profile_Validate v = (
     if pl_Version v \<noteq> profileVersion then Some UnsupportedProfile
     else if \<not> ValidBaseName (pl_BaseName v) \<or> \<not> ValidAddress (pl_Address v) \<or> pl_ServerURL v = [] then Some IncompleteProfile
     else if pl_AccessKey v \<noteq> [] \<and> (length (pl_AccessKey v) < 24 \<or> length (pl_AccessKey v) > 1024) then Some BadAccessKey
     else None)"

definition ValidateWithIdentity :: "crypto \<Rightarrow> profile \<Rightarrow> identity \<Rightarrow> profile_error option" where
  "ValidateWithIdentity cr v key = (case profile_Validate v of
       Some e \<Rightarrow> Some e
     | None \<Rightarrow> (case CanonicalAddress cr (pl_BaseName v) (PublicKey key) of
           None \<Rightarrow> Some IdentityMismatch
         | Some expected \<Rightarrow> if expected \<noteq> pl_Address v then Some IdentityMismatch else None))"

subsection \<open>The file\<close>

definition store_profile :: "string \<Rightarrow> string \<Rightarrow> json \<Rightarrow> profile \<Rightarrow> profile option" where
  "store_profile n raw v p = (
     if n = ''version'' then map_option (\<lambda>x. p\<lparr>pl_Version := x\<rparr>) (get_int v (pl_Version p))
     else if n = ''base_name'' then map_option (\<lambda>x. p\<lparr>pl_BaseName := x\<rparr>) (get_string v (pl_BaseName p))
     else if n = ''address'' then map_option (\<lambda>x. p\<lparr>pl_Address := x\<rparr>) (get_string v (pl_Address p))
     else if n = ''server_url'' then map_option (\<lambda>x. p\<lparr>pl_ServerURL := x\<rparr>) (get_string v (pl_ServerURL p))
     else map_option (\<lambda>x. p\<lparr>pl_AccessKey := x\<rparr>) (get_string v (pl_AccessKey p)))"

definition profile_fields :: "string list" where
  "profile_fields = [''version'', ''base_name'', ''address'', ''server_url'', ''access_key'']"

definition empty_profile :: profile where
  "empty_profile = \<lparr>pl_Version = 0, pl_BaseName = [], pl_Address = [], pl_ServerURL = [], pl_AccessKey = []\<rparr>"

definition profile_LoadFile :: "string \<Rightarrow> (string \<rightharpoonup> disk_file) \<Rightarrow> profile_error + profile" where
  "profile_LoadFile path fs = (case fs path of
       None \<Rightarrow> Inl ProfileIO
     | Some f \<Rightarrow>
         if f_perm f mod 64 \<noteq> 0 then Inl ProfilePermissions
         else (case decode_strict (store_struct store_profile profile_fields) (f_data f) empty_profile of
             None \<Rightarrow> Inl ProfileJSON
           | Some v \<Rightarrow> (case profile_Validate v of Some e \<Rightarrow> Inl e | None \<Rightarrow> Inr v)))"

text \<open>\<open>json.MarshalIndent\<close> of the profile; an empty access key is left out.\<close>

definition stored_profile :: "profile \<Rightarrow> string" where
  "stored_profile v = json_indented (
     [(''version'', itoa (pl_Version v)), (''base_name'', json_string (pl_BaseName v)), (''address'', json_string (pl_Address v)),
      (''server_url'', json_string (pl_ServerURL v))] @
     optional_member ''access_key'' (pl_AccessKey v) (json_string (pl_AccessKey v)))"

text \<open>
  \<open>SaveFile\<close>: each call of the file system may fail, and what is written before a failure is the
  system's; \<open>temporary\<close> is the fresh name \<open>CreateTemp\<close> returns, which the deferred \<open>Remove\<close> deletes.
\<close>

record save_faults =
  sv_mkdir :: bool
  sv_create :: bool
  sv_chmod :: bool
  sv_write :: bool
  sv_sync :: bool
  sv_close :: bool
  sv_rename :: bool
  sv_remove :: bool
  sv_partial :: string

definition SaveFile ::
  "save_faults \<Rightarrow> string \<Rightarrow> string \<Rightarrow> profile \<Rightarrow> (string \<rightharpoonup> disk_file) \<Rightarrow> profile_error option \<times> (string \<rightharpoonup> disk_file)" where
  "SaveFile io temporary path v fs = (case profile_Validate v of
       Some e \<Rightarrow> (Some e, fs)
     | None \<Rightarrow>
         let encoded = stored_profile v;
             leave = (\<lambda>data. (Some ProfileIO, if sv_remove io then fs(temporary \<mapsto> \<lparr>f_perm = 0x180, f_data = data\<rparr>) else fs)) in
         if sv_mkdir io then (Some ProfileIO, fs)
         else if sv_create io then (Some ProfileIO, fs)
         else if sv_chmod io then leave []
         else if sv_write io then leave (sv_partial io)
         else if sv_sync io then leave encoded
         else if sv_close io then leave encoded
         else if sv_rename io then leave encoded
         else (None, fs(path \<mapsto> \<lparr>f_perm = 0x180, f_data = encoded\<rparr>)))"

text \<open>The access key, from the file the environment names or from the environment.\<close>

definition AccessKeyFromEnvironment :: "(string \<Rightarrow> string) \<Rightarrow> (string \<rightharpoonup> disk_file) \<Rightarrow> profile_error + string" where
  "AccessKeyFromEnvironment env fs = (
     let file' = env ''TERMCALL_ACCESS_KEY_FILE'' in
     if file' \<noteq> [] then (case fs file' of
         None \<Rightarrow> Inl ProfileIO
       | Some f \<Rightarrow> if f_perm f mod 64 \<noteq> 0 then Inl ProfilePermissions else Inr (trim_space (f_data f)))
     else Inr (env ''TERMCALL_ACCESS_KEY''))"

subsection \<open>A saved profile is loaded again\<close>

lemma profile_keys: "plain_text ''version''" "plain_text ''base_name''" "plain_text ''address''" "plain_text ''server_url''"
  "plain_text ''access_key''" "is_digit CHR ''2''" "itoa 2 = ''2''" "parse_int ''2'' = Some 2"
  by code_simp+

definition text_member :: "string \<Rightarrow> string \<Rightarrow> string \<times> string \<times> json" where
  "text_member k s = (k, json_string s, JString (json_escape s))"

definition profile_members :: "profile \<Rightarrow> (string \<times> string \<times> json) list" where
  "profile_members v = [(''version'', ''2'', JNumber ''2''), text_member ''base_name'' (pl_BaseName v),
     text_member ''address'' (pl_Address v), text_member ''server_url'' (pl_ServerURL v)] @
     optional_read ''access_key'' (pl_AccessKey v) (json_string (pl_AccessKey v)) (JString (json_escape (pl_AccessKey v)))"

lemma stored_profile_members: "pl_Version v = 2 \<Longrightarrow> stored_profile v = json_indented (texts (profile_members v))"
  by (simp add: stored_profile_def profile_members_def text_member_def optional_member_def optional_read_def profile_keys)

lemma plain_base_name: "ValidBaseName b \<Longrightarrow> list_all plain_char b"
proof -
  assume "ValidBaseName b"
  then have "set b \<subseteq> set name_inner" by (simp add: ValidBaseName_def MatchString_iff lang_baseName)
  then show ?thesis using plain_alphabets(2) by (auto simp: list_all_iff)
qed

lemma load_saved:
  assumes "profile_Validate v = None" "valid_utf8 (pl_ServerURL v)" "valid_utf8 (pl_AccessKey v)"
    and "fs path = Some \<lparr>f_perm = 0x180, f_data = stored_profile v\<rparr>"
  shows "profile_LoadFile path fs = Inr v"
proof -
  have v: "pl_Version v = 2" "ValidBaseName (pl_BaseName v)" "ValidAddress (pl_Address v)"
    using assms(1) by (auto simp: profile_Validate_def profileVersion_def split: if_splits)
  have names: "to_valid (pl_BaseName v) = pl_BaseName v" "to_valid (pl_Address v) = pl_Address v"
    "to_valid (pl_ServerURL v) = pl_ServerURL v" "to_valid (pl_AccessKey v) = pl_AccessKey v"
    using v plain_base_name plain_address assms(2,3) by (simp_all add: plain_valid plain_char_text to_valid_valid)
  have "\<forall>(k, t, w) \<in> set (profile_members v). plain_text k \<and> reads (Suc 0) t w"
    using profile_keys reads_json_string
    by (auto simp: profile_members_def text_member_def optional_read_def reads_digit)
  then have "reads 0 (json_indented (texts (profile_members v))) (JObject (profile_members v))"
    by (intro reads_object) (simp_all add: profile_members_def max_nesting_def)
  then have "parse_json (stored_profile v) = Some (JObject (profile_members v), [])"
    by (simp add: parse_written stored_profile_members[OF v(1)])
  moreover have "store_struct store_profile profile_fields True (JObject (profile_members v)) empty_profile = Some v"
    using v(1) names
    by (simp add: store_struct_def profile_members_def text_member_def optional_read_def field_for_member profile_fields_def
        store_profile_def empty_profile_def profile_keys unquote_escaped)
  ultimately show ?thesis by (simp add: profile_LoadFile_def assms(4) decode_strict_def assms(1))
qed

text \<open>
  C21: A save of the profile changes no file but the profile's and the temporary one; whatever call
  fails, the profile that was there is still there unchanged; and a save that succeeds leaves no
  temporary file and exactly this profile to be loaded, if its texts are valid UTF-8.
\<close>

theorem profile_saved_or_kept:
  assumes "SaveFile io temporary path v fs = (err, fs')" "temporary \<noteq> path" "fs temporary = None"
    and "valid_utf8 (pl_ServerURL v)" "valid_utf8 (pl_AccessKey v)"
  shows "(\<forall>q. q \<noteq> path \<and> q \<noteq> temporary \<longrightarrow> fs' q = fs q) \<and> (err \<noteq> None \<longrightarrow> fs' path = fs path) \<and>
    (err = None \<longrightarrow> profile_LoadFile path fs' = Inr v \<and> fs' temporary = None)"
proof -
  have "profile_LoadFile path fs' = Inr v \<and> fs' temporary = None" if "err = None"
  proof -
    have "profile_Validate v = None" "fs' = fs(path \<mapsto> \<lparr>f_perm = 0x180, f_data = stored_profile v\<rparr>)"
      using assms(1) that by (auto simp: SaveFile_def Let_def split: option.splits if_splits)
    with load_saved[OF _ assms(4,5), of fs' path] assms(2,3) show ?thesis by simp
  qed
  moreover have "\<forall>q. q \<noteq> path \<and> q \<noteq> temporary \<longrightarrow> fs' q = fs q" "err \<noteq> None \<longrightarrow> fs' path = fs path"
    using assms(1,2) by (auto simp: SaveFile_def Let_def split: option.splits if_splits)
  ultimately show ?thesis by blast
qed

text \<open>A profile accepted with an identity has an address that proofs under its key may use.\<close>

lemma profile_address_matches:
  assumes "crypto_laws cr" "ValidateWithIdentity cr v key = None"
  shows "AddressMatchesKey cr (pl_Address v) (PublicKey key)"
proof -
  have v: "CanonicalAddress cr (pl_BaseName v) (PublicKey key) = Some (pl_Address v)" "ValidBaseName (pl_BaseName v)"
    using assms(2) by (auto simp: ValidateWithIdentity_def profile_Validate_def split: option.splits if_splits)
  from canonical_facts[OF assms(1) v(2), of "PublicKey key"] v(1) show ?thesis by auto
qed

definition demo_profile :: profile where
  "demo_profile = \<lparr>pl_Version = 2, pl_BaseName = ''carol'', pl_Address = demo_caller, pl_ServerURL = ''wss://signal.example/v1/ws'',
     pl_AccessKey = ''correct horse battery staple''\<rparr>"

definition no_save_faults :: save_faults where
  "no_save_faults = \<lparr>sv_mkdir = False, sv_create = False, sv_chmod = False, sv_write = False, sv_sync = False, sv_close = False,
     sv_rename = False, sv_remove = False, sv_partial = []\<rparr>"

lemma demo_profile_valid: "profile_Validate demo_profile = None"
  using demo_caller_facts(1) demo_name
  by (simp add: profile_Validate_def demo_profile_def profileVersion_def)

theorem profile_saved_or_kept_witness:
  "profile_LoadFile ''profile.json'' (snd (SaveFile no_save_faults ''.profile-1'' ''profile.json'' demo_profile Map.empty)) = Inr demo_profile"
proof -
  obtain err fs' where s: "SaveFile no_save_faults ''.profile-1'' ''profile.json'' demo_profile Map.empty = (err, fs')"
    by (cases "SaveFile no_save_faults ''.profile-1'' ''profile.json'' demo_profile Map.empty")
  have none: "err = None" using s by (simp add: SaveFile_def demo_profile_valid no_save_faults_def Let_def)
  have texts: "valid_utf8 (pl_ServerURL demo_profile)" "valid_utf8 (pl_AccessKey demo_profile)"
    unfolding demo_profile_def profile.simps by code_simp+
  have names: "''.profile-1'' \<noteq> ''profile.json''" by simp
  from profile_saved_or_kept[OF s names _ texts] none s show ?thesis by simp
qed

end
