(* ===== verification/Init_Command.thy ===== *)
theory Init_Command
  imports Flags Profile Signaling_Client
begin

text \<open>
  \<open>termcall init\<close> and what every other command starts from, in \<open>cmd/termcall/main.go\<close>: the server
  URL's checks, \<open>runInit\<close>, which makes or keeps the identity and writes the profile, and
  \<open>loadProfileIdentity\<close>, which reads both back.  The default paths are given; \<open>url.Parse\<close> is a
  function to the parts that are looked at, \<open>None\<close> for an error.
\<close>

subsection \<open>The server URL\<close>

record server_url = url_parts +
  url_HasUser :: bool

definition defaultServerURL :: string where "defaultServerURL = ''ws://127.0.0.1:8080/v1/ws''"

definition validateServerURL :: "(string \<Rightarrow> server_url option) \<Rightarrow> string \<Rightarrow> bool" where
  "validateServerURL parse v = (case parse v of
       None \<Rightarrow> False
     | Some u \<Rightarrow> \<not> ((url_Scheme u \<noteq> ''ws'' \<and> url_Scheme u \<noteq> ''wss'') \<or> url_Host u = [] \<or> url_HasUser u))"

definition isLocalServer :: "(string \<Rightarrow> server_url option) \<Rightarrow> string \<Rightarrow> bool" where
  "isLocalServer parse v = (case parse v of
       None \<Rightarrow> False
     | Some u \<Rightarrow> let host = url_Hostname u in host = ''localhost'' \<or> host = ''127.0.0.1'' \<or> host = ''::1'')"

definition savedServerURL :: "string \<Rightarrow> (string \<rightharpoonup> disk_file) \<Rightarrow> string" where
  "savedServerURL path fs = (case profile_LoadFile path fs of Inr v \<Rightarrow> pl_ServerURL v | Inl e \<Rightarrow> defaultServerURL)"

subsection \<open>Asking for the access key\<close>

text \<open>
  What standard input gives: a line typed at a terminal without echo, with whether reading failed, or
  the bytes of a pipe, with whether reading ends in an error other than the end.
\<close>

datatype secret_input = AtTerminal string bool | Piped string bool

definition trim_line_end :: "string \<Rightarrow> string" where
  "trim_line_end s = rev (dropWhile (\<lambda>c. c = CHR 0x0D \<or> c = CHR 0x0A) (rev s))"

definition readSecret :: "secret_input \<Rightarrow> string \<times> bool" where
  "readSecret input = (case input of
       AtTerminal v fails \<Rightarrow> (v, fails)
     | Piped s fails \<Rightarrow>
         let line = takeWhile (\<lambda>c. c \<noteq> CHR 0x0A) s in
         if length line < length s then (trim_line_end (line @ [CHR 0x0A]), False)
         else (trim_line_end s, fails \<or> s = []))"

subsection \<open>The command\<close>

record client_paths =
  cp_identity :: string
  cp_profile :: string
  cp_temporary :: string

record init_readings =
  ir_seed :: "string option"
  ir_identity_io :: disk_faults
  ir_env :: "string \<Rightarrow> string"
  ir_secret :: secret_input
  ir_profile_io :: save_faults

datatype init_error = InitUsage | BadBaseName | BadInitFlags flag_error | BadServerURL
  | IdentityUnreadable load_error | NoEntropy | IdentityUnsaved save_error | NoAddress
  | AccessKeyUnreadable profile_error | SecretUnreadable | RemoteNeedsKey | ProfileUnsaved profile_error

text \<open>The option of the command is the server URL itself.\<close>

definition init_flags :: "string \<rightharpoonup> string flag" where
  "init_flags = [''server'' \<mapsto> string_flag (\<lambda>v url. v)]"

definition init_options :: "(string \<Rightarrow> server_url option) \<Rightarrow> string \<Rightarrow> string list \<Rightarrow> init_error + string \<times> string" where
  "init_options parse saved arguments = (
     if arguments = [] \<or> prefix ''-'' (hd arguments) then Inl InitUsage
     else
       let baseName = hd arguments in
       if \<not> ValidBaseName baseName then Inl BadBaseName
       else (case parse_flags init_flags (tl arguments) saved of
           Inl e \<Rightarrow> Inl (BadInitFlags e)
         | Inr (serverURL, rest) \<Rightarrow>
             if length rest \<noteq> 0 then Inl InitUsage
             else if \<not> validateServerURL parse serverURL then Inl BadServerURL
             else Inr (baseName, serverURL)))"

definition init_identity :: "crypto \<Rightarrow> client_paths \<Rightarrow> init_readings \<Rightarrow> (string \<rightharpoonup> disk_file) \<Rightarrow> (init_error + identity) \<times> (string \<rightharpoonup> disk_file)" where
  "init_identity cr paths rd fs = (
     if fs (cp_identity paths) = None then (case ir_seed rd of
         None \<Rightarrow> (Inl NoEntropy, fs)
       | Some seed \<Rightarrow>
           let localIdentity = Generate cr seed in
           (case SaveNewFile (ir_identity_io rd) (cp_identity paths) (Some localIdentity) fs of
              (Some e, fs) \<Rightarrow> (Inl (IdentityUnsaved e), fs)
            | (None, fs) \<Rightarrow> (Inr localIdentity, fs)))
     else (case LoadFile (cp_identity paths) fs of
         Inl e \<Rightarrow> (Inl (IdentityUnreadable e), fs)
       | Inr localIdentity \<Rightarrow> (Inr localIdentity, fs)))"

definition init_access_key :: "(string \<Rightarrow> server_url option) \<Rightarrow> init_readings \<Rightarrow> string \<Rightarrow> (string \<rightharpoonup> disk_file) \<Rightarrow> init_error + string" where
  "init_access_key parse rd serverURL fs = (case AccessKeyFromEnvironment (ir_env rd) fs of
       Inl e \<Rightarrow> Inl (AccessKeyUnreadable e)
     | Inr accessKey \<Rightarrow> (case (if accessKey = [] then readSecret (ir_secret rd) else (accessKey, False)) of
           (accessKey, fails) \<Rightarrow>
             if fails then Inl SecretUnreadable
             else if accessKey = [] \<and> \<not> isLocalServer parse serverURL then Inl RemoteNeedsKey
             else Inr accessKey))"

definition runInit ::
  "crypto \<Rightarrow> (string \<Rightarrow> server_url option) \<Rightarrow> client_paths \<Rightarrow> init_readings \<Rightarrow> string list \<Rightarrow> (string \<rightharpoonup> disk_file) \<Rightarrow>
   init_error option \<times> (string \<rightharpoonup> disk_file)" where
  "runInit cr parse paths rd arguments fs = (case init_options parse (savedServerURL (cp_profile paths) fs) arguments of
       Inl e \<Rightarrow> (Some e, fs)
     | Inr (baseName, serverURL) \<Rightarrow> (case init_identity cr paths rd fs of
         (Inl e, fs) \<Rightarrow> (Some e, fs)
       | (Inr localIdentity, fs) \<Rightarrow> (case CanonicalAddress cr baseName (PublicKey localIdentity) of
           None \<Rightarrow> (Some NoAddress, fs)
         | Some address \<Rightarrow> (case init_access_key parse rd serverURL fs of
             Inl e \<Rightarrow> (Some e, fs)
           | Inr accessKey \<Rightarrow> (case SaveFile (ir_profile_io rd) (cp_temporary paths) (cp_profile paths)
                 \<lparr>pl_Version = profileVersion, pl_BaseName = baseName, pl_Address = address, pl_ServerURL = serverURL, pl_AccessKey = accessKey\<rparr> fs of
               (Some e, fs) \<Rightarrow> (Some (ProfileUnsaved e), fs)
             | (None, fs) \<Rightarrow> (None, fs))))))"

datatype start_error = ProfileNotLoaded profile_error | IdentityNotLoaded load_error | ProfileMismatch profile_error

definition loadProfileIdentity :: "crypto \<Rightarrow> client_paths \<Rightarrow> (string \<rightharpoonup> disk_file) \<Rightarrow> start_error + profile \<times> identity" where
  "loadProfileIdentity cr paths fs = (case profile_LoadFile (cp_profile paths) fs of
       Inl e \<Rightarrow> Inl (ProfileNotLoaded e)
     | Inr v \<Rightarrow> (case LoadFile (cp_identity paths) fs of
         Inl e \<Rightarrow> Inl (IdentityNotLoaded e)
       | Inr localIdentity \<Rightarrow> (case ValidateWithIdentity cr v localIdentity of
           Some e \<Rightarrow> Inl (ProfileMismatch e)
         | None \<Rightarrow> Inr (v, localIdentity))))"

subsection \<open>What a successful command leaves\<close>

text \<open>The identity that is there is kept, one that is not is saved; nothing else changes.\<close>

lemma init_identity_facts:
  assumes "init_identity cr paths rd fs = (Inr i, fs')"
  shows "LoadFile (cp_identity paths) fs' = Inr i" "fs (cp_identity paths) \<noteq> None \<Longrightarrow> fs' = fs"
    "q \<noteq> cp_identity paths \<Longrightarrow> fs' q = fs q"
proof -
  show "LoadFile (cp_identity paths) fs' = Inr i"
  proof (cases "fs (cp_identity paths)")
    case None
    then obtain seed where "SaveNewFile (ir_identity_io rd) (cp_identity paths) (Some (Generate cr seed)) fs = (None, fs')"
      "i = Generate cr seed"
      using assms by (auto simp: init_identity_def Let_def split: option.splits prod.splits)
    then show ?thesis by (intro load_stored) (auto simp: SaveNewFile_def Let_def split: if_splits)
  qed (use assms in \<open>auto simp: init_identity_def split: sum.splits\<close>)
  show "fs (cp_identity paths) \<noteq> None \<Longrightarrow> fs' = fs"
    using assms by (auto simp: init_identity_def split: sum.splits)
  show "q \<noteq> cp_identity paths \<Longrightarrow> fs' q = fs q"
    using assms by (auto simp: init_identity_def SaveNewFile_def Let_def split: if_splits option.splits prod.splits sum.splits)
qed

lemma saved_profile:
  assumes "SaveFile io temporary path v fs = (None, fs')"
  shows "profile_Validate v = None" "fs' = fs(path \<mapsto> \<lparr>f_perm = 0x180, f_data = stored_profile v\<rparr>)"
  using assms by (auto simp: SaveFile_def Let_def split: option.splits if_splits)

lemma LoadFile_same: "fs path = fs' path \<Longrightarrow> LoadFile path fs = LoadFile path fs'"
  by (simp add: LoadFile_def)

text \<open>The parts of a successful run.\<close>

lemma runInit_parts:
  assumes "runInit cr parse paths rd arguments fs = (None, fs')"
  obtains baseName serverURL i fs1 address accessKey
  where "init_options parse (savedServerURL (cp_profile paths) fs) arguments = Inr (baseName, serverURL)"
    "init_identity cr paths rd fs = (Inr i, fs1)" "CanonicalAddress cr baseName (PublicKey i) = Some address"
    "init_access_key parse rd serverURL fs1 = Inr accessKey"
    "SaveFile (ir_profile_io rd) (cp_temporary paths) (cp_profile paths)
       \<lparr>pl_Version = profileVersion, pl_BaseName = baseName, pl_Address = address, pl_ServerURL = serverURL, pl_AccessKey = accessKey\<rparr> fs1
     = (None, fs')"
  using assms by (auto simp: runInit_def split: sum.splits prod.splits option.splits)

text \<open>What the checks of \<open>init\<close> leave for those of a connection.\<close>

lemma init_options_facts:
  assumes "init_options parse saved arguments = Inr (baseName, serverURL)"
  shows "baseName = hd arguments" "ValidBaseName baseName" "validateServerURL parse serverURL"
  using assms by (auto simp: init_options_def Let_def split: if_splits sum.splits prod.splits)

definition insecure_url :: "(string \<Rightarrow> server_url option) \<Rightarrow> string \<Rightarrow> bool" where
  "insecure_url parse url \<longleftrightarrow> (\<exists>u. parse url = Some u \<and> url_Scheme u = ''ws'' \<and> \<not> local_hostname (url_Hostname u))"

lemma initial_connect_checks:
  assumes "ValidAddress address" "AddressMatchesKey cr address (PublicKey i)" "url \<noteq> []" "validateServerURL parse url"
    and "key = [] \<Longrightarrow> isLocalServer parse url"
  shows "connect_checks cr (map_option url_parts.truncate \<circ> parse)
      \<lparr>kc_URL = url, kc_Address = address, kc_QueueSize = n, kc_HandshakeTimeout = t, kc_WriteTimeout = w, kc_AccessKey = key, kc_Identity = Some i\<rparr> =
    (if insecure_url parse url then Some InsecureAccessKey else None)"
  using assms
  by (auto simp: connect_checks_def validateServerURL_def isLocalServer_def insecure_url_def local_hostname_def Let_def
      url_parts.defs split: option.splits)

subsection \<open>Initialised and ready\<close>

definition connect_config_of :: "profile \<Rightarrow> identity \<Rightarrow> connect_config" where
  "connect_config_of v i = \<lparr>kc_URL = pl_ServerURL v, kc_Address = pl_Address v, kc_QueueSize = 0, kc_HandshakeTimeout = 0,
     kc_WriteTimeout = 0, kc_AccessKey = pl_AccessKey v, kc_Identity = Some i\<rparr>"

lemma loaded_profile_checks:
  assumes "crypto_laws cr" "profile_Validate v = None" "ValidateWithIdentity cr v i = None" "validateServerURL parse (pl_ServerURL v)"
    and "pl_AccessKey v = [] \<Longrightarrow> isLocalServer parse (pl_ServerURL v)"
  shows "connect_checks cr (map_option url_parts.truncate \<circ> parse) (connect_config_of v i) =
    (if insecure_url parse (pl_ServerURL v) then Some InsecureAccessKey else None)"
  unfolding connect_config_of_def
proof (rule initial_connect_checks)
  show "ValidAddress (pl_Address v)" "pl_ServerURL v \<noteq> []"
    using assms(2) by (auto simp: profile_Validate_def split: if_splits)
qed (use assms(4,5) profile_address_matches[OF assms(1,3)] in auto)

text \<open>
  C20: After an \<open>init\<close> that reports success, every command loads the profile with the chosen name,
  server and access key together with its identity: the identity that was there before, left
  untouched, or the one just generated.  No other file has changed, a server that is not local has an
  access key, and the checks of a connection pass unless the URL is a plain one to a remote host.
\<close>

theorem init_then_ready:
  assumes "crypto_laws cr" "cp_identity paths \<noteq> cp_profile paths" "runInit cr parse paths rd arguments fs = (None, fs')"
    and "init_options parse (savedServerURL (cp_profile paths) fs) arguments = Inr (baseName, serverURL)" "valid_utf8 serverURL"
    and "init_access_key parse rd serverURL (snd (init_identity cr paths rd fs)) = Inr accessKey" "valid_utf8 accessKey"
  shows "\<exists>v i. loadProfileIdentity cr paths fs' = Inr (v, i) \<and>
      pl_BaseName v = hd arguments \<and> pl_ServerURL v = serverURL \<and> pl_AccessKey v = accessKey \<and>
      (fs (cp_identity paths) \<noteq> None \<longrightarrow> fs' (cp_identity paths) = fs (cp_identity paths)) \<and>
      (\<forall>q. q \<noteq> cp_identity paths \<and> q \<noteq> cp_profile paths \<longrightarrow> fs' q = fs q) \<and>
      (accessKey = [] \<longrightarrow> isLocalServer parse serverURL) \<and>
      connect_checks cr (map_option url_parts.truncate \<circ> parse) (connect_config_of v i) =
        (if insecure_url parse serverURL then Some InsecureAccessKey else None)"
proof -
  from assms(3) obtain i fs1 address
    where i: "init_identity cr paths rd fs = (Inr i, fs1)" "CanonicalAddress cr baseName (PublicKey i) = Some address"
    and key: "init_access_key parse rd serverURL fs1 = Inr accessKey"
    and save: "SaveFile (ir_profile_io rd) (cp_temporary paths) (cp_profile paths)
      \<lparr>pl_Version = profileVersion, pl_BaseName = baseName, pl_Address = address, pl_ServerURL = serverURL, pl_AccessKey = accessKey\<rparr> fs1
     = (None, fs')"
    using assms(4,6) by (elim runInit_parts) auto
  define v where "v = \<lparr>pl_Version = profileVersion, pl_BaseName = baseName, pl_Address = address, pl_ServerURL = serverURL,
    pl_AccessKey = accessKey\<rparr>"
  have v: "pl_BaseName v = baseName" "pl_Address v = address" "pl_ServerURL v = serverURL" "pl_AccessKey v = accessKey"
    by (simp_all add: v_def)
  note saved = saved_profile[OF save, folded v_def]
  have files: "fs' q = fs1 q" if "q \<noteq> cp_profile paths" for q using saved(2) that by simp
  have "profile_LoadFile (cp_profile paths) fs' = Inr v"
    using load_saved[OF saved(1)] saved(2) v assms(5,7) by simp
  moreover have "LoadFile (cp_identity paths) fs' = Inr i"
    using init_identity_facts(1)[OF i(1)] LoadFile_same[where fs = fs' and fs' = fs1, OF files[OF assms(2)]] by simp
  moreover have matches: "ValidateWithIdentity cr v i = None"
    using saved(1) i(2) v by (simp add: ValidateWithIdentity_def)
  ultimately have load: "loadProfileIdentity cr paths fs' = Inr (v, i)" by (simp add: loadProfileIdentity_def)
  have local: "isLocalServer parse serverURL" if "accessKey = []"
    using key that by (auto simp: init_access_key_def split: sum.splits prod.splits if_splits)
  note options = init_options_facts[OF assms(4)]
  have checks: "connect_checks cr (map_option url_parts.truncate \<circ> parse) (connect_config_of v i) =
      (if insecure_url parse serverURL then Some InsecureAccessKey else None)"
    using loaded_profile_checks[OF assms(1) saved(1) matches, of parse] options(3) local v by simp
  have others: "fs' q = fs q" if "q \<noteq> cp_identity paths" "q \<noteq> cp_profile paths" for q
    using files[OF that(2)] init_identity_facts(3)[OF i(1) that(1)] by simp
  have kept: "fs' (cp_identity paths) = fs (cp_identity paths)" if "fs (cp_identity paths) \<noteq> None"
    using files[OF assms(2)] init_identity_facts(2)[OF i(1) that] by simp
  show ?thesis
    using load v options(1) local checks others kept by blast
qed

subsection \<open>A concrete run\<close>

definition demo_url :: server_url where
  "demo_url = \<lparr>url_Scheme = ''wss'', url_Host = ''signal.example'', url_Hostname = ''signal.example'', url_HasUser = False\<rparr>"

definition demo_paths :: client_paths where
  "demo_paths = \<lparr>cp_identity = ''identity.json'', cp_profile = ''profile.json'', cp_temporary = ''.profile-1''\<rparr>"

definition demo_init :: init_readings where
  "demo_init = \<lparr>ir_seed = Some demo_seed, ir_identity_io = no_faults, ir_env = (\<lambda>_. []),
     ir_secret = AtTerminal ''correct horse battery staple'' False, ir_profile_io = no_save_faults\<rparr>"

definition demo_init_arguments :: "string list" where
  "demo_init_arguments = [''carol'', ''--server'', ''wss://signal.example/v1/ws'']"

definition demo_key :: string where "demo_key = ''correct horse battery staple''"

lemma demo_init_options: "init_options (\<lambda>_. Some demo_url) saved demo_init_arguments = Inr (''carol'', ''wss://signal.example/v1/ws'')"
proof -
  have "parse_flags init_flags [''--server'', ''wss://signal.example/v1/ws''] saved = Inr (''wss://signal.example/v1/ws'', [])"
    using parse_value_flag[of "''server''" init_flags "\<lambda>v url. Some v" "''wss://signal.example/v1/ws''" "[]" saved]
    by (simp add: init_flags_def string_flag_def flag_name_def parse_no_flags)
  then show ?thesis
    by (simp add: init_options_def demo_init_arguments_def demo_name validateServerURL_def demo_url_def)
qed

lemma demo_init_identity:
  "init_identity demo_crypto demo_paths demo_init Map.empty =
     (Inr demo_identity, [''identity.json'' \<mapsto> \<lparr>f_perm = 0x180, f_data = stored_identity demo_identity\<rparr>])"
  using demo_valid_identity
  by (simp add: init_identity_def demo_paths_def demo_init_def SaveNewFile_def no_faults_def Let_def demo_identity_def)

lemma demo_init_key: "init_access_key (\<lambda>_. Some demo_url) demo_init url fs = Inr demo_key"
  by (simp add: init_access_key_def AccessKeyFromEnvironment_def demo_init_def readSecret_def demo_key_def Let_def)

lemma demo_init_texts: "valid_utf8 ''wss://signal.example/v1/ws''" "valid_utf8 demo_key"
  unfolding demo_key_def by code_simp+

lemma demo_canonical: "CanonicalAddress demo_crypto ''carol'' (PublicKey demo_identity) = Some demo_caller"
  using canonical_facts[OF demo_crypto_laws demo_name, of "PublicKey demo_identity"] by (auto simp: demo_caller_def)

lemma demo_io:
  "sv_mkdir (ir_profile_io demo_init) = False" "sv_create (ir_profile_io demo_init) = False" "sv_chmod (ir_profile_io demo_init) = False"
  "sv_write (ir_profile_io demo_init) = False" "sv_sync (ir_profile_io demo_init) = False" "sv_close (ir_profile_io demo_init) = False"
  "sv_rename (ir_profile_io demo_init) = False"
  by (simp_all add: demo_init_def no_save_faults_def)

lemma demo_runInit: "\<exists>fs'. runInit demo_crypto (\<lambda>_. Some demo_url) demo_paths demo_init demo_init_arguments Map.empty = (None, fs')"
proof -
  have "profile_Validate \<lparr>pl_Version = profileVersion, pl_BaseName = ''carol'', pl_Address = demo_caller,
      pl_ServerURL = ''wss://signal.example/v1/ws'', pl_AccessKey = demo_key\<rparr> = None"
    using demo_profile_valid by (simp add: demo_profile_def demo_key_def profileVersion_def)
  then show ?thesis
    by (simp add: runInit_def demo_init_options demo_init_identity demo_canonical demo_init_key SaveFile_def Let_def demo_io)
qed

theorem init_then_ready_witness:
  "\<exists>fs' v i. runInit demo_crypto (\<lambda>_. Some demo_url) demo_paths demo_init demo_init_arguments Map.empty = (None, fs') \<and>
     loadProfileIdentity demo_crypto demo_paths fs' = Inr (v, i) \<and> pl_BaseName v = ''carol''"
proof -
  obtain fs' where run: "runInit demo_crypto (\<lambda>_. Some demo_url) demo_paths demo_init demo_init_arguments Map.empty = (None, fs')"
    using demo_runInit by blast
  have "cp_identity demo_paths \<noteq> cp_profile demo_paths" by (simp add: demo_paths_def)
  from init_then_ready[OF demo_crypto_laws this run demo_init_options demo_init_texts(1) demo_init_key demo_init_texts(2)]
  show ?thesis using run by (auto simp: demo_init_arguments_def)
qed

end
