(* ===== verification/Daemon.thy ===== *)
theory Daemon
  imports Signaling_Client
begin

text \<open>
  The background daemon, \<open>internal/client/daemon/daemon.go\<close>: incoming invitations, their
  rate limit, the hand-over of a call to a local call window, the signals it relays between the
  window and the signaling server, and the reconnection delays of \<open>Run\<close>.

  Every critical section runs under the service's mutex.  A handler is one step: \<open>handleSignal\<close>
  and \<open>handleInvite\<close> on a message, \<open>handleLocal\<close> from its start to the answer to the attach
  request, and each round of its loop.  A local connection is a number.
\<close>

subsection \<open>State\<close>

definition BehaviorOpenTerminal :: string where "BehaviorOpenTerminal = ''open-terminal''"
definition BehaviorPrint :: string where "BehaviorPrint = ''print''"
definition BehaviorIgnore :: string where "BehaviorIgnore = ''ignore''"

record daemon_config =
  dc_Username :: string
  dc_SocketPath :: string
  dc_Behavior :: string
  dc_DoNotDisturb :: bool
  dc_InviteLimit :: int
  dc_InviteWindow :: duration
  dc_ReconnectMin :: duration
  dc_ReconnectMax :: duration
  dc_StableConnection :: duration

record wire_message =
  w_Kind :: string
  w_CallID :: string
  w_Username :: string
  w_STUNURLs :: "string list"
  w_Invite :: signal_message
  w_Signal :: signal_message
  w_Error :: string

record pending_call =
  pc_invite :: signal_message
  pc_claimed :: bool

record local_peer =
  lp_call :: "string option"
  lp_sent :: "wire_message list"
  lp_closed :: bool

record service =
  ds_config :: daemon_config
  ds_signal :: "signal_client option"
  ds_stunURLs :: "string list"
  ds_pending :: "string \<rightharpoonup> pending_call"
  ds_sessions :: "string \<rightharpoonup> nat"
  ds_invites :: "string \<rightharpoonup> time list"
  ds_peers :: "nat \<Rightarrow> local_peer"

datatype daemon_error = MissingSettings | InvalidBehavior

text \<open>The checks and defaults at the start of \<open>Run\<close>.\<close>

definition run_config :: "bool \<Rightarrow> daemon_config \<Rightarrow> daemon_error + daemon_config" where
  "run_config has_connect c = (
     if \<not> has_connect \<or> dc_Username c = [] \<or> dc_SocketPath c = [] then Inl MissingSettings
     else
       let c = (if dc_Behavior c = [] then c\<lparr>dc_Behavior := BehaviorOpenTerminal\<rparr> else c) in
       if dc_Behavior c \<noteq> BehaviorOpenTerminal \<and> dc_Behavior c \<noteq> BehaviorPrint \<and> dc_Behavior c \<noteq> BehaviorIgnore
       then Inl InvalidBehavior
       else
         let c = (if dc_InviteLimit c \<le> 0 then c\<lparr>dc_InviteLimit := 3\<rparr> else c);
             c = (if dc_InviteWindow c \<le> 0 then c\<lparr>dc_InviteWindow := minute\<rparr> else c);
             c = (if dc_ReconnectMin c \<le> 0 then c\<lparr>dc_ReconnectMin := second\<rparr> else c);
             c = (if dc_ReconnectMax c < dc_ReconnectMin c then c\<lparr>dc_ReconnectMax := 30 * second\<rparr> else c);
             c = (if dc_StableConnection c \<le> 0 then c\<lparr>dc_StableConnection := minute\<rparr> else c)
         in Inr c)"

definition new_peer :: local_peer where
  "new_peer = \<lparr>lp_call = None, lp_sent = [], lp_closed = False\<rparr>"

definition new_service :: "daemon_config \<Rightarrow> service" where
  "new_service c = \<lparr>ds_config = c, ds_signal = None, ds_stunURLs = [], ds_pending = Map.empty,
     ds_sessions = Map.empty, ds_invites = Map.empty, ds_peers = (\<lambda>p. new_peer)\<rparr>"

subsection \<open>The invitation limit\<close>

definition allowInviteLocked :: "string \<Rightarrow> time \<Rightarrow> service \<Rightarrow> service \<times> bool" where
  "allowInviteLocked clr now s = (
     let cutoff = now - dc_InviteWindow (ds_config s);
         values = filter (\<lambda>v. cutoff < v) (case ds_invites s clr of Some ts \<Rightarrow> ts | None \<Rightarrow> [])
     in if int (length values) \<ge> dc_InviteLimit (ds_config s)
        then (s\<lparr>ds_invites := (ds_invites s)(clr \<mapsto> values)\<rparr>, False)
        else (s\<lparr>ds_invites := (ds_invites s)(clr \<mapsto> values @ [now])\<rparr>, True))"

subsection \<open>Local windows\<close>

definition empty_wire :: wire_message where
  "empty_wire = \<lparr>w_Kind = [], w_CallID = [], w_Username = [], w_STUNURLs = [], w_Invite = empty_signal,
     w_Signal = empty_signal, w_Error = []\<rparr>"

definition wire_error :: "string \<Rightarrow> wire_message" where
  "wire_error text = empty_wire\<lparr>w_Kind := ''error'', w_Error := text\<rparr>"

definition wire_signal :: "signal_message \<Rightarrow> wire_message" where
  "wire_signal m = empty_wire\<lparr>w_Kind := ''signal'', w_Signal := m\<rparr>"

text \<open>\<open>peer.send\<close>: \<open>broken\<close> says whether writing to the connection fails.\<close>

definition peer_send :: "bool \<Rightarrow> nat \<Rightarrow> wire_message \<Rightarrow> service \<Rightarrow> service" where
  "peer_send broken p w s = (if broken then s
     else s\<lparr>ds_peers := (ds_peers s)(p := (ds_peers s p)\<lparr>lp_sent := lp_sent (ds_peers s p) @ [w]\<rparr>)\<rparr>)"

definition peer_close :: "nat \<Rightarrow> service \<Rightarrow> service" where
  "peer_close p s = s\<lparr>ds_peers := (ds_peers s)(p := (ds_peers s p)\<lparr>lp_closed := True\<rparr>)\<rparr>"

text \<open>A send whose failure closes the window's connection.\<close>

definition notify :: "(nat \<Rightarrow> bool) \<Rightarrow> wire_message \<Rightarrow> nat \<Rightarrow> service \<Rightarrow> service" where
  "notify broken w p s = (if broken p then peer_close p s else peer_send False p w s)"

definition release :: "string \<Rightarrow> nat \<Rightarrow> service \<Rightarrow> service" where
  "release callID p s = (if ds_sessions s callID = Some p
     then s\<lparr>ds_sessions := (ds_sessions s)(callID := None),
            ds_pending := (case ds_pending s callID of None \<Rightarrow> ds_pending s
              | Some pc \<Rightarrow> (ds_pending s)(callID \<mapsto> pc\<lparr>pc_claimed := False\<rparr>))\<rparr>
     else s)"

text \<open>\<open>return\<close> from the loop of \<open>handleLocal\<close>.\<close>

definition leave_local :: "string \<Rightarrow> nat \<Rightarrow> service \<Rightarrow> service" where
  "leave_local callID p s = (let s = release callID p s in
     peer_close p (s\<lparr>ds_peers := (ds_peers s)(p := (ds_peers s p)\<lparr>lp_call := None\<rparr>)\<rparr>))"

text \<open>The attach request: \<open>None\<close> when it cannot be decoded.\<close>

definition attach_local :: "bool \<Rightarrow> nat \<Rightarrow> wire_message option \<Rightarrow> service \<Rightarrow> service" where
  "attach_local broken p request s = (
     let refuse = (\<lambda>text. peer_close p (peer_send broken p (wire_error text) s)) in
     case request of
       None \<Rightarrow> refuse ''invalid daemon handoff request''
     | Some attach \<Rightarrow>
         if w_Kind attach \<noteq> ''attach'' \<or> w_CallID attach = [] then refuse ''invalid daemon handoff request''
         else case ds_pending s (w_CallID attach) of
             None \<Rightarrow> refuse ''incoming call is no longer available''
           | Some pc \<Rightarrow>
               if pc_claimed pc \<or> ds_signal s = None then refuse ''incoming call is no longer available''
               else
                 let callID = w_CallID attach;
                     ready = empty_wire\<lparr>w_Kind := ''ready'', w_Username := dc_Username (ds_config s),
                       w_STUNURLs := ds_stunURLs s, w_Invite := pc_invite pc\<rparr>;
                     s = s\<lparr>ds_pending := (ds_pending s)(callID \<mapsto> pc\<lparr>pc_claimed := True\<rparr>),
                           ds_sessions := (ds_sessions s)(callID \<mapsto> p),
                           ds_peers := (ds_peers s)(p := (ds_peers s p)\<lparr>lp_call := Some callID\<rparr>)\<rparr>
                 in if broken then leave_local callID p s else peer_send False p ready s)"

definition local_types :: "signal_type list" where
  "local_types = [SignalCallAccept, SignalCallDecline, SignalCallEnd, SignalWebRTCOffer, SignalWebRTCAnswer,
     SignalWebRTCICE, SignalWebRTCICEComplete]"

definition validLocalSignal :: "time \<Rightarrow> string \<Rightarrow> signal_message \<Rightarrow> service \<Rightarrow> bool" where
  "validLocalSignal now callID m s = (
     if ValidateSignal (NewValidator now) m \<noteq> None \<or> sm_call_id m \<noteq> callID \<or> sm_from m \<noteq> dc_Username (ds_config s)
     then False
     else case ds_pending s callID of
         None \<Rightarrow> False
       | Some pc \<Rightarrow> if sm_to m \<noteq> sm_from (pc_invite pc) then False else sm_type m \<in> set local_types)"

text \<open>
  One round of the loop of \<open>handleLocal\<close>; \<open>now\<close> is read by the validators, \<open>fails\<close> says whether
  the signaling connection fails to write, \<open>reason\<close> is the text of its error.
\<close>

definition local_round :: "time \<Rightarrow> bool \<Rightarrow> bool \<Rightarrow> string \<Rightarrow> nat \<Rightarrow> wire_message option \<Rightarrow> service \<Rightarrow> service" where
  "local_round now broken fails reason p input s = (case lp_call (ds_peers s p) of
       None \<Rightarrow> s
     | Some callID \<Rightarrow> (case input of
         None \<Rightarrow> leave_local callID p s
       | Some incoming \<Rightarrow>
           if w_Kind incoming \<noteq> ''signal'' \<or> \<not> validLocalSignal now callID (w_Signal incoming) s
           then peer_send broken p (wire_error ''invalid signaling message from local call window'') s
           else (case (ds_signal s, ds_pending s callID) of
               (Some client, Some pc) \<Rightarrow>
                 let (client, e) = Send now fails (w_Signal incoming) client; s = s\<lparr>ds_signal := Some client\<rparr> in
                 if e \<noteq> None then leave_local callID p (peer_send broken p (wire_error reason) s)
                 else if sm_type (w_Signal incoming) = SignalCallDecline \<or> sm_type (w_Signal incoming) = SignalCallEnd
                 then leave_local callID p (s\<lparr>ds_pending := (ds_pending s)(callID := None)\<rparr>)
                 else s
             | _ \<Rightarrow> leave_local callID p s)))"

subsection \<open>Signals from the server\<close>

definition isTerminalSignal :: "signal_type \<Rightarrow> bool" where
  "isTerminalSignal t \<longleftrightarrow> t \<in> set [SignalCallCancel, SignalCallDecline, SignalCallTimeout, SignalCallEnd]"

text \<open>
  \<open>send\<close>: a message of the connected client in the daemon's name.  Its error is ignored by every
  caller.
\<close>

definition daemon_send ::
  "crypto \<Rightarrow> client_readings \<Rightarrow> bool \<Rightarrow> signal_type \<Rightarrow> string \<Rightarrow> string \<Rightarrow> string \<Rightarrow> service \<Rightarrow> service" where
  "daemon_send cr rd fails t from to callID s = (case ds_signal s of
       None \<Rightarrow> s
     | Some client \<Rightarrow> (case NewMessage cr rd (sg_address client) (sg_identity client) t to callID None of
           Inl e \<Rightarrow> s
         | Inr m \<Rightarrow> s\<lparr>ds_signal := Some (fst (Send (cr_checked rd) fails (m\<lparr>sm_from := from\<rparr>) client))\<rparr>))"

datatype incoming = Quiet | Announced | Launched

text \<open>
  \<open>handleInvite\<close>: \<open>verified\<close> is what \<open>VerifyInvitation\<close> says, \<open>True\<close> when it is not set.  The
  second result is what the user gets to see: nothing, a line of output, or a window.
\<close>

definition handleInvite ::
  "crypto \<Rightarrow> client_readings \<Rightarrow> bool \<Rightarrow> bool \<Rightarrow> time \<Rightarrow> signal_message \<Rightarrow> service \<Rightarrow> service \<times> incoming" where
  "handleInvite cr rd fails verified now invitation s = (
     let decline = daemon_send cr rd fails SignalCallDecline (dc_Username (ds_config s)) (sm_from invitation) (sm_call_id invitation);
         quiet = dc_DoNotDisturb (ds_config s) \<or> dc_Behavior (ds_config s) = BehaviorIgnore in
     if \<not> verified then (decline s, Quiet)
     else
       let (s, allowed) = allowInviteLocked (sm_from invitation) now s;
           duplicate = ds_pending s (sm_call_id invitation) \<noteq> None;
           s = (if allowed \<and> \<not> duplicate \<and> \<not> quiet
                then s\<lparr>ds_pending := (ds_pending s)(sm_call_id invitation \<mapsto> \<lparr>pc_invite = invitation, pc_claimed = False\<rparr>)\<rparr> else s) in
       if duplicate then (s, Quiet)
       else if \<not> allowed \<or> quiet then (decline s, Quiet)
       else (s, if dc_Behavior (ds_config s) = BehaviorPrint then Announced else Launched))"

text \<open>\<open>order\<close> is the iteration order of the session table.\<close>

definition handleSignal ::
  "crypto \<Rightarrow> client_readings \<Rightarrow> bool \<Rightarrow> bool \<Rightarrow> time \<Rightarrow> (nat \<Rightarrow> bool) \<Rightarrow> nat list \<Rightarrow> signal_message \<Rightarrow> service \<Rightarrow> service" where
  "handleSignal cr rd fails verified now broken order m s = (
     if sm_type m = SignalSessionError then fold (notify broken (wire_signal m)) order s
     else if sm_type m = SignalCallInvite then fst (handleInvite cr rd fails verified now m s)
     else
       let peer = ds_sessions s (sm_call_id m);
           s = (if isTerminalSignal (sm_type m)
                then s\<lparr>ds_pending := (ds_pending s)(sm_call_id m := None), ds_sessions := (ds_sessions s)(sm_call_id m := None)\<rparr>
                else s)
       in case peer of None \<Rightarrow> s | Some p \<Rightarrow> notify broken (wire_signal m) p s)"

definition setSignal :: "signal_client \<Rightarrow> string list \<Rightarrow> service \<Rightarrow> service" where
  "setSignal client urls s = s\<lparr>ds_signal := Some client, ds_stunURLs := urls\<rparr>"

text \<open>\<open>clearSignal\<close> for the connected client: every window is told and closed.\<close>

definition clearSignal :: "(nat \<Rightarrow> bool) \<Rightarrow> string \<Rightarrow> nat list \<Rightarrow> service \<Rightarrow> service" where
  "clearSignal broken reason order s =
     fold (\<lambda>p s. peer_close p (peer_send (broken p) p (wire_error (''signaling connection lost: '' @ reason)) s)) order
       (s\<lparr>ds_signal := None, ds_stunURLs := [], ds_pending := Map.empty, ds_sessions := Map.empty\<rparr>)"

subsection \<open>Reconnecting\<close>

text \<open>
  The loop of \<open>Run\<close>: an attempt either fails or leads to a connection that lasts; the result is
  the delay before each next attempt, and the last \<open>backoff\<close>.
\<close>

datatype attempt = AttemptFailed | ConnectedFor duration

fun reconnect_delays :: "daemon_config \<Rightarrow> duration \<Rightarrow> attempt list \<Rightarrow> duration list" where
  "reconnect_delays c backoff [] = []"
| "reconnect_delays c backoff (a # as) = (
     let backoff = (case a of AttemptFailed \<Rightarrow> backoff
           | ConnectedFor d \<Rightarrow> if d \<ge> dc_StableConnection c then dc_ReconnectMin c else backoff)
     in backoff # reconnect_delays c (min (backoff * 2) (dc_ReconnectMax c)) as)"

subsection \<open>The limit is a sliding window\<close>

fun invite_run :: "service \<Rightarrow> (string \<times> time) list \<Rightarrow> bool list" where
  "invite_run s [] = []"
| "invite_run s ((u, t) # evs) = snd (allowInviteLocked u t s) # invite_run (fst (allowInviteLocked u t s)) evs"

text \<open>The reference keeps every invitation it let through, of every caller, and forgets nothing.\<close>

fun sliding_run :: "int \<Rightarrow> duration \<Rightarrow> (string \<times> time) list \<Rightarrow> (string \<times> time) list \<Rightarrow> bool list" where
  "sliding_run limit window passed [] = []"
| "sliding_run limit window passed ((u, t) # evs) = (
     let ok = int (length (filter (\<lambda>(v, x). v = u \<and> t - window < x) passed)) < limit
     in ok # sliding_run limit window (if ok then passed @ [(u, t)] else passed) evs)"

definition kept :: "service \<Rightarrow> string \<Rightarrow> time list" where
  "kept s u = (case ds_invites s u of Some ts \<Rightarrow> ts | None \<Rightarrow> [])"

definition passed_by :: "(string \<times> time) list \<Rightarrow> string \<Rightarrow> time list" where
  "passed_by passed u = map snd (filter (\<lambda>(v, x). v = u) passed)"

text \<open>The service remembers what still counts at any time from \<open>t\<close> on.\<close>

definition remembers :: "service \<Rightarrow> (string \<times> time) list \<Rightarrow> time \<Rightarrow> bool" where
  "remembers s passed t \<longleftrightarrow> (\<forall>u. \<forall>t' \<ge> t. filter (\<lambda>x. t' - dc_InviteWindow (ds_config s) < x) (kept s u) =
     filter (\<lambda>x. t' - dc_InviteWindow (ds_config s) < x) (passed_by passed u))"

lemma filter_passed_by:
  "length (filter (\<lambda>(v, x). v = u \<and> P x) passed) = length (filter P (passed_by passed u))"
  by (induction passed) (auto simp: passed_by_def)

lemma allow_kept:
  "kept (fst (allowInviteLocked u t s)) v =
     (if v = u then filter (\<lambda>x. t - dc_InviteWindow (ds_config s) < x) (kept s u) @ (if snd (allowInviteLocked u t s) then [t] else [])
      else kept s v)"
  "ds_config (fst (allowInviteLocked u t s)) = ds_config s"
  "snd (allowInviteLocked u t s) \<longleftrightarrow>
     int (length (filter (\<lambda>x. t - dc_InviteWindow (ds_config s) < x) (kept s u))) < dc_InviteLimit (ds_config s)"
  by (auto simp: allowInviteLocked_def kept_def Let_def)

lemma remembers_step:
  assumes "remembers s passed t0" "t0 \<le> t"
  shows "snd (allowInviteLocked u t s) \<longleftrightarrow>
      int (length (filter (\<lambda>(v, x). v = u \<and> t - dc_InviteWindow (ds_config s) < x) passed)) < dc_InviteLimit (ds_config s)"
    and "remembers (fst (allowInviteLocked u t s)) (if snd (allowInviteLocked u t s) then passed @ [(u, t)] else passed) t"
proof -
  let ?w = "dc_InviteWindow (ds_config s)"
  show "snd (allowInviteLocked u t s) \<longleftrightarrow>
      int (length (filter (\<lambda>(v, x). v = u \<and> t - ?w < x) passed)) < dc_InviteLimit (ds_config s)"
    using assms by (simp add: allow_kept filter_passed_by remembers_def)
  have late: "filter (\<lambda>x. t' - ?w < x) (filter (\<lambda>x. t - ?w < x) xs) = filter (\<lambda>x. t' - ?w < x) xs" if "t \<le> t'" for t' xs
    using that by (induction xs) auto
  show "remembers (fst (allowInviteLocked u t s)) (if snd (allowInviteLocked u t s) then passed @ [(u, t)] else passed) t"
    unfolding remembers_def
  proof (intro allI impI)
    fix v t' assume "t \<le> t'"
    then have old: "filter (\<lambda>x. t' - ?w < x) (kept s v) = filter (\<lambda>x. t' - ?w < x) (passed_by passed v)" for v
      using assms by (simp add: remembers_def)
    have "passed_by (if ok then passed @ [(u, t)] else passed) v = passed_by passed v @ (if ok \<and> v = u then [t] else [])" for ok
      by (simp add: passed_by_def)
    then show "filter (\<lambda>x. t' - dc_InviteWindow (ds_config (fst (allowInviteLocked u t s))) < x) (kept (fst (allowInviteLocked u t s)) v) =
        filter (\<lambda>x. t' - dc_InviteWindow (ds_config (fst (allowInviteLocked u t s))) < x)
          (passed_by (if snd (allowInviteLocked u t s) then passed @ [(u, t)] else passed) v)"
      using old late[OF \<open>t \<le> t'\<close>] by (simp add: allow_kept)
  qed
qed

lemma invite_run_sliding:
  assumes "remembers s passed t0" "sorted (t0 # map snd evs)"
  shows "invite_run s evs = sliding_run (dc_InviteLimit (ds_config s)) (dc_InviteWindow (ds_config s)) passed evs"
  using assms
proof (induction evs arbitrary: s passed t0)
  case (Cons ev evs)
  obtain u t where ev: "ev = (u, t)" by (cases ev)
  have t: "t0 \<le> t" "sorted (t # map snd evs)" using Cons.prems(2) by (simp_all add: ev)
  note step = remembers_step[OF Cons.prems(1) t(1), of u]
  show ?case
    using Cons.IH[OF step(2) t(2)] step(1) by (simp add: ev allow_kept(2) Let_def)
qed simp

text \<open>
  C31: The daemon's invitation limit, which keeps only the recent times of each caller and drops
  the old ones as it goes, decides every invitation as the plain rule does: let a caller through
  when fewer than the limit of its invitations passed within the last window.
\<close>

theorem invite_limit_is_sliding_window:
  assumes "sorted (map snd evs)"
  shows "invite_run (new_service c) evs = sliding_run (dc_InviteLimit c) (dc_InviteWindow c) [] evs"
proof (cases evs)
  case (Cons ev rest)
  have "remembers (new_service c) [] (snd ev)" by (simp add: remembers_def kept_def passed_by_def new_service_def)
  from invite_run_sliding[OF this, of evs] assms Cons show ?thesis by (simp add: new_service_def)
qed simp

definition demo_daemon :: daemon_config where
  "demo_daemon = \<lparr>dc_Username = ''dave'', dc_SocketPath = ''sock'', dc_Behavior = BehaviorPrint, dc_DoNotDisturb = False,
     dc_InviteLimit = 2, dc_InviteWindow = 60, dc_ReconnectMin = 1, dc_ReconnectMax = 30, dc_StableConnection = 60\<rparr>"

theorem invite_limit_is_sliding_window_witness:
  "invite_run (new_service demo_daemon) [(''ann'', 10), (''ann'', 20), (''bob'', 25), (''ann'', 30), (''ann'', 70), (''ann'', 75)] =
     [True, True, True, False, True, False]"
proof -
  have "sliding_run 2 60 [] [(''ann'', 10), (''ann'', 20), (''bob'', 25), (''ann'', 30), (''ann'', 70), (''ann'', 75)] =
      [True, True, True, False, True, False]" by code_simp
  moreover have "sorted (map snd [(''ann'', 10), (''ann'', 20), (''bob'', 25), (''ann'', 30), (''ann'', 70), (''ann'', 75 :: time)])"
    by simp
  moreover have "dc_InviteLimit demo_daemon = 2" "dc_InviteWindow demo_daemon = 60" by (simp_all add: demo_daemon_def)
  ultimately show ?thesis by (simp only: invite_limit_is_sliding_window)
qed

subsection \<open>Reconnection delays\<close>

lemma delay_step_bounded:
  fixes lo :: int
  assumes "lo \<le> b" "lo \<le> m" "m \<le> hi" "0 < lo"
  shows "lo \<le> min (b * 2) m" "min (b * 2) m \<le> hi"
  using assms by (simp_all add: min_def)

definition next_backoff :: "daemon_config \<Rightarrow> duration \<Rightarrow> attempt \<Rightarrow> duration" where
  "next_backoff c backoff a = (case a of AttemptFailed \<Rightarrow> backoff
     | ConnectedFor d \<Rightarrow> if d \<ge> dc_StableConnection c then dc_ReconnectMin c else backoff)"

lemma reconnect_delays_Cons: "reconnect_delays c backoff (a # as) =
    next_backoff c backoff a # reconnect_delays c (min (next_backoff c backoff a * 2) (dc_ReconnectMax c)) as"
  by (simp add: next_backoff_def Let_def)

lemma next_backoff_range:
  "lo \<le> backoff \<Longrightarrow> lo \<le> dc_ReconnectMin c \<Longrightarrow> lo \<le> next_backoff c backoff a"
  "backoff \<le> hi \<Longrightarrow> dc_ReconnectMin c \<le> hi \<Longrightarrow> next_backoff c backoff a \<le> hi"
  by (simp_all add: next_backoff_def split: attempt.split)

lemma delays_bounded:
  assumes "d \<in> set (reconnect_delays c backoff as)" "lo \<le> backoff" "backoff \<le> hi"
    and bounds: "lo \<le> dc_ReconnectMin c" "dc_ReconnectMin c \<le> hi"
      "lo \<le> dc_ReconnectMax c" "dc_ReconnectMax c \<le> hi" "0 < lo"
  shows "lo \<le> d \<and> d \<le> hi"
  using assms(1-3)
proof (induction as arbitrary: backoff)
  case (Cons a as)
  note b = next_backoff_range(1)[OF Cons.prems(2) bounds(1), of a] next_backoff_range(2)[OF Cons.prems(3) bounds(2), of a]
  note IH = Cons.IH[OF _ delay_step_bounded(1)[OF b(1) bounds(3,4,5)] delay_step_bounded(2)[OF b(1) bounds(3,4,5)]]
  from Cons.prems(1) consider "d = next_backoff c backoff a"
    | "d \<in> set (reconnect_delays c (min (next_backoff c backoff a * 2) (dc_ReconnectMax c)) as)"
    unfolding reconnect_delays_Cons by auto
  then show ?case using b IH by cases auto
qed simp

lemma delays_double:
  assumes "\<forall>a \<in> set as. case a of AttemptFailed \<Rightarrow> True | ConnectedFor d \<Rightarrow> d < dc_StableConnection c" "k < length as"
    "0 < lo" "backoff = min lo (dc_ReconnectMax c)" "0 < dc_ReconnectMax c"
  shows "reconnect_delays c backoff as ! k = min (lo * 2 ^ k) (dc_ReconnectMax c)"
  using assms
proof (induction as arbitrary: backoff k lo)
  case (Cons a as)
  have same: "next_backoff c backoff a = backoff"
    using Cons.prems(1) by (auto simp: next_backoff_def split: attempt.splits)
  have "min (backoff * 2) (dc_ReconnectMax c) = min (lo * 2) (dc_ReconnectMax c)"
    using Cons.prems(3-5) by (simp add: min_def)
  then have unfolded: "reconnect_delays c backoff (a # as) = backoff # reconnect_delays c (min (lo * 2) (dc_ReconnectMax c)) as"
    by (simp only: reconnect_delays_Cons same)
  show ?case
  proof (cases k)
    case 0
    then show ?thesis unfolding unfolded using Cons.prems(4) by simp
  next
    case (Suc j)
    have "reconnect_delays c (min (lo * 2) (dc_ReconnectMax c)) as ! j = min (lo * 2 * 2 ^ j) (dc_ReconnectMax c)"
      using Cons.prems Suc by (intro Cons.IH) auto
    then show ?thesis unfolding Suc unfolded nth_Cons_Suc by (simp add: mult.assoc)
  qed
qed simp

text \<open>
  The daemon waits at least a positive time and at most the larger of its two bounds between
  attempts; while no connection lasts, and the bounds are in order, the delay doubles from the
  lower bound until it stays at the upper one.
\<close>

theorem reconnect_backoff:
  assumes "run_config True c0 = Inr c"
  shows "(\<forall>d \<in> set (reconnect_delays c (dc_ReconnectMin c) as).
      min (dc_ReconnectMin c) (dc_ReconnectMax c) \<le> d \<and> d \<le> max (dc_ReconnectMin c) (dc_ReconnectMax c) \<and> 0 < d) \<and>
    (dc_ReconnectMin c \<le> dc_ReconnectMax c \<and> k < length as \<and>
     (\<forall>a \<in> set as. case a of AttemptFailed \<Rightarrow> True | ConnectedFor d \<Rightarrow> d < dc_StableConnection c) \<longrightarrow>
       reconnect_delays c (dc_ReconnectMin c) as ! k = min (dc_ReconnectMin c * 2 ^ k) (dc_ReconnectMax c))"
proof -
  have pos: "0 < dc_ReconnectMin c" "0 < dc_ReconnectMax c"
    using assms by (auto simp: run_config_def Let_def second_def split: if_splits)
  have "min (dc_ReconnectMin c) (dc_ReconnectMax c) \<le> d \<and> d \<le> max (dc_ReconnectMin c) (dc_ReconnectMax c) \<and> 0 < d"
    if "d \<in> set (reconnect_delays c (dc_ReconnectMin c) as)" for d
  proof -
    have lo: "0 < min (dc_ReconnectMin c) (dc_ReconnectMax c)" using pos by simp
    from delays_bounded[OF that min.cobounded1 max.cobounded1 min.cobounded1 max.cobounded1 min.cobounded2 max.cobounded2 lo] lo
    show ?thesis by linarith
  qed
  moreover have "reconnect_delays c (dc_ReconnectMin c) as ! k = min (dc_ReconnectMin c * 2 ^ k) (dc_ReconnectMax c)"
    if "dc_ReconnectMin c \<le> dc_ReconnectMax c" "k < length as"
      "\<forall>a \<in> set as. case a of AttemptFailed \<Rightarrow> True | ConnectedFor d \<Rightarrow> d < dc_StableConnection c"
    using delays_double[OF that(3,2) pos(1) _ pos(2)] that(1) by simp
  ultimately show ?thesis by blast
qed

theorem reconnect_backoff_witness:
  "run_config True demo_daemon = Inr demo_daemon \<and>
   reconnect_delays demo_daemon 1 (replicate 7 AttemptFailed) ! 6 = 30"
proof -
  have ok: "run_config True demo_daemon = Inr demo_daemon"
    by (simp add: run_config_def demo_daemon_def BehaviorOpenTerminal_def BehaviorPrint_def Let_def)
  with reconnect_backoff[OF ok, of "replicate 7 AttemptFailed" 6] show ?thesis by (simp add: demo_daemon_def)
qed

subsection \<open>Reachable services\<close>

text \<open>Every local connection attaches at most once: \<open>handleLocal\<close> runs once per connection.\<close>

datatype daemon_event =
    SignalConnected signal_client "string list"
  | SignalReceived client_readings bool bool time "nat \<Rightarrow> bool" "nat list" signal_message
  | WindowAttaches bool nat "wire_message option"
  | WindowSends time bool bool string nat "wire_message option"
  | SignalLost "nat \<Rightarrow> bool" string "nat list"

fun daemon_step :: "crypto \<Rightarrow> daemon_event \<Rightarrow> service \<Rightarrow> service" where
  "daemon_step cr (SignalConnected client urls) s = setSignal client urls s"
| "daemon_step cr (SignalReceived rd fails verified now broken order m) s = handleSignal cr rd fails verified now broken order m s"
| "daemon_step cr (WindowAttaches broken p request) s =
     (if lp_call (ds_peers s p) = None \<and> \<not> lp_closed (ds_peers s p) then attach_local broken p request s else s)"
| "daemon_step cr (WindowSends now broken fails reason p input) s = local_round now broken fails reason p input s"
| "daemon_step cr (SignalLost broken reason order) s = clearSignal broken reason order s"

inductive daemon_reachable :: "crypto \<Rightarrow> daemon_config \<Rightarrow> service \<Rightarrow> bool" for cr c where
  start: "daemon_reachable cr c (new_service c)"
| step: "daemon_reachable cr c s \<Longrightarrow> daemon_reachable cr c (daemon_step cr ev s)"

text \<open>
  The window of a session is attached to the session's call, a pending call is kept under its own
  identifier, and every claimed call has its session.
\<close>

definition claims_ok :: "(string \<rightharpoonup> pending_call) \<Rightarrow> (string \<rightharpoonup> nat) \<Rightarrow> (nat \<Rightarrow> local_peer) \<Rightarrow> bool" where
  "claims_ok pending sessions peers \<longleftrightarrow>
     (\<forall>c p. sessions c = Some p \<longrightarrow> lp_call (peers p) = Some c) \<and>
     (\<forall>c pc. pending c = Some pc \<longrightarrow> sm_call_id (pc_invite pc) = c \<and> (pc_claimed pc \<longrightarrow> sessions c \<noteq> None))"

abbreviation daemon_inv :: "service \<Rightarrow> bool" where
  "daemon_inv s \<equiv> claims_ok (ds_pending s) (ds_sessions s) (ds_peers s)"

text \<open>What writing to windows and to the server leaves alone.\<close>

lemma peer_effects [step_simps]:
  "ds_pending (peer_send b p w s) = ds_pending s" "ds_pending (peer_close p s) = ds_pending s"
  "ds_sessions (peer_send b p w s) = ds_sessions s" "ds_sessions (peer_close p s) = ds_sessions s"
  "ds_signal (peer_send b p w s) = ds_signal s" "ds_signal (peer_close p s) = ds_signal s"
  "ds_config (peer_send b p w s) = ds_config s" "ds_config (peer_close p s) = ds_config s"
  "lp_call (ds_peers (peer_send b p w s) q) = lp_call (ds_peers s q)"
  "lp_call (ds_peers (peer_close p s) q) = lp_call (ds_peers s q)"
  by (simp_all add: peer_send_def peer_close_def)

lemma claims_ok_peers:
  "claims_ok pending sessions peers \<Longrightarrow> (\<And>q. lp_call (peers' q) = lp_call (peers q)) \<Longrightarrow> claims_ok pending sessions peers'"
  by (simp add: claims_ok_def)

lemma notify_effects [step_simps]:
  "ds_pending (notify b w p s) = ds_pending s" "ds_sessions (notify b w p s) = ds_sessions s"
  "lp_call (ds_peers (notify b w p s) q) = lp_call (ds_peers s q)"
  "ds_signal (notify b w p s) = ds_signal s" "ds_config (notify b w p s) = ds_config s"
  by (simp_all add: notify_def step_simps)

lemma fold_peer_effects:
  assumes "\<And>p s. ds_pending (f p s) = ds_pending s" "\<And>p s. ds_sessions (f p s) = ds_sessions s"
    "\<And>p s q. lp_call (ds_peers (f p s) q) = lp_call (ds_peers s q)"
  shows "ds_pending (fold f ps s) = ds_pending s" "ds_sessions (fold f ps s) = ds_sessions s"
    "lp_call (ds_peers (fold f ps s) q) = lp_call (ds_peers s q)"
  by (induction ps arbitrary: s) (simp_all add: assms)

lemma daemon_send_effects [step_simps]:
  "ds_pending (daemon_send cr rd fails t from to callID s) = ds_pending s"
  "ds_sessions (daemon_send cr rd fails t from to callID s) = ds_sessions s"
  "ds_peers (daemon_send cr rd fails t from to callID s) = ds_peers s"
  "ds_config (daemon_send cr rd fails t from to callID s) = ds_config s"
  by (simp_all add: daemon_send_def split: option.split sum.split)

lemma allow_effects [step_simps]:
  "ds_pending (fst (allowInviteLocked u t s)) = ds_pending s" "ds_sessions (fst (allowInviteLocked u t s)) = ds_sessions s"
  "ds_peers (fst (allowInviteLocked u t s)) = ds_peers s" "ds_signal (fst (allowInviteLocked u t s)) = ds_signal s"
  by (simp_all add: allowInviteLocked_def Let_def)

lemma release_inv:
  assumes "claims_ok (ds_pending s) (ds_sessions s) peers"
  shows "claims_ok (ds_pending (release c p s)) (ds_sessions (release c p s)) peers"
  using assms by (auto simp: release_def claims_ok_def split: option.split)

lemma release_effects [step_simps]:
  "ds_peers (release c p s) = ds_peers s" "ds_signal (release c p s) = ds_signal s" "ds_config (release c p s) = ds_config s"
  by (simp_all add: release_def)

lemma leave_local_effects [step_simps]:
  "ds_pending (leave_local c p s) = ds_pending (release c p s)" "ds_sessions (leave_local c p s) = ds_sessions (release c p s)"
  "ds_signal (leave_local c p s) = ds_signal s" "ds_config (leave_local c p s) = ds_config s"
  "lp_call (ds_peers (leave_local c p s) q) = (if q = p then None else lp_call (ds_peers s q))"
  by (simp_all add: leave_local_def Let_def step_simps)

lemma claims_okI:
  assumes "\<And>c p. sessions c = Some p \<Longrightarrow> lp_call (peers p) = Some c"
    and "\<And>c pc. pending c = Some pc \<Longrightarrow> sm_call_id (pc_invite pc) = c"
    and "\<And>c pc. pending c = Some pc \<Longrightarrow> pc_claimed pc \<Longrightarrow> \<exists>p. sessions c = Some p"
  shows "claims_ok pending sessions peers"
  using assms unfolding claims_ok_def by blast

lemma claims_okD:
  assumes "claims_ok pending sessions peers"
  shows "sessions c = Some p \<Longrightarrow> lp_call (peers p) = Some c"
    and "pending c = Some pc \<Longrightarrow> sm_call_id (pc_invite pc) = c"
    and "pending c = Some pc \<Longrightarrow> pc_claimed pc \<Longrightarrow> \<exists>p. sessions c = Some p"
  using assms unfolding claims_ok_def by force+

lemma not_others_session:
  assumes "claims_ok pending sessions peers" "lp_call (peers p) = None \<or> lp_call (peers p) = Some c \<and> d \<noteq> c"
  shows "sessions d \<noteq> Some p"
  using assms claims_okD(1)[OF assms(1), of d p] by auto

lemma leave_local_inv:
  assumes "daemon_inv s" "lp_call (ds_peers s p) = Some c"
  shows "daemon_inv (leave_local c p s)"
proof -
  note rel = claims_okD[OF release_inv[OF assms(1), of c p]]
  have gone: "ds_sessions (release c p s) d \<noteq> Some p" for d
    using not_others_session[OF assms(1), of p c d] assms(2) by (cases "d = c") (auto simp: release_def)
  show ?thesis unfolding step_simps
  proof (rule claims_okI)
    fix d q assume "ds_sessions (release c p s) d = Some q"
    with rel(1)[OF this] gone[of d] show "lp_call (ds_peers (leave_local c p s) q) = Some d"
      by (cases "q = p") (simp_all add: step_simps)
  qed (use rel(2,3) in blast)+
qed

lemma peer_send_inv: "daemon_inv s \<Longrightarrow> daemon_inv (peer_send b p w s)"
  unfolding step_simps by (erule claims_ok_peers) (simp add: step_simps)

lemma peer_close_inv: "daemon_inv s \<Longrightarrow> daemon_inv (peer_close p s)"
  unfolding step_simps by (erule claims_ok_peers) (simp add: step_simps)

lemma forget_inv:
  assumes "daemon_inv s"
  shows "daemon_inv (s\<lparr>ds_pending := (ds_pending s)(c := None)\<rparr>)"
  using assms by (auto simp: claims_ok_def)

text \<open>A pending call that goes away with its session.\<close>

lemma drop_call_inv:
  assumes "claims_ok pending sessions peers"
  shows "claims_ok (pending(c := None)) (sessions(c := None)) peers"
  using assms by (auto simp: claims_ok_def)

lemma claim_inv:
  assumes "claims_ok pending sessions peers" "lp_call (peers p) = None" "pending c = Some pc"
  shows "claims_ok (pending(c \<mapsto> pc\<lparr>pc_claimed := True\<rparr>)) (sessions(c \<mapsto> p)) (peers(p := (peers p)\<lparr>lp_call := Some c\<rparr>))"
proof (rule claims_okI)
  fix d q assume "(sessions(c \<mapsto> p)) d = Some q"
  then show "lp_call ((peers(p := (peers p)\<lparr>lp_call := Some c\<rparr>)) q) = Some d"
    using claims_okD(1)[OF assms(1), of d q] not_others_session[OF assms(1), of p c d] assms(2)
    by (cases "d = c"; cases "q = p") simp_all
next
  fix d x assume d: "(pending(c \<mapsto> pc\<lparr>pc_claimed := True\<rparr>)) d = Some x"
  show "sm_call_id (pc_invite x) = d"
    using d claims_okD(2)[OF assms(1)] assms(3) by (cases "d = c") auto
  show "\<exists>q. (sessions(c \<mapsto> p)) d = Some q" if "pc_claimed x"
    using d that claims_okD(3)[OF assms(1), of d x] by (cases "d = c") auto
qed

lemma attach_local_inv:
  assumes "daemon_inv s" "lp_call (ds_peers s p) = None"
  shows "daemon_inv (attach_local broken p request s)"
proof -
  have refused: "daemon_inv (peer_close p (peer_send b p w s))" for b w
    by (intro peer_close_inv peer_send_inv assms(1))
  let ?claimed = "\<lambda>c pc. s\<lparr>ds_pending := (ds_pending s)(c \<mapsto> pc\<lparr>pc_claimed := True\<rparr>), ds_sessions := (ds_sessions s)(c \<mapsto> p),
    ds_peers := (ds_peers s)(p := (ds_peers s p)\<lparr>lp_call := Some c\<rparr>)\<rparr>"
  have attached: "daemon_inv (leave_local c p (?claimed c pc))" "daemon_inv (peer_send False p w (?claimed c pc))"
    if "ds_pending s c = Some pc" for c pc w
  proof -
    have inv: "daemon_inv (?claimed c pc)" using claim_inv[OF assms that] by simp
    show "daemon_inv (leave_local c p (?claimed c pc))" by (rule leave_local_inv[OF inv]) simp
    show "daemon_inv (peer_send False p w (?claimed c pc))" by (rule peer_send_inv[OF inv])
  qed
  show ?thesis
    unfolding attach_local_def Let_def
    using refused attached by (simp split: option.split)
qed

lemma daemon_inv_signal: "daemon_inv s \<Longrightarrow> daemon_inv (s\<lparr>ds_signal := x\<rparr>)"
  by simp

lemma local_round_inv:
  assumes "daemon_inv s"
  shows "daemon_inv (local_round now broken fails reason p input s)"
proof (cases "lp_call (ds_peers s p)")
  case (Some c)
  have leave: "daemon_inv (leave_local c p s')" if "daemon_inv s'" "lp_call (ds_peers s' p) = Some c" for s'
    by (rule leave_local_inv[OF that])
  have signal: "daemon_inv (leave_local c p (peer_send b p w (s\<lparr>ds_signal := x\<rparr>)))" for b w x
    by (rule leave) (simp_all add: peer_send_inv daemon_inv_signal assms step_simps Some del: peer_effects(1,3))
  have forget: "daemon_inv (leave_local c p (s\<lparr>ds_signal := x, ds_pending := (ds_pending s)(c := None)\<rparr>))" for x
    by (rule leave) (use forget_inv[OF assms, of c] in \<open>simp_all add: Some\<close>)
  show ?thesis
    unfolding local_round_def Let_def
    using signal forget leave[OF assms Some] peer_send_inv[OF assms] assms
    by (simp add: Some split: option.split prod.split)
qed (simp add: local_round_def assms)

lemma handleInvite_inv:
  assumes "daemon_inv s"
  shows "daemon_inv (fst (handleInvite cr rd fails verified now m s))"
proof -
  have "daemon_inv (fst (allowInviteLocked u now s))" for u using assms by (simp add: step_simps)
  moreover have "claims_ok ((ds_pending s)(sm_call_id m \<mapsto> \<lparr>pc_invite = m, pc_claimed = False\<rparr>)) (ds_sessions s) (ds_peers s)"
    using assms by (auto simp: claims_ok_def)
  ultimately show ?thesis
    using assms by (simp add: handleInvite_def Let_def step_simps split_beta)
qed

lemma fold_inv: "(\<And>p s. daemon_inv s \<Longrightarrow> daemon_inv (f p s)) \<Longrightarrow> daemon_inv s \<Longrightarrow> daemon_inv (fold f ps s)"
  by (induction ps arbitrary: s) simp_all

lemma notify_inv: "daemon_inv s \<Longrightarrow> daemon_inv (notify broken w p s)"
  by (simp add: notify_def peer_close_inv peer_send_inv del: peer_effects)

lemma handleSignal_inv:
  assumes "daemon_inv s"
  shows "daemon_inv (handleSignal cr rd fails verified now broken order m s)"
  using assms drop_call_inv[OF assms, of "sm_call_id m"]
  by (auto simp: handleSignal_def Let_def intro: fold_inv notify_inv handleInvite_inv split: option.split)

lemma clearSignal_inv: "daemon_inv (clearSignal broken reason order s)"
  unfolding clearSignal_def
  by (rule fold_inv, intro peer_close_inv peer_send_inv, assumption) (simp add: claims_ok_def)

lemma daemon_step_inv: "daemon_inv s \<Longrightarrow> daemon_inv (daemon_step cr ev s)"
  by (cases ev) (auto intro: handleSignal_inv attach_local_inv local_round_inv clearSignal_inv simp: setSignal_def)

lemma daemon_reachable_inv: "daemon_reachable cr c s \<Longrightarrow> daemon_inv s"
proof (induction rule: daemon_reachable.induct)
  case start
  show ?case by (simp add: new_service_def claims_ok_def)
qed (rule daemon_step_inv)

subsection \<open>Properties of the hand-over\<close>

text \<open>What a window makes the daemon write to the server.\<close>

lemma Send_wire: "sg_wire (fst (Send now fails m client)) = (if ValidateSignal (NewValidator now) m = None \<and> \<not> sg_closed client \<and> \<not> fails
    then sg_wire client @ [marshal_signal m] else sg_wire client)"
  by (simp add: Send_def client_write_def client_close_def report_def split: option.split)

definition window_may_send :: "time \<Rightarrow> nat \<Rightarrow> wire_message option \<Rightarrow> service \<Rightarrow> bool" where
  "window_may_send now p input s = (case (lp_call (ds_peers s p), input) of
       (Some c, Some w) \<Rightarrow> w_Kind w = ''signal'' \<and> ValidateSignal (NewValidator now) (w_Signal w) = None \<and>
         sm_from (w_Signal w) = dc_Username (ds_config s) \<and> sm_call_id (w_Signal w) = c \<and>
         (case ds_pending s c of None \<Rightarrow> False | Some pc \<Rightarrow> sm_to (w_Signal w) = sm_from (pc_invite pc)) \<and>
         sm_type (w_Signal w) \<in> set local_types
     | _ \<Rightarrow> False)"

text \<open>
  C29: A call window writes to the server exactly when its message is a valid signal in the name of
  the daemon's user, about the call the window attached to, to the one who invited to that call,
  and of one of the types of a running call; anything else leaves the connection to the server
  untouched.
\<close>

theorem window_sends_confined:
  "(case ds_signal s of
      None \<Rightarrow> ds_signal (local_round now broken fails reason p input s) = None
    | Some client \<Rightarrow> \<exists>client'. ds_signal (local_round now broken fails reason p input s) = Some client' \<and>
        sg_wire client' = (if window_may_send now p input s \<and> \<not> sg_closed client \<and> \<not> fails
          then sg_wire client @ [marshal_signal (w_Signal (the input))] else sg_wire client))"
proof (cases "lp_call (ds_peers s p)")
  case (Some c)
  show ?thesis
  proof (cases input)
    case (Some w)
    have may: "window_may_send now p input s \<longleftrightarrow> w_Kind w = ''signal'' \<and> validLocalSignal now c (w_Signal w) s"
      using \<open>lp_call (ds_peers s p) = Some c\<close> Some
      by (auto simp: window_may_send_def validLocalSignal_def split: option.split)
    show ?thesis
    proof (cases "w_Kind w = ''signal'' \<and> validLocalSignal now c (w_Signal w) s")
      case True
      then have valid: "ValidateSignal (NewValidator now) (w_Signal w) = None" "\<exists>pc. ds_pending s c = Some pc"
        by (auto simp: validLocalSignal_def split: if_splits option.splits)
      then obtain pc where pc: "ds_pending s c = Some pc" by blast
      show ?thesis
      proof (cases "ds_signal s")
        case None
        then show ?thesis by (simp add: local_round_def step_simps Some pc split: option.split)
      next
        case link: (Some client)
        have "ds_signal (local_round now broken fails reason p input s) = Some (fst (Send now fails (w_Signal w) client))"
          using True \<open>lp_call (ds_peers s p) = Some c\<close>
          by (cases "Send now fails (w_Signal w) client") (simp add: local_round_def Some pc link Let_def step_simps)
        then show ?thesis using True may valid(1) Send_wire[of now fails "w_Signal w" client] by (simp add: link Some)
      qed
    next
      case False
      then show ?thesis
        using may \<open>lp_call (ds_peers s p) = Some c\<close> by (auto simp: local_round_def Some step_simps split: option.split)
    qed
  qed (simp add: local_round_def Some step_simps window_may_send_def split: option.split)
qed (simp add: local_round_def window_may_send_def split: option.split)

text \<open>What a signal from the server makes the daemon write to its windows.\<close>

lemma notify_sent: "lp_sent (ds_peers (notify broken w p s) q) =
    (if q = p \<and> \<not> broken p then lp_sent (ds_peers s q) @ [w] else lp_sent (ds_peers s q))"
  by (simp add: notify_def peer_send_def peer_close_def)

lemma handleInvite_peers: "ds_peers (fst (handleInvite cr rd fails verified now m s)) = ds_peers s"
  by (simp add: handleInvite_def Let_def step_simps split_beta)

text \<open>
  Apart from the server's session errors, a window hears only of the call it attached to: a
  signal reaches it once, unchanged, exactly when it holds the session of the signal's call and
  its connection works, and no invitation reaches a window.
\<close>

theorem window_hears_only_its_call:
  assumes "daemon_reachable cr cfg s" "sm_type m \<noteq> SignalSessionError"
  shows "lp_sent (ds_peers (daemon_step cr (SignalReceived rd fails verified now broken order m) s) p) =
      (if sm_type m \<noteq> SignalCallInvite \<and> lp_call (ds_peers s p) = Some (sm_call_id m) \<and>
          ds_sessions s (sm_call_id m) = Some p \<and> \<not> broken p
       then lp_sent (ds_peers s p) @ [wire_signal m] else lp_sent (ds_peers s p))"
proof -
  have "ds_sessions s (sm_call_id m) = Some p \<Longrightarrow> lp_call (ds_peers s p) = Some (sm_call_id m)"
    by (rule claims_okD(1)[OF daemon_reachable_inv[OF assms(1)]])
  then show ?thesis
    using assms(2) by (auto simp: handleSignal_def Let_def handleInvite_peers notify_sent split: option.split)
qed

definition demo_link :: signal_client where
  "demo_link = \<lparr>sg_address = ''dave'', sg_identity = demo_identity, sg_events = [], sg_event_limit = 64,
     sg_errors = [], sg_closed = False, sg_wire = []\<rparr>"

definition demo_receives :: "signal_message \<Rightarrow> daemon_event" where
  "demo_receives m = SignalReceived \<lparr>cr_uuid = demo_uuid, cr_nonce = demo_uuid, cr_created = demo_now, cr_signed = demo_now,
     cr_checked = demo_now\<rparr> False True demo_now (\<lambda>p. False) [] m"

definition attach_request :: "string \<Rightarrow> wire_message" where
  "attach_request c = empty_wire\<lparr>w_Kind := ''attach'', w_CallID := c\<rparr>"

definition demo_service :: "nat \<Rightarrow> service" where
  "demo_service n = fold (daemon_step demo_crypto)
     (take n [SignalConnected demo_link [], demo_receives demo_invite, WindowAttaches False 7 (Some (attach_request demo_uuid))])
     (new_service demo_daemon)"

lemma fold_reachable: "daemon_reachable cr c s \<Longrightarrow> daemon_reachable cr c (fold (daemon_step cr) evs s)"
  by (induction evs arbitrary: s) (simp_all add: daemon_reachable.step)

lemma demo_reachable: "daemon_reachable demo_crypto demo_daemon (demo_service n)"
  unfolding demo_service_def by (rule fold_reachable) (rule daemon_reachable.start)

lemma demo_rings: "ds_pending (demo_service 2) = [demo_uuid \<mapsto> \<lparr>pc_invite = demo_invite, pc_claimed = False\<rparr>]"
  "ds_signal (demo_service 2) = Some demo_link" "ds_sessions (demo_service 2) = Map.empty" "ds_peers (demo_service 2) = (\<lambda>p. new_peer)"
  by (simp_all add: demo_service_def numeral_2_eq_2 demo_receives_def handleSignal_def handleInvite_def setSignal_def new_service_def
      allowInviteLocked_def demo_invite_def demo_daemon_def Let_def BehaviorPrint_def BehaviorIgnore_def)

lemma demo_claimed: "ds_pending (demo_service 3) demo_uuid = Some \<lparr>pc_invite = demo_invite, pc_claimed = True\<rparr>"
  "ds_sessions (demo_service 3) demo_uuid = Some 7" "lp_call (ds_peers (demo_service 3) 7) = Some demo_uuid"
proof -
  have step: "demo_service 3 = attach_local False 7 (Some (attach_request demo_uuid)) (demo_service 2)"
    using demo_rings(4) by (simp add: demo_service_def numeral_2_eq_2 numeral_3_eq_3 new_peer_def)
  have "demo_uuid \<noteq> []" by (simp add: demo_uuid_def)
  then show "ds_pending (demo_service 3) demo_uuid = Some \<lparr>pc_invite = demo_invite, pc_claimed = True\<rparr>"
    "ds_sessions (demo_service 3) demo_uuid = Some 7" "lp_call (ds_peers (demo_service 3) 7) = Some demo_uuid"
    unfolding step using demo_rings
    by (simp_all add: attach_local_def attach_request_def empty_wire_def peer_send_def Let_def)
qed

theorem window_hears_only_its_call_witness:
  "lp_sent (ds_peers (daemon_step demo_crypto (demo_receives (demo_invite\<lparr>sm_type := SignalCallCancel\<rparr>)) (demo_service 3)) 7) =
     lp_sent (ds_peers (demo_service 3) 7) @ [wire_signal (demo_invite\<lparr>sm_type := SignalCallCancel\<rparr>)]"
proof -
  have kind: "sm_type (demo_invite\<lparr>sm_type := SignalCallCancel\<rparr>) \<noteq> SignalSessionError" by simp
  have "sm_call_id demo_invite = demo_uuid" by (simp add: demo_invite_def)
  with window_hears_only_its_call[OF demo_reachable[of 3] kind, where p = 7] demo_claimed show ?thesis
    by (simp add: demo_receives_def)
qed

text \<open>
  C30: In every state the daemon reaches, a claimed call belongs to a window that is attached to
  it, every other window that asks for it is refused and told so; and when that window leaves, the
  call can be claimed again: with a connection to the server, the next window gets it.
\<close>

theorem claim_held_until_left:
  assumes "daemon_reachable cr cfg s" "ds_pending s c = Some pc" "pc_claimed pc" "c \<noteq> []"
  shows "\<exists>p. ds_sessions s c = Some p \<and> lp_call (ds_peers s p) = Some c \<and>
      attach_local b q (Some (attach_request c)) s =
        peer_close q (peer_send b q (wire_error ''incoming call is no longer available'') s) \<and>
      (let left = daemon_step cr (WindowSends now broken fails reason p None) s in
         ds_pending left c = Some (pc\<lparr>pc_claimed := False\<rparr>) \<and> ds_sessions left c = None \<and>
         (ds_signal s = None \<or> ds_sessions (attach_local False r (Some (attach_request c)) left) c = Some r))"
proof -
  note inv = daemon_reachable_inv[OF assms(1)]
  obtain p where p: "ds_sessions s c = Some p" "lp_call (ds_peers s p) = Some c"
    using claims_okD(3)[OF inv assms(2,3)] claims_okD(1)[OF inv] by blast
  have refused: "attach_local b q (Some (attach_request c)) s =
      peer_close q (peer_send b q (wire_error ''incoming call is no longer available'') s)"
    using assms(2-4) by (simp add: attach_local_def attach_request_def empty_wire_def)
  define left where "left = daemon_step cr (WindowSends now broken fails reason p None) s"
  have left: "left = leave_local c p s" using p by (simp add: left_def local_round_def)
  have freed: "ds_pending left c = Some (pc\<lparr>pc_claimed := False\<rparr>)" "ds_sessions left c = None" "ds_signal left = ds_signal s"
    using p assms(2) by (simp_all add: left step_simps release_def)
  have "ds_signal s = None \<or> ds_sessions (attach_local False r (Some (attach_request c)) left) c = Some r"
    using freed assms(4) by (auto simp: attach_local_def attach_request_def empty_wire_def peer_send_def Let_def)
  with p refused freed show ?thesis by (auto simp: left_def Let_def)
qed

theorem claim_held_until_left_witness:
  "\<exists>p. ds_sessions (demo_service 3) demo_uuid = Some p \<and>
     ds_pending (daemon_step demo_crypto (WindowSends demo_now False False [] p None) (demo_service 3)) demo_uuid =
       Some \<lparr>pc_invite = demo_invite, pc_claimed = False\<rparr>"
proof -
  have claimed: "pc_claimed \<lparr>pc_invite = demo_invite, pc_claimed = True\<rparr>" "demo_uuid \<noteq> []" by (simp_all add: demo_uuid_def)
  obtain p where "ds_sessions (demo_service 3) demo_uuid = Some p"
    "ds_pending (daemon_step demo_crypto (WindowSends demo_now False False [] p None) (demo_service 3)) demo_uuid =
       Some (\<lparr>pc_invite = demo_invite, pc_claimed = True\<rparr>\<lparr>pc_claimed := False\<rparr>)"
    using claim_held_until_left[OF demo_reachable demo_claimed(1) claimed, where now = demo_now and broken = False
        and fails = False and reason = "[]" and b = False and q = 8 and r = 9]
    by (auto simp: Let_def)
  then show ?thesis by auto
qed

end
