(* ===== verification/Daemon_Client.thy ===== *)
theory Daemon_Client
  imports Daemon
begin

text \<open>
  The call window's end of the local connection to the daemon, \<open>internal/client/daemon/client.go\<close>,
  and the interface \<open>SignalSession\<close> of \<open>internal/client/app/app.go\<close> that it implements like the direct
  client of the signaling server.  The wire carries whole messages, as on the daemon's side.
\<close>

subsection \<open>The client\<close>

datatype handoff_error = MissingHandoff | DialFailed | AttachFailed | HandoffUnreadable | DaemonRefused string | InvalidHandoff

datatype window_error = WindowWrite | WindowClosed | WindowInvalid protocol_error | DaemonReported string

record daemon_client =
  dl_username :: string
  dl_stunURLs :: "string list"
  dl_invite :: signal_message
  dl_sent :: "wire_message list"
  dl_events :: "signal_message list"
  dl_errors :: "window_error list"
  dl_closed :: bool

definition attach_message :: "string \<Rightarrow> wire_message" where
  "attach_message callID = empty_wire\<lparr>w_Kind := ''attach'', w_CallID := callID\<rparr>"

text \<open>
  \<open>Connect\<close>: whether the socket is reached and the request written, and the daemon's answer, \<open>None\<close>
  when it cannot be read.
\<close>

definition daemon_Connect :: "string \<Rightarrow> string \<Rightarrow> bool \<Rightarrow> bool \<Rightarrow> wire_message option \<Rightarrow> handoff_error + daemon_client" where
  "daemon_Connect socketPath callID dials writes answer = (
     if socketPath = [] \<or> callID = [] then Inl MissingHandoff
     else if \<not> dials then Inl DialFailed
     else if \<not> writes then Inl AttachFailed
     else (case answer of
         None \<Rightarrow> Inl HandoffUnreadable
       | Some ready \<Rightarrow>
           if w_Kind ready = ''error'' then Inl (DaemonRefused (w_Error ready))
           else if w_Kind ready \<noteq> ''ready'' \<or> sm_call_id (w_Invite ready) \<noteq> callID \<or> w_Username ready = [] then Inl InvalidHandoff
           else Inr \<lparr>dl_username = w_Username ready, dl_stunURLs = w_STUNURLs ready, dl_invite = w_Invite ready,
             dl_sent = [attach_message callID], dl_events = [], dl_errors = [], dl_closed = False\<rparr>))"

text \<open>\<open>NewMessage\<close> signs nothing: whoever calls it brings a signed payload.\<close>

definition daemon_NewMessage ::
  "client_readings \<Rightarrow> daemon_client \<Rightarrow> signal_type \<Rightarrow> string \<Rightarrow> string \<Rightarrow> string option \<Rightarrow> protocol_error + signal_message" where
  "daemon_NewMessage rd c t to callID payload = (
     let message = \<lparr>sm_version = ProtocolVersion, sm_id = cr_uuid rd, sm_type = t, sm_timestamp = cr_created rd,
           sm_call_id = callID, sm_from = dl_username c, sm_to = to, sm_payload = (case payload of None \<Rightarrow> [] | Some raw \<Rightarrow> raw)\<rparr>
     in case ValidateSignal (NewValidator (cr_checked rd)) message of Some e \<Rightarrow> Inl e | None \<Rightarrow> Inr message)"

definition daemon_Send :: "time \<Rightarrow> bool \<Rightarrow> signal_message \<Rightarrow> daemon_client \<Rightarrow> daemon_client \<times> window_error option" where
  "daemon_Send now fails m c = (case ValidateSignal (NewValidator now) m of
       Some e \<Rightarrow> (c, Some (WindowInvalid e))
     | None \<Rightarrow> if fails then (c, Some WindowWrite) else (c\<lparr>dl_sent := dl_sent c @ [wire_signal m]\<rparr>, None))"

definition daemon_Close :: "daemon_client \<Rightarrow> daemon_client" where
  "daemon_Close c = c\<lparr>dl_closed := True\<rparr>"

definition daemon_report :: "window_error \<Rightarrow> daemon_client \<Rightarrow> daemon_client" where
  "daemon_report e c = (if dl_errors c = [] then c\<lparr>dl_errors := [e]\<rparr> else c)"

text \<open>
  One round of \<open>readLoop\<close>, \<open>None\<close> when reading fails; \<open>True\<close> when the loop goes on.  Handing over a
  signal waits for room in the channel.
\<close>

definition daemon_read :: "time \<Rightarrow> wire_message option \<Rightarrow> daemon_client \<Rightarrow> daemon_client \<times> bool" where
  "daemon_read now input c = (case input of
       None \<Rightarrow> (daemon_Close (if dl_closed c then c else daemon_report WindowClosed c), False)
     | Some message \<Rightarrow>
         if w_Kind message = ''signal'' then
           (case ValidateSignal (NewValidator now) (w_Signal message) of
              Some e \<Rightarrow> (daemon_report (WindowInvalid e) c, True)
            | None \<Rightarrow> if dl_closed c then (c, False) else (c\<lparr>dl_events := dl_events c @ [w_Signal message]\<rparr>, True))
         else if w_Kind message = ''error'' then (daemon_report (DaemonReported (w_Error message)) c, True)
         else (c, True))"

subsection \<open>The interface of a signaling session\<close>

text \<open>
  What a call relies on: a message that is built carries what was asked for, in the session's own
  name, and is valid; a send either puts exactly that message out or nothing; and the session keeps
  its name.
\<close>

locale signal_session =
  fixes own_name :: "'c \<Rightarrow> string"
    and outgoing :: "'c \<Rightarrow> 'w list"
    and written :: "signal_message \<Rightarrow> 'w"
    and build :: "client_readings \<Rightarrow> 'c \<Rightarrow> signal_type \<Rightarrow> string \<Rightarrow> string \<Rightarrow> string option \<Rightarrow> 'e + signal_message"
    and hand_out :: "time \<Rightarrow> bool \<Rightarrow> signal_message \<Rightarrow> 'c \<Rightarrow> 'c \<times> 'f option"
  assumes built: "build rd c t to callID payload = Inr m \<Longrightarrow>
      sm_type m = t \<and> sm_to m = to \<and> sm_call_id m = callID \<and> sm_from m = own_name c \<and>
      (\<forall>raw. payload = Some raw \<longrightarrow> sm_payload m = raw) \<and> ValidateSignal (NewValidator (cr_checked rd)) m = None"
    and handed: "outgoing (fst (hand_out now fails m c)) =
      outgoing c @ (if snd (hand_out now fails m c) = None then [written m] else [])"
    and keeps_name: "own_name (fst (hand_out now fails m c)) = own_name c"
begin

text \<open>\<open>sendSignal\<close>: build, then hand out; \<open>False\<close> when either fails.\<close>

definition send_signal_over ::
  "client_readings \<Rightarrow> time \<Rightarrow> bool \<Rightarrow> signal_type \<Rightarrow> string \<Rightarrow> string \<Rightarrow> string option \<Rightarrow> 'c \<Rightarrow> 'c \<times> bool" where
  "send_signal_over rd now fails t to callID payload c = (case build rd c t to callID payload of
       Inl e \<Rightarrow> (c, False)
     | Inr m \<Rightarrow> (let r = hand_out now fails m c in (fst r, snd r = None)))"

text \<open>Such a send puts out one message as asked for in the session's name, or nothing.\<close>

lemma send_signal_result:
  "case send_signal_over rd now fails t to callID payload c of (c', ok) \<Rightarrow>
     own_name c' = own_name c \<and>
     (if ok then \<exists>m. outgoing c' = outgoing c @ [written m] \<and> sm_type m = t \<and> sm_to m = to \<and> sm_call_id m = callID \<and>
         sm_from m = own_name c \<and> ValidateSignal (NewValidator (cr_checked rd)) m = None
      else outgoing c' = outgoing c)"
  using built[where rd = rd and c = c and t = t and to = to and callID = callID and payload = payload] handed keeps_name
  by (auto simp: send_signal_over_def Let_def split: sum.split)

lemma sends_in_own_name:
  "\<exists>ms. outgoing (fold (\<lambda>(rd, now, fails, t, to, callID, payload) c. fst (send_signal_over rd now fails t to callID payload c)) calls c) =
      outgoing c @ map written ms \<and> (\<forall>m \<in> set ms. sm_from m = own_name c)"
proof (induction calls arbitrary: c)
  case (Cons x calls)
  obtain rd now fails t to callID payload where x: "x = (rd, now, fails, t, to, callID, payload)" by (cases x)
  obtain c' ok where r: "send_signal_over rd now fails t to callID payload c = (c', ok)"
    by (cases "send_signal_over rd now fails t to callID payload c")
  have name: "own_name c' = own_name c" "\<exists>ms. outgoing c' = outgoing c @ map written ms \<and> (\<forall>m \<in> set ms. sm_from m = own_name c)"
    using send_signal_result[where rd = rd and now = now and fails = fails and t = t and to = to and callID = callID and payload = payload and c = c] unfolding r
    by (cases ok; auto intro: exI[of _ "[_]"])+
  from name(2) obtain ms where ms: "outgoing c' = outgoing c @ map written ms" "\<forall>m \<in> set ms. sm_from m = own_name c" by blast
  from Cons.IH[of c'] name(1) obtain ns where "outgoing (fold (\<lambda>(rd, now, fails, t, to, callID, payload) c.
      fst (send_signal_over rd now fails t to callID payload c)) calls c') = outgoing c' @ map written ns"
    "\<forall>m \<in> set ns. sm_from m = own_name c" by auto
  with ms show ?case by (intro exI[of _ "ms @ ns"]) (auto simp: x r)
qed simp

end

text \<open>
  The direct client, with the functions of its \<open>crypto\<close>, and the window's client, both implement it;
  a message built for a signed type may have its payload from the client itself.
\<close>

definition direct_build ::
  "crypto \<Rightarrow> client_readings \<Rightarrow> signal_client \<Rightarrow> signal_type \<Rightarrow> string \<Rightarrow> string \<Rightarrow> string option \<Rightarrow> message_error + signal_message" where
  "direct_build cr rd c = NewMessage cr rd (sg_address c) (sg_identity c)"

lemma NewMessage_built:
  assumes "NewMessage cr rd address i t to callID payload = Inr m"
  shows "sm_type m = t \<and> sm_to m = to \<and> sm_call_id m = callID \<and> sm_from m = address \<and>
    (\<forall>raw. payload = Some raw \<longrightarrow> sm_payload m = raw) \<and> ValidateSignal (NewValidator (cr_checked rd)) m = None"
  using assms by (auto simp: NewMessage_def Let_def split: option.splits if_splits)

interpretation direct: signal_session sg_address sg_wire marshal_signal "direct_build cr" Send for cr
proof
  show "sg_wire (fst (Send now fails m c)) = sg_wire c @ (if snd (Send now fails m c) = None then [marshal_signal m] else [])"
    "sg_address (fst (Send now fails m c)) = sg_address c" for now fails m c
    by (auto simp: Send_def client_write_def client_close_def report_def split: option.split)
qed (use NewMessage_built in \<open>simp add: direct_build_def\<close>)

interpretation window: signal_session dl_username dl_sent wire_signal daemon_NewMessage daemon_Send
proof
  show "dl_sent (fst (daemon_Send now fails m c)) = dl_sent c @ (if snd (daemon_Send now fails m c) = None then [wire_signal m] else [])"
    "dl_username (fst (daemon_Send now fails m c)) = dl_username c" for now fails m c
    by (auto simp: daemon_Send_def split: option.split)
  show "daemon_NewMessage rd c t to callID payload = Inr m \<Longrightarrow> sm_type m = t \<and> sm_to m = to \<and> sm_call_id m = callID \<and>
      sm_from m = dl_username c \<and> (\<forall>raw. payload = Some raw \<longrightarrow> sm_payload m = raw) \<and>
      ValidateSignal (NewValidator (cr_checked rd)) m = None" for rd c t to callID payload m
    by (auto simp: daemon_NewMessage_def Let_def split: option.splits)
qed

subsection \<open>A call that is handed over\<close>

lemma attach_ready:
  assumes "ds_pending s callID = Some pc" "\<not> pc_claimed pc" "ds_signal s = Some link" "callID \<noteq> []"
  shows "attach_local False p (Some (attach_message callID)) s =
    (let ready = empty_wire\<lparr>w_Kind := ''ready'', w_Username := dc_Username (ds_config s), w_STUNURLs := ds_stunURLs s, w_Invite := pc_invite pc\<rparr>
     in peer_send False p ready (s\<lparr>ds_pending := (ds_pending s)(callID \<mapsto> pc\<lparr>pc_claimed := True\<rparr>),
       ds_sessions := (ds_sessions s)(callID \<mapsto> p), ds_peers := (ds_peers s)(p := (ds_peers s p)\<lparr>lp_call := Some callID\<rparr>)\<rparr>))"
  using assms by (simp add: attach_local_def attach_message_def empty_wire_def Let_def)



end
