(* ===== verification/Peer.thy ===== *)
theory Peer
  imports Json_Text Dedup "HOL-Library.Sublist"
begin

text \<open>
  One end of a peer connection, \<open>internal/client/peer/peer.go\<close>: negotiation (offer, answer and ICE
  candidates), the control channel with its queue and duplicate filter, and the video channel that
  keeps only the latest frame.

  Pion's \<open>PeerConnection\<close> is a parameter: whether a call on it succeeds after the calls before it,
  the description it creates, and its local description.  The log of a peer holds the calls made
  and whether they succeeded.  A send to a channel waits for room, so a queue is a list; a closed
  peer accepts nothing (where Go could still choose a send with room, the model takes the closing).
  Callbacks of Pion are operations of their own.
\<close>

subsection \<open>Types\<close>

definition ControlChannelLabel :: string where "ControlChannelLabel = ''control''"
definition VideoChannelLabel :: string where "VideoChannelLabel = ''ascii-video''"
definition defaultQueueSize :: int where "defaultQueueSize = 32"
definition defaultVideoBuffer :: nat where "defaultVideoBuffer = 256 * 1024"

datatype peer_error = ErrClosed | ErrInvalidRole | ErrUnexpectedSignal | ErrInvalidDataChannel | ErrAudioUnavailable
  | ErrVideoChannel | ErrOversizedFrame | ErrPion | ErrProtocol protocol_error

datatype role = RoleCaller | RoleCallee | OtherRole nat

datatype sdp_type = SDPTypeOffer | SDPTypeAnswer | OtherSDPType

record session_description =
  sd_Type :: sdp_type
  sd_SDP :: string

record peer_signal =
  ps_Description :: "session_description option"
  ps_Candidate :: "ice_payload option"
  ps_ICEComplete :: bool

datatype connection_state = ConnNew | ConnConnecting | ConnConnected | ConnDisconnected | ConnFailed | ConnClosed

datatype peer_event = EventControlOpen | EventControlMessage control_message | EventVideoOpen | EventAudioOpen
  | EventConnectionState connection_state string | EventError peer_error

datatype pion_call = CreateOffer bool | CreateAnswer | SetLocalDescription session_description
  | SetRemoteDescription session_description | AddICECandidate ice_payload

type_synonym pion_log = "(pion_call \<times> bool) list"

record pion =
  pi_ok :: "pion_log \<Rightarrow> pion_call \<Rightarrow> bool"
  pi_created :: "pion_log \<Rightarrow> session_description"
  pi_local :: "pion_log \<Rightarrow> session_description option"

record data_channel =
  ch_id :: nat
  ch_Label :: string
  ch_Ordered :: bool
  ch_MaxPacketLifeTime :: "nat option"
  ch_MaxRetransmits :: "nat option"

datatype outbound = Data string | Flush nat

record peer =
  pr_role :: role
  pr_closed :: bool
  pr_log :: pion_log
  pr_remoteDescription :: bool
  pr_pendingCandidates :: "ice_payload list"
  pr_signals :: "peer_signal list"
  pr_events :: "peer_event list"
  pr_seenIDs :: "string set"
  pr_seenOrder :: "string list"
  pr_seenLimit :: nat
  pr_outbound :: "outbound list"
  pr_ready :: bool
  pr_channel :: "data_channel option"
  pr_sent :: "string list"
  pr_flushed :: "nat list"
  pr_videoReady :: bool
  pr_videoChannel :: "data_channel option"
  pr_maxVideoBufferedAmount :: nat
  pr_videoOutbound :: "string list"
  pr_videoFrames :: "string list"
  pr_audio :: bool
  pr_state :: "connection_state option"
  pr_route :: string

record peer_config =
  pcf_QueueSize :: int
  pcf_MaxVideoBufferedAmount :: nat
  pcf_Audio :: bool

text \<open>\<open>New\<close>, up to the channels of the caller, which are attached like any other.\<close>

definition peer_new :: "role \<Rightarrow> peer_config \<Rightarrow> peer_error + peer" where
  "peer_new r c = (
     if r \<noteq> RoleCaller \<and> r \<noteq> RoleCallee then Inl ErrInvalidRole
     else
       let queueSize = (if pcf_QueueSize c \<le> 0 then defaultQueueSize else pcf_QueueSize c) in
       Inr \<lparr>pr_role = r, pr_closed = False, pr_log = [], pr_remoteDescription = False, pr_pendingCandidates = [],
         pr_signals = [], pr_events = [], pr_seenIDs = {}, pr_seenOrder = [], pr_seenLimit = nat (queueSize * 4),
         pr_outbound = [], pr_ready = False, pr_channel = None, pr_sent = [], pr_flushed = [], pr_videoReady = False,
         pr_videoChannel = None,
         pr_maxVideoBufferedAmount = (if pcf_MaxVideoBufferedAmount c = 0 then defaultVideoBuffer else pcf_MaxVideoBufferedAmount c),
         pr_videoOutbound = [], pr_videoFrames = [], pr_audio = pcf_Audio c, pr_state = None, pr_route = []\<rparr>)"

definition peer_Close :: "peer \<Rightarrow> peer" where
  "peer_Close p = p\<lparr>pr_closed := True\<rparr>"

definition emitSignal :: "peer_signal \<Rightarrow> peer \<Rightarrow> peer \<times> peer_error option" where
  "emitSignal s p = (if pr_closed p then (p, Some ErrClosed) else (p\<lparr>pr_signals := pr_signals p @ [s]\<rparr>, None))"

definition emitEvent :: "peer_event \<Rightarrow> peer \<Rightarrow> peer" where
  "emitEvent e p = (if pr_closed p then p else p\<lparr>pr_events := pr_events p @ [e]\<rparr>)"

definition contextError :: "peer \<Rightarrow> peer_error option" where
  "contextError p = (if pr_closed p then Some ErrClosed else None)"

subsection \<open>Negotiation\<close>

definition description_signal :: "session_description \<Rightarrow> peer_signal" where
  "description_signal d = \<lparr>ps_Description = Some d, ps_Candidate = None, ps_ICEComplete = False\<rparr>"

definition perform :: "pion \<Rightarrow> pion_call \<Rightarrow> peer \<Rightarrow> peer \<times> bool" where
  "perform pn c p = (let ok = pi_ok pn (pr_log p) c in (p\<lparr>pr_log := pr_log p @ [(c, ok)]\<rparr>, ok))"

text \<open>Setting a created description and announcing what Pion then holds.\<close>

definition announce_local :: "pion \<Rightarrow> peer \<Rightarrow> peer \<times> peer_error option" where
  "announce_local pn p = (case perform pn (SetLocalDescription (pi_created pn (pr_log p))) p of
       (p, False) \<Rightarrow> (p, Some ErrPion)
     | (p, True) \<Rightarrow> (case pi_local pn (pr_log p) of
           None \<Rightarrow> (p, Some ErrPion)
         | Some d \<Rightarrow> emitSignal (description_signal d) p))"

definition createOffer :: "pion \<Rightarrow> bool \<Rightarrow> peer \<Rightarrow> peer \<times> peer_error option" where
  "createOffer pn restart p = (case perform pn (CreateOffer restart) p of
       (p, False) \<Rightarrow> (p, Some ErrPion)
     | (p, True) \<Rightarrow> announce_local pn p)"

definition peer_Start :: "pion \<Rightarrow> peer \<Rightarrow> peer \<times> peer_error option" where
  "peer_Start pn p = (if pr_role p \<noteq> RoleCaller then (p, Some ErrUnexpectedSignal)
     else case contextError p of Some e \<Rightarrow> (p, Some e) | None \<Rightarrow> createOffer pn False p)"

definition RestartICE :: "pion \<Rightarrow> peer \<Rightarrow> peer \<times> peer_error option" where
  "RestartICE pn p = (if pr_role p \<noteq> RoleCaller then (p, Some ErrUnexpectedSignal)
     else case contextError p of Some e \<Rightarrow> (p, Some e) | None \<Rightarrow> createOffer pn True p)"

definition applyCandidate :: "pion \<Rightarrow> ice_payload \<Rightarrow> peer \<Rightarrow> peer \<times> peer_error option" where
  "applyCandidate pn c p = (
     if \<not> pr_remoteDescription p then (p\<lparr>pr_pendingCandidates := pr_pendingCandidates p @ [c]\<rparr>, None)
     else case perform pn (AddICECandidate c) p of (p, ok) \<Rightarrow> (p, if ok then None else Some ErrPion))"

fun add_candidates :: "pion \<Rightarrow> ice_payload list \<Rightarrow> peer \<Rightarrow> peer \<times> peer_error option" where
  "add_candidates pn [] p = (p, None)"
| "add_candidates pn (c # cs) p = (case perform pn (AddICECandidate c) p of
       (p, False) \<Rightarrow> (p, Some ErrPion)
     | (p, True) \<Rightarrow> add_candidates pn cs p)"

definition markRemoteDescriptionAndFlushCandidates :: "pion \<Rightarrow> peer \<Rightarrow> peer \<times> peer_error option" where
  "markRemoteDescriptionAndFlushCandidates pn p =
     (let pending = pr_pendingCandidates p in
      add_candidates pn pending (p\<lparr>pr_remoteDescription := True, pr_pendingCandidates := []\<rparr>))"

definition applyDescription :: "pion \<Rightarrow> session_description \<Rightarrow> peer \<Rightarrow> peer \<times> peer_error option" where
  "applyDescription pn d p = (
     let accepted = (case sd_Type d of SDPTypeOffer \<Rightarrow> pr_role p = RoleCallee
           | SDPTypeAnswer \<Rightarrow> pr_role p = RoleCaller | OtherSDPType \<Rightarrow> False) in
     if \<not> accepted then (p, Some ErrUnexpectedSignal)
     else case perform pn (SetRemoteDescription d) p of
         (p, False) \<Rightarrow> (p, Some ErrPion)
       | (p, True) \<Rightarrow> (case markRemoteDescriptionAndFlushCandidates pn p of
             (p, Some e) \<Rightarrow> (p, Some e)
           | (p, None) \<Rightarrow>
               if sd_Type d = SDPTypeOffer then
                 (case perform pn CreateAnswer p of
                    (p, False) \<Rightarrow> (p, Some ErrPion)
                  | (p, True) \<Rightarrow> announce_local pn p)
               else (p, None)))"

definition ApplySignal :: "pion \<Rightarrow> peer_signal \<Rightarrow> peer \<Rightarrow> peer \<times> peer_error option" where
  "ApplySignal pn s p = (case contextError p of Some e \<Rightarrow> (p, Some e) | None \<Rightarrow>
     let fields = (if ps_Description s \<noteq> None then 1 else 0) + (if ps_Candidate s \<noteq> None then 1 else 0) +
           (if ps_ICEComplete s then 1 else 0 :: nat) in
     if fields \<noteq> 1 then (p, Some ErrUnexpectedSignal)
     else if ps_ICEComplete s then (p, None)
     else case ps_Candidate s of
         Some c \<Rightarrow> applyCandidate pn c p
       | None \<Rightarrow> (case ps_Description s of Some d \<Rightarrow> applyDescription pn d p | None \<Rightarrow> (p, None)))"

text \<open>The callback for a gathered candidate, \<open>None\<close> at the end of gathering.\<close>

definition on_candidate :: "ice_payload option \<Rightarrow> peer \<Rightarrow> peer" where
  "on_candidate c p = fst (emitSignal (case c of
       None \<Rightarrow> \<lparr>ps_Description = None, ps_Candidate = None, ps_ICEComplete = True\<rparr>
     | Some v \<Rightarrow> \<lparr>ps_Description = None, ps_Candidate = Some v, ps_ICEComplete = False\<rparr>) p)"

subsection \<open>Connection state\<close>

text \<open>
  A selected candidate pair: whether either end is a relay, the protocols of the two ends, and the
  relay protocol the statistics name.  \<open>None\<close> is no pair.
\<close>

record candidate_pair =
  cp_relay :: bool
  cp_local :: string
  cp_remote :: string
  cp_relay_protocol :: string

text \<open>The relay protocol: the statistics in the order in which the map is ranged over.\<close>

datatype statistic = PairStats bool bool string | CandidateStats string | OtherStats

definition relay_of :: "(string \<times> statistic) list \<Rightarrow> statistic \<Rightarrow> string" where
  "relay_of report st = (case st of
       PairStats nominated succeeded local \<Rightarrow>
         if \<not> nominated \<or> \<not> succeeded then []
         else (case map_of report local of Some (CandidateStats protocol) \<Rightarrow> protocol | _ \<Rightarrow> [])
     | _ \<Rightarrow> [])"

definition selectedRelayProtocol :: "(string \<times> statistic) list \<Rightarrow> string" where
  "selectedRelayProtocol report = (case List.find (\<lambda>r. r \<noteq> []) (map (relay_of report \<circ> snd) report) of
       Some r \<Rightarrow> r | None \<Rightarrow> [])"

definition selectedRoute :: "candidate_pair option \<Rightarrow> string" where
  "selectedRoute pair = (case pair of None \<Rightarrow> ''unknown'' | Some cp \<Rightarrow>
     let kind = (if cp_relay cp then ''relay'' else ''direct'');
         protocolName = cp_local cp;
         protocolName = (if cp_relay cp \<and> cp_relay_protocol cp \<noteq> [] then cp_relay_protocol cp else protocolName);
         protocolName = (if protocolName = [] then cp_remote cp else protocolName);
         protocolName = (if protocolName = [] then ''unknown'' else protocolName)
     in kind @ ''/'' @ protocolName)"

definition on_connection_state :: "connection_state \<Rightarrow> candidate_pair option \<Rightarrow> peer \<Rightarrow> peer" where
  "on_connection_state st pair p = (
     let route = selectedRoute pair;
         p = p\<lparr>pr_state := Some st, pr_route := (if route \<noteq> ''unknown'' then route else pr_route p)\<rparr>;
         currentRoute = (if pr_route p = [] then ''unknown'' else pr_route p)
     in emitEvent (EventConnectionState st currentRoute) p)"

definition peer_Status :: "peer \<Rightarrow> connection_state option \<times> string" where
  "peer_Status p = (pr_state p, pr_route p)"

subsection \<open>The control channel\<close>

definition attachControlChannel :: "data_channel \<Rightarrow> peer \<Rightarrow> peer \<times> peer_error option" where
  "attachControlChannel ch p = (
     if ch_Label ch \<noteq> ControlChannelLabel \<or> \<not> ch_Ordered ch \<or> ch_MaxPacketLifeTime ch \<noteq> None \<or> ch_MaxRetransmits ch \<noteq> None
     then (p, Some ErrInvalidDataChannel)
     else case pr_channel p of
         Some old \<Rightarrow> if ch_id old \<noteq> ch_id ch then (p, Some ErrInvalidDataChannel) else (p\<lparr>pr_channel := Some ch\<rparr>, None)
       | None \<Rightarrow> (p\<lparr>pr_channel := Some ch\<rparr>, None))"

definition on_control_open :: "peer \<Rightarrow> peer" where
  "on_control_open p = emitEvent EventControlOpen (p\<lparr>pr_ready := True\<rparr>)"

definition on_control_error :: "peer \<Rightarrow> peer" where
  "on_control_error p = emitEvent (EventError ErrPion) p"

definition seen :: "string \<Rightarrow> peer \<Rightarrow> peer \<times> bool" where
  "seen ident p =
    (if ident \<in> pr_seenIDs p then (p, True)
     else let p = p\<lparr>pr_seenIDs := insert ident (pr_seenIDs p), pr_seenOrder := pr_seenOrder p @ [ident]\<rparr> in
       if length (pr_seenOrder p) > pr_seenLimit p
       then (p\<lparr>pr_seenOrder := tl (pr_seenOrder p), pr_seenIDs := pr_seenIDs p - {hd (pr_seenOrder p)}\<rparr>, False)
       else (p, False))"

interpretation seen_controls: id_window seen pr_seenIDs pr_seenOrder pr_seenLimit
  by unfold_locales (auto simp: seen_def Let_def)

text \<open>The callback for a message on the control channel; \<open>now\<close> is read by the validator.\<close>

definition on_control_message :: "time \<Rightarrow> string \<Rightarrow> peer \<Rightarrow> peer" where
  "on_control_message now data p = (case DecodeControl data (NewValidator now) of
       Inl e \<Rightarrow> emitEvent (EventError (ErrProtocol e)) p
     | Inr control \<Rightarrow> (case seen (cm_id control) p of
           (p, True) \<Rightarrow> p
         | (p, False) \<Rightarrow> emitEvent (EventControlMessage control) p))"

text \<open>\<open>Send\<close>, when there is room in the queue; \<open>Flush\<close> likewise puts its marker there.\<close>

definition control_send :: "time \<Rightarrow> control_message \<Rightarrow> peer \<Rightarrow> peer \<times> peer_error option" where
  "control_send now m p = (case ValidateControl (NewValidator now) m of
       Some e \<Rightarrow> (p, Some (ErrProtocol e))
     | None \<Rightarrow>
         let encoded = marshal_control m in
         if length encoded > MaxControlMessageSize then (p, Some (ErrProtocol ErrMessageTooLarge))
         else if pr_closed p then (p, Some ErrClosed)
         else (p\<lparr>pr_outbound := pr_outbound p @ [Data encoded]\<rparr>, None))"

definition control_flush :: "nat \<Rightarrow> peer \<Rightarrow> peer \<times> peer_error option" where
  "control_flush mark p = (if pr_closed p then (p, Some ErrClosed) else (p\<lparr>pr_outbound := pr_outbound p @ [Flush mark]\<rparr>, None))"

text \<open>
  One round of \<open>sendLoop\<close>; \<open>None\<close> when it waits, for a message or, holding one, for the channel to
  open.  \<open>fails\<close> says whether Pion refuses the send.
\<close>

definition send_one :: "bool \<Rightarrow> peer \<Rightarrow> peer option" where
  "send_one fails p = (if pr_closed p then None else case pr_outbound p of
       [] \<Rightarrow> None
     | Flush mark # rest \<Rightarrow> Some (p\<lparr>pr_outbound := rest, pr_flushed := pr_flushed p @ [mark]\<rparr>)
     | Data d # rest \<Rightarrow>
         if \<not> pr_ready p then None
         else let p = p\<lparr>pr_outbound := rest\<rparr> in
           (case pr_channel p of
              None \<Rightarrow> Some (emitEvent (EventError ErrInvalidDataChannel) p)
            | Some ch \<Rightarrow> if fails then Some (emitEvent (EventError ErrPion) p) else Some (p\<lparr>pr_sent := pr_sent p @ [d]\<rparr>)))"

subsection \<open>Video and audio\<close>

definition attachVideoChannel :: "data_channel \<Rightarrow> peer \<Rightarrow> peer \<times> peer_error option" where
  "attachVideoChannel ch p = (
     if ch_Label ch \<noteq> VideoChannelLabel \<or> ch_Ordered ch \<or> ch_MaxRetransmits ch = None \<or> ch_MaxRetransmits ch \<noteq> Some 0
     then (p, Some ErrInvalidDataChannel)
     else case pr_videoChannel p of
         Some old \<Rightarrow> if ch_id old \<noteq> ch_id ch then (p, Some ErrInvalidDataChannel) else (p\<lparr>pr_videoChannel := Some ch\<rparr>, None)
       | None \<Rightarrow> (p\<lparr>pr_videoChannel := Some ch\<rparr>, None))"

text \<open>The channels a callee is offered.\<close>

definition on_data_channel :: "data_channel \<Rightarrow> peer \<Rightarrow> peer" where
  "on_data_channel ch p = (
     let (p, err) = (if ch_Label ch = ControlChannelLabel then attachControlChannel ch p
       else if ch_Label ch = VideoChannelLabel then attachVideoChannel ch p else (p, Some ErrInvalidDataChannel))
     in case err of Some e \<Rightarrow> emitEvent (EventError e) p | None \<Rightarrow> p)"

text \<open>A queue of capacity one whose waiting element is replaced.\<close>

definition queueLatest :: "string list \<Rightarrow> string \<Rightarrow> string list \<times> bool" where
  "queueLatest queue v = (if length queue < 1 then (queue @ [v], True)
     else let queue = tl queue in if length queue < 1 then (queue @ [v], True) else (queue, False))"

definition on_video_message :: "string \<Rightarrow> peer \<Rightarrow> peer" where
  "on_video_message data p = (if length data > 64 * 1024 then emitEvent (EventError ErrOversizedFrame) p
     else p\<lparr>pr_videoFrames := fst (queueLatest (pr_videoFrames p) data)\<rparr>)"

definition on_video_open :: "peer \<Rightarrow> peer" where
  "on_video_open p = emitEvent EventVideoOpen (p\<lparr>pr_videoReady := True\<rparr>)"

definition on_video_error :: "peer \<Rightarrow> peer" where
  "on_video_error p = emitEvent (EventError ErrVideoChannel) p"

text \<open>\<open>buffered\<close> is \<open>BufferedAmount\<close> of the channel.\<close>

definition SendVideo :: "nat \<Rightarrow> string \<Rightarrow> peer \<Rightarrow> peer \<times> bool" where
  "SendVideo buffered data p = (
     if length data = 0 then (p, False)
     else if \<not> pr_videoReady p then (p, False)
     else if pr_videoChannel p = None \<or> buffered \<ge> pr_maxVideoBufferedAmount p then (p, False)
     else let (queue, ok) = queueLatest (pr_videoOutbound p) data in (p\<lparr>pr_videoOutbound := queue\<rparr>, ok))"

text \<open>One round of \<open>videoSendLoop\<close> with the frame handed to Pion, if any.\<close>

definition video_send_one :: "nat \<Rightarrow> bool \<Rightarrow> peer \<Rightarrow> (peer \<times> string option) option" where
  "video_send_one buffered fails p = (if pr_closed p \<or> \<not> pr_videoReady p then None else case pr_videoOutbound p of
       [] \<Rightarrow> None
     | frame # rest \<Rightarrow>
         let p = p\<lparr>pr_videoOutbound := rest\<rparr> in
         if pr_videoChannel p = None \<or> buffered \<ge> pr_maxVideoBufferedAmount p then Some (p, None)
         else if fails then Some (emitEvent (EventError ErrVideoChannel) p, None)
         else Some (p, Some frame))"

text \<open>\<open>written\<close> is what \<open>WriteRTP\<close> returns, \<open>packet\<close> is false for a nil packet.\<close>

definition SendAudio :: "bool \<Rightarrow> bool \<Rightarrow> peer \<Rightarrow> peer_error option" where
  "SendAudio packet written p = (
     if \<not> packet then Some ErrPion
     else if \<not> pr_audio p then Some ErrAudioUnavailable
     else case contextError p of Some e \<Rightarrow> Some e | None \<Rightarrow> if written then None else Some ErrPion)"

text \<open>A remote track, with whether it is audio and whether it is Opus.\<close>

definition on_track :: "bool \<Rightarrow> bool \<Rightarrow> peer \<Rightarrow> peer" where
  "on_track audio opus p = (if \<not> audio \<or> \<not> opus then p else emitEvent EventAudioOpen p)"

text \<open>Remote audio packets: the oldest of ten makes room.\<close>

definition queue_audio :: "'a list \<Rightarrow> 'a \<Rightarrow> 'a list" where
  "queue_audio packets packet = (if length packets < 10 then packets @ [packet]
     else let packets = tl packets in if length packets < 10 then packets @ [packet] else packets)"

text \<open>
  The rest of \<open>New\<close>: a caller creates both channels, \<open>None\<close> where Pion refuses to; a callee waits for
  them.
\<close>

definition peer_channels :: "data_channel option \<Rightarrow> data_channel option \<Rightarrow> peer \<Rightarrow> peer_error + peer" where
  "peer_channels control video p = (
     if pr_role p \<noteq> RoleCaller then Inr p
     else case control of None \<Rightarrow> Inl ErrPion | Some ch \<Rightarrow>
       (case attachControlChannel ch p of (p, Some e) \<Rightarrow> Inl e | (p, None) \<Rightarrow>
         (case video of None \<Rightarrow> Inl ErrPion | Some ch \<Rightarrow>
           (case attachVideoChannel ch p of (p, Some e) \<Rightarrow> Inl e | (p, None) \<Rightarrow> Inr p))))"

subsection \<open>Candidates wait for the description\<close>

datatype negotiation = StartOffer | RestartOffer | Applied peer_signal

definition negotiate :: "pion \<Rightarrow> negotiation \<Rightarrow> peer \<Rightarrow> peer \<times> peer_error option" where
  "negotiate pn n p = (case n of StartOffer \<Rightarrow> peer_Start pn p | RestartOffer \<Rightarrow> RestartICE pn p | Applied s \<Rightarrow> ApplySignal pn s p)"

fun negotiate_all :: "pion \<Rightarrow> negotiation list \<Rightarrow> peer \<Rightarrow> peer \<times> peer_error option list" where
  "negotiate_all pn [] p = (p, [])"
| "negotiate_all pn (n # ns) p = (let (p, e) = negotiate pn n p; (p, es) = negotiate_all pn ns p in (p, e # es))"

text \<open>The candidates given to Pion, those received, and the log up to the first remote description.\<close>

definition given :: "pion_log \<Rightarrow> ice_payload list" where
  "given log = concat (map (\<lambda>(c, ok). case c of AddICECandidate x \<Rightarrow> [x] | _ \<Rightarrow> []) log)"

definition received :: "negotiation list \<Rightarrow> ice_payload list" where
  "received ns = concat (map (\<lambda>n. case n of
     Applied s \<Rightarrow> (if ps_Description s = None \<and> \<not> ps_ICEComplete s then case ps_Candidate s of Some c \<Rightarrow> [c] | None \<Rightarrow> [] else [])
   | _ \<Rightarrow> []) ns)"

definition describes :: "pion_call \<times> bool \<Rightarrow> bool" where
  "describes e \<longleftrightarrow> (case e of (SetRemoteDescription d, True) \<Rightarrow> True | _ \<Rightarrow> False)"

definition before_description :: "pion_log \<Rightarrow> pion_log" where
  "before_description log = takeWhile (\<lambda>e. \<not> describes e) log"

lemma given_simps [simp]:
  "given [] = []" "given (xs @ ys) = given xs @ given ys"
  "given [(CreateOffer b, k)] = []" "given [(CreateAnswer, k)] = []" "given [(SetLocalDescription d, k)] = []"
  "given [(SetRemoteDescription d, k)] = []" "given [(AddICECandidate c, k)] = [c]"
  by (simp_all add: given_def)

lemma describes_simps [simp]:
  "\<not> describes (CreateOffer b, k)" "\<not> describes (CreateAnswer, k)" "\<not> describes (SetLocalDescription d, k)"
  "describes (SetRemoteDescription d, k) = k" "\<not> describes (AddICECandidate c, k)"
  by (simp_all add: describes_def split: bool.split)

text \<open>An operation that only adds calls to the log that concern no candidate and no remote end.\<close>

definition bystander :: "peer \<Rightarrow> peer \<Rightarrow> bool" where
  "bystander p p' \<longleftrightarrow> pr_pendingCandidates p' = pr_pendingCandidates p \<and> pr_remoteDescription p' = pr_remoteDescription p \<and>
     (\<exists>xs. pr_log p' = pr_log p @ xs \<and> given xs = [] \<and> list_all (\<lambda>e. \<not> describes e) xs)"

lemma bystander_refl: "bystander p p"
  by (auto simp: bystander_def)

lemma bystander_trans: "bystander p q \<Longrightarrow> bystander q r \<Longrightarrow> bystander p r"
  by (auto simp: bystander_def)

lemma perform_bystander:
  assumes "perform pn c p = (p', ok)" "given [(c, ok)] = []" "\<not> describes (c, ok)"
  shows "bystander p p'"
  using assms by (auto simp: perform_def bystander_def Let_def)

lemma emitSignal_bystander: "bystander p (fst (emitSignal s p))"
  by (auto simp: emitSignal_def bystander_def)

lemma announce_bystander: "bystander p (fst (announce_local pn p))"
proof -
  obtain q ok where q: "perform pn (SetLocalDescription (pi_created pn (pr_log p))) p = (q, ok)"
    by (cases "perform pn (SetLocalDescription (pi_created pn (pr_log p))) p")
  have "bystander p q" by (rule perform_bystander[OF q]) simp_all
  with emitSignal_bystander[of q] show ?thesis
    by (auto simp: announce_local_def q split: bool.split option.split intro: bystander_trans)
qed

lemma createOffer_bystander: "bystander p (fst (createOffer pn restart p))"
proof -
  obtain q ok where q: "perform pn (CreateOffer restart) p = (q, ok)" by (cases "perform pn (CreateOffer restart) p")
  have "bystander p q" by (rule perform_bystander[OF q]) simp_all
  with announce_bystander[of q pn] show ?thesis
    by (auto simp: createOffer_def q split: bool.split intro: bystander_trans)
qed

lemma given_Cons: "given ((AddICECandidate c, b) # k) = c # given k" "given ((SetRemoteDescription d, b) # k) = given k"
  by (simp_all add: given_def)

lemma add_candidates_log:
  "(\<exists>k. pr_log (fst (add_candidates pn cs p)) = pr_log p @ k \<and> prefix (given k) cs \<and> list_all (\<lambda>e. \<not> describes e) k \<and>
     (snd (add_candidates pn cs p) = None \<longrightarrow> given k = cs)) \<and>
   pr_pendingCandidates (fst (add_candidates pn cs p)) = pr_pendingCandidates p \<and>
   pr_remoteDescription (fst (add_candidates pn cs p)) = pr_remoteDescription p"
proof (induction cs arbitrary: p)
  case (Cons c cs)
  obtain q ok where q: "perform pn (AddICECandidate c) p = (q, ok)" by (cases "perform pn (AddICECandidate c) p")
  then have log: "pr_log q = pr_log p @ [(AddICECandidate c, ok)]" "pr_pendingCandidates q = pr_pendingCandidates p"
    "pr_remoteDescription q = pr_remoteDescription p" by (auto simp: perform_def Let_def)
  have step: "add_candidates pn (c # cs) p = (if ok then add_candidates pn cs q else (q, Some ErrPion))"
    by (simp add: q)
  show ?case
  proof (cases ok)
    case True
    obtain k where "pr_log (fst (add_candidates pn cs q)) = pr_log q @ k" "prefix (given k) cs" "list_all (\<lambda>e. \<not> describes e) k"
      "snd (add_candidates pn cs q) = None \<longrightarrow> given k = cs"
      by (rule exE[OF conjunct1[OF Cons[of q]]]) (elim conjE, rule that)
    note k = this
    have "pr_log (fst (add_candidates pn cs q)) = pr_log p @ (AddICECandidate c, True) # k"
      using k(1) log(1) True by simp
    moreover have "prefix (given ((AddICECandidate c, True) # k)) (c # cs)" using k(2) by (simp add: given_Cons)
    moreover have "list_all (\<lambda>e. \<not> describes e) ((AddICECandidate c, True) # k)" using k(3) by simp
    moreover have "snd (add_candidates pn cs q) = None \<longrightarrow> given ((AddICECandidate c, True) # k) = c # cs"
      using k(4) by (simp add: given_Cons)
    ultimately have "\<exists>k. pr_log (fst (add_candidates pn cs q)) = pr_log p @ k \<and> prefix (given k) (c # cs) \<and>
        list_all (\<lambda>e. \<not> describes e) k \<and> (snd (add_candidates pn cs q) = None \<longrightarrow> given k = c # cs)"
      by (intro exI[of _ "(AddICECandidate c, True) # k"] conjI)
    then show ?thesis using conjunct2[OF Cons[of q]] by (simp only: step True if_True log simp_thms)
  next
    case False
    then show ?thesis unfolding step using log
      by (intro conjI exI[of _ "[(AddICECandidate c, False)]"]) simp_all
  qed
qed simp

text \<open>What every operation of a negotiation keeps.\<close>

definition negotiation_inv :: "peer \<Rightarrow> bool" where
  "negotiation_inv p \<longleftrightarrow> (if pr_remoteDescription p then list_ex describes (pr_log p) \<and> pr_pendingCandidates p = []
      else list_all (\<lambda>e. \<not> describes e) (pr_log p) \<and> given (pr_log p) = []) \<and>
    given (before_description (pr_log p)) = []"

definition accounted :: "peer \<Rightarrow> ice_payload list \<Rightarrow> peer \<times> peer_error option \<Rightarrow> bool" where
  "accounted p new r \<longleftrightarrow> negotiation_inv (fst r) \<and>
     subseq (given (pr_log (fst r)) @ pr_pendingCandidates (fst r)) (given (pr_log p) @ pr_pendingCandidates p @ new) \<and>
     (snd r = None \<longrightarrow> given (pr_log (fst r)) @ pr_pendingCandidates (fst r) = given (pr_log p) @ pr_pendingCandidates p @ new)"

lemma before_append:
  "before_description (xs @ ys) = (if list_ex describes xs then before_description xs else xs @ before_description ys)"
  by (induction xs) (auto simp: before_description_def)

lemma before_none: "list_all (\<lambda>e. \<not> describes e) xs \<Longrightarrow> before_description xs = xs"
  by (induction xs) (auto simp: before_description_def)

lemma none_describes: "list_all (\<lambda>e. \<not> describes e) xs \<longleftrightarrow> \<not> list_ex describes xs"
  by (induction xs) auto

lemma bystander_inv: "negotiation_inv p \<Longrightarrow> bystander p p' \<Longrightarrow> negotiation_inv p'"
  by (auto simp: negotiation_inv_def bystander_def before_append before_none none_describes split: if_splits)

lemma bystander_accounted: "negotiation_inv p \<Longrightarrow> bystander p (fst r) \<Longrightarrow> accounted p [] r"
  using bystander_inv[of p "fst r"] by (auto simp: accounted_def bystander_def)

lemma accounted_then: "accounted p new (q, None) \<Longrightarrow> bystander q (fst r) \<Longrightarrow> accounted p new r"
  using bystander_inv[of q "fst r"] by (auto simp: accounted_def bystander_def)

lemma accounted_candidate:
  assumes "negotiation_inv p"
  shows "accounted p [c] (applyCandidate pn c p)"
  using assms
  by (auto simp: applyCandidate_def accounted_def perform_def Let_def negotiation_inv_def before_append before_none none_describes
      split: if_splits)

lemma accounted_description:
  assumes "negotiation_inv p"
  shows "accounted p [] (applyDescription pn d p)"
proof -
  obtain q ok where q: "perform pn (SetRemoteDescription d) p = (q, ok)" by (cases "perform pn (SetRemoteDescription d) p")
  then have log: "pr_log q = pr_log p @ [(SetRemoteDescription d, ok)]" "pr_pendingCandidates q = pr_pendingCandidates p"
    "pr_remoteDescription q = pr_remoteDescription p" by (auto simp: perform_def Let_def)
  define m where "m = q\<lparr>pr_remoteDescription := True, pr_pendingCandidates := []\<rparr>"
  obtain u e where u: "markRemoteDescriptionAndFlushCandidates pn q = (u, e)"
    by (cases "markRemoteDescriptionAndFlushCandidates pn q")
  then have u': "add_candidates pn (pr_pendingCandidates p) m = (u, e)"
    by (simp add: markRemoteDescriptionAndFlushCandidates_def m_def log Let_def)
  obtain k where k: "pr_log u = pr_log q @ k" "prefix (given k) (pr_pendingCandidates p)" "list_all (\<lambda>e. \<not> describes e) k"
    "e = None \<longrightarrow> given k = pr_pendingCandidates p" "pr_pendingCandidates u = []" "pr_remoteDescription u"
  proof -
    have "pr_log m = pr_log q" "pr_pendingCandidates m = []" "pr_remoteDescription m" by (simp_all add: m_def)
    then show ?thesis using add_candidates_log[of pn "pr_pendingCandidates p" m] that unfolding u' by auto
  qed
  have flushed: "accounted p [] (u, e)" if ok
  proof -
    have "given (before_description (pr_log u)) = []"
    proof -
      have "before_description ((SetRemoteDescription d, True) # k) = []" by (simp add: before_description_def)
      then show ?thesis using assms that
        by (auto simp: k(1) log before_append[of "pr_log p"] negotiation_inv_def before_none none_describes split: if_splits)
    qed
    moreover have "list_ex describes (pr_log u)" using that by (simp add: k(1) log)
    moreover have "subseq (given k) (pr_pendingCandidates p)" using k(2) by (rule prefix_imp_subseq)
    ultimately show ?thesis using k
      by (auto simp: accounted_def negotiation_inv_def log given_Cons intro!: list_emb_append_mono)
  qed
  have refused: "bystander p q" if "\<not> ok" using that by (auto simp: bystander_def log)
  have answered: "bystander u (fst (case perform pn CreateAnswer u of (p, False) \<Rightarrow> (p, Some ErrPion) | (p, True) \<Rightarrow> announce_local pn p))"
  proof -
    obtain v ok' where v: "perform pn CreateAnswer u = (v, ok')" by (cases "perform pn CreateAnswer u")
    have "bystander u v" by (rule perform_bystander[OF v]) simp_all
    with announce_bystander[of v pn] show ?thesis by (auto simp: v split: bool.split intro: bystander_trans)
  qed
  show ?thesis
  proof (cases ok)
    case True
    note acc = flushed[OF True]
    show ?thesis
    proof (cases e)
      case None
      have "accounted p [] (case perform pn CreateAnswer u of (p, False) \<Rightarrow> (p, Some ErrPion) | (p, True) \<Rightarrow> announce_local pn p)"
        by (rule accounted_then[OF _ answered]) (use acc None in simp)
      with acc None show ?thesis
        using bystander_accounted[OF assms, of "(p, Some ErrUnexpectedSignal)"] bystander_refl[of p]
        by (simp add: applyDescription_def q True u Let_def)
    next
      case (Some x)
      with acc show ?thesis
        using bystander_accounted[OF assms, of "(p, Some ErrUnexpectedSignal)"] bystander_refl[of p]
        by (simp add: applyDescription_def q True u Let_def)
    qed
  next
    case False
    then show ?thesis
      using bystander_accounted[OF assms, of "(p, Some ErrUnexpectedSignal)"] bystander_refl[of p]
        bystander_accounted[OF assms, of "(q, Some ErrPion)"] refused
      by (simp add: applyDescription_def q Let_def)
  qed
qed

lemma accounted_negotiate:
  assumes "negotiation_inv p"
  shows "accounted p (received [n]) (negotiate pn n p)"
proof (cases n)
  case StartOffer
  have "bystander p (fst (peer_Start pn p))"
    using createOffer_bystander[of p pn False] bystander_refl[of p] by (simp add: peer_Start_def split: option.split)
  then show ?thesis using bystander_accounted[OF assms] by (simp add: StartOffer negotiate_def received_def)
next
  case RestartOffer
  have "bystander p (fst (RestartICE pn p))"
    using createOffer_bystander[of p pn True] bystander_refl[of p] by (simp add: RestartICE_def split: option.split)
  then show ?thesis using bystander_accounted[OF assms] by (simp add: RestartOffer negotiate_def received_def)
next
  case (Applied s)
  have idle: "accounted p [] (p, e)" for e
    using bystander_accounted[OF assms, of "(p, e)"] bystander_refl by simp
  have refused: "accounted p new (p, Some e)" for new e
    using assms by (auto simp: accounted_def intro: list_emb_append_mono list_emb_Nil)
  show ?thesis
    using idle refused accounted_candidate[OF assms] accounted_description[OF assms]
    by (auto simp: Applied negotiate_def received_def ApplySignal_def contextError_def Let_def split: option.split)
qed

lemma accounted_negotiate_all:
  assumes "negotiation_inv p"
  shows "negotiation_inv (fst (negotiate_all pn ns p)) \<and>
    subseq (given (pr_log (fst (negotiate_all pn ns p))) @ pr_pendingCandidates (fst (negotiate_all pn ns p)))
      (given (pr_log p) @ pr_pendingCandidates p @ received ns) \<and>
    (list_all (\<lambda>e. e = None) (snd (negotiate_all pn ns p)) \<longrightarrow>
      given (pr_log (fst (negotiate_all pn ns p))) @ pr_pendingCandidates (fst (negotiate_all pn ns p)) =
      given (pr_log p) @ pr_pendingCandidates p @ received ns)"
  using assms
proof (induction ns arbitrary: p)
  case (Cons n ns)
  obtain q e where q: "negotiate pn n p = (q, e)" by (cases "negotiate pn n p")
  note step = accounted_negotiate[OF Cons.prems, of n pn, unfolded q]
  have "negotiation_inv q" using step by (simp add: accounted_def)
  note rest = Cons.IH[OF this]
  have split: "received (n # ns) = received [n] @ received ns" by (simp add: received_def)
  have "subseq (given (pr_log q) @ pr_pendingCandidates q @ received ns) (given (pr_log p) @ pr_pendingCandidates p @ received (n # ns))"
    using step list_emb_append_mono[of "(=)" "given (pr_log q) @ pr_pendingCandidates q"
      "given (pr_log p) @ pr_pendingCandidates p @ received [n]" "received ns" "received ns"]
    by (simp add: accounted_def split)
  then show ?case
    using rest step by (auto simp: q accounted_def split split_beta Let_def intro: subseq_order.trans)
qed (simp add: received_def)

text \<open>
  C38: Whatever order offers, answers and candidates arrive in, Pion is given no candidate before it
  has taken a remote description, and the candidates it is given and those still waiting are
  received ones in the order they came, none twice; when no operation failed they are all of
  them, and none waits once the description is there.
\<close>

theorem candidates_wait_for_description:
  assumes "peer_new r cfg = Inr p0"
  shows "let (p, errs) = negotiate_all pn ns p0; kept = given (pr_log p) @ pr_pendingCandidates p in
    given (before_description (pr_log p)) = [] \<and> subseq kept (received ns) \<and>
    (list_ex (\<lambda>e. e \<noteq> None) errs \<or> kept = received ns) \<and>
    (if pr_remoteDescription p then pr_pendingCandidates p = [] else given (pr_log p) = [])"
proof -
  have new: "pr_log p0 = []" "pr_pendingCandidates p0 = []" "\<not> pr_remoteDescription p0"
    using assms by (auto simp: peer_new_def Let_def split: if_splits)
  then have "negotiation_inv p0" by (simp add: negotiation_inv_def before_description_def)
  from accounted_negotiate_all[OF this, of pn ns] new show ?thesis
    by (auto simp: split_beta Let_def negotiation_inv_def list_all_iff list_ex_iff)
qed

definition demo_pion :: pion where
  "demo_pion = \<lparr>pi_ok = (\<lambda>log c. True), pi_created = (\<lambda>log. \<lparr>sd_Type = SDPTypeOffer, sd_SDP = ''v=0''\<rparr>),
     pi_local = (\<lambda>log. Some \<lparr>sd_Type = SDPTypeOffer, sd_SDP = ''v=0''\<rparr>)\<rparr>"

definition demo_candidate :: "string \<Rightarrow> negotiation" where
  "demo_candidate c = Applied \<lparr>ps_Description = None,
     ps_Candidate = Some \<lparr>ice_Candidate = c, ice_SDPMid = None, ice_SDPMLineIndex = Some 0\<rparr>, ps_ICEComplete = False\<rparr>"

definition demo_negotiation :: "negotiation list" where
  "demo_negotiation = [StartOffer, demo_candidate ''a'', Applied (description_signal \<lparr>sd_Type = SDPTypeAnswer, sd_SDP = ''v=0''\<rparr>),
     demo_candidate ''b'']"

definition demo_peer :: "role \<Rightarrow> peer" where
  "demo_peer r = projr (peer_new r \<lparr>pcf_QueueSize = 0, pcf_MaxVideoBufferedAmount = 0, pcf_Audio = False\<rparr>)"

lemma demo_peer_new:
  "peer_new RoleCaller \<lparr>pcf_QueueSize = 0, pcf_MaxVideoBufferedAmount = 0, pcf_Audio = False\<rparr> = Inr (demo_peer RoleCaller)"
  "peer_new RoleCallee \<lparr>pcf_QueueSize = 0, pcf_MaxVideoBufferedAmount = 0, pcf_Audio = False\<rparr> = Inr (demo_peer RoleCallee)"
  by (simp_all add: demo_peer_def peer_new_def Let_def)

theorem candidates_wait_for_description_witness:
  "given (before_description (pr_log (fst (negotiate_all demo_pion demo_negotiation (demo_peer RoleCaller))))) = []"
  using candidates_wait_for_description[OF demo_peer_new(1), of demo_pion demo_negotiation] by (simp add: Let_def split_beta)

subsection \<open>Control messages arrive once and in order\<close>

fun send_all :: "time \<Rightarrow> control_message list \<Rightarrow> peer \<Rightarrow> peer \<times> peer_error option list" where
  "send_all now [] p = (p, [])"
| "send_all now (m # ms) p = (let (p, e) = control_send now m p; (p, es) = send_all now ms p in (p, e # es))"

text \<open>\<open>sendLoop\<close> until it waits, the sends succeeding; \<open>n\<close> rounds are enough for \<open>n\<close> queued messages.\<close>

fun drain :: "nat \<Rightarrow> peer \<Rightarrow> peer" where
  "drain 0 p = p"
| "drain (Suc n) p = (case send_one False p of None \<Rightarrow> p | Some p \<Rightarrow> drain n p)"

fun deliver_all :: "(nat \<Rightarrow> time) \<Rightarrow> nat \<Rightarrow> string list \<Rightarrow> peer \<Rightarrow> peer" where
  "deliver_all clock k [] p = p"
| "deliver_all clock k (d # ds) p = deliver_all clock (Suc k) ds (on_control_message (clock k) d p)"

lemma send_all_queue:
  assumes "list_all (\<lambda>e. e = None) (snd (send_all now ms p))"
  shows "fst (send_all now ms p) = p\<lparr>pr_outbound := pr_outbound p @ map (Data \<circ> marshal_control) ms\<rparr> \<and>
    (\<forall>m \<in> set ms. length (marshal_control m) \<le> MaxControlMessageSize)"
  using assms
proof (induction ms arbitrary: p)
  case (Cons m ms)
  obtain q e where q: "control_send now m p = (q, e)" by (cases "control_send now m p")
  have e: "e = None" "list_all (\<lambda>e. e = None) (snd (send_all now ms q))" using Cons.prems by (simp_all add: q split_beta Let_def)
  have "q = p\<lparr>pr_outbound := pr_outbound p @ [Data (marshal_control m)]\<rparr> \<and> length (marshal_control m) \<le> MaxControlMessageSize"
    using q e(1) by (auto simp: control_send_def Let_def split: option.splits if_splits)
  with Cons.IH[OF e(2)] show ?case by (simp add: q split_beta Let_def)
qed simp

lemma drain_sent:
  assumes "pr_outbound p = map Data ds" "\<not> pr_closed p" "pr_ready p" "pr_channel p \<noteq> None" "length ds \<le> n"
  shows "pr_sent (drain n p) = pr_sent p @ ds \<and> pr_outbound (drain n p) = []"
  using assms
proof (induction ds arbitrary: p n)
  case Nil
  then show ?case by (cases n) (simp_all add: send_one_def)
next
  case (Cons d ds)
  obtain k where k: "n = Suc k" "length ds \<le> k" using Cons.prems(5) by (cases n) auto
  have "send_one False p = Some (p\<lparr>pr_outbound := map Data ds, pr_sent := pr_sent p @ [d]\<rparr>)"
    using Cons.prems by (auto simp: send_one_def Let_def split: option.split)
  with Cons.IH[of "p\<lparr>pr_outbound := map Data ds, pr_sent := pr_sent p @ [d]\<rparr>" k] Cons.prems k show ?case by simp
qed

lemma seen_new:
  assumes "ident \<notin> pr_seenIDs p"
  shows "\<exists>q. seen ident p = (q, False) \<and> pr_seenIDs q \<subseteq> insert ident (pr_seenIDs p) \<and> pr_events q = pr_events p \<and> pr_closed q = pr_closed p"
  using assms by (auto simp: seen_def Let_def)

lemma deliver_events:
  assumes "\<forall>k < length ms. DecodeControl (marshal_control (ms ! k)) (NewValidator (clock (i + k))) = Inr (ms ! k)"
    "distinct (map cm_id ms)" "pr_seenIDs p \<inter> cm_id ` set ms = {}" "\<not> pr_closed p"
  shows "pr_events (deliver_all clock i (map marshal_control ms) p) = pr_events p @ map EventControlMessage ms"
  using assms
proof (induction ms arbitrary: p i)
  case (Cons m ms)
  have now: "DecodeControl (marshal_control m) (NewValidator (clock i)) = Inr m" using Cons.prems(1) by force
  have new: "cm_id m \<notin> pr_seenIDs p" using Cons.prems(3) by auto
  obtain q where q: "seen (cm_id m) p = (q, False)" "pr_seenIDs q \<subseteq> insert (cm_id m) (pr_seenIDs p)" "pr_events q = pr_events p"
    "\<not> pr_closed q" using seen_new[OF new] Cons.prems(4) by auto
  let ?q = "q\<lparr>pr_events := pr_events q @ [EventControlMessage m]\<rparr>"
  have step: "on_control_message (clock i) (marshal_control m) p = ?q"
    using now q by (simp add: on_control_message_def emitEvent_def)
  have later: "\<forall>k < length ms. DecodeControl (marshal_control (ms ! k)) (NewValidator (clock (Suc i + k))) = Inr (ms ! k)"
    using Cons.prems(1) by force
  have "pr_seenIDs ?q \<inter> cm_id ` set ms = {}" 
  proof -
    have "cm_id m \<notin> cm_id ` set ms" using Cons.prems(2) by simp
    moreover have "pr_seenIDs p \<inter> cm_id ` set ms = {}" using Cons.prems(3) by auto
    ultimately have "insert (cm_id m) (pr_seenIDs p) \<inter> cm_id ` set ms = {}" by simp
    with Int_mono[OF q(2) subset_refl, of "cm_id ` set ms"] show ?thesis by simp
  qed
  from Cons.IH[OF later _ this] Cons.prems(2) q show ?case by (simp add: step)
qed simp

text \<open>
  Control messages that a peer accepted for sending arrive at the other end in the order they
  were sent and each exactly once, unchanged, once the channel is open, given that the channel
  hands over what was sent in order and the receiver's clock finds the messages valid.
\<close>

theorem controls_arrive_in_order:
  assumes "list_all (\<lambda>e. e = None) (snd (send_all now ms a))" "pr_outbound a = []" "\<not> pr_closed a"
    and "pr_ready a" "pr_channel a \<noteq> None" "pr_sent a = []"
    and "\<forall>m \<in> set ms. cm_type m \<in> set known_controls \<and> (cm_payload m = [] \<or> (\<exists>v. reads 1 (cm_payload m) v)) \<and>
      0 \<le> year_of (cm_sent_at m) \<and> year_of (cm_sent_at m) \<le> 9999"
    and "\<forall>k < length ms. ValidateControl (NewValidator (clock k)) (ms ! k) = None"
    and "distinct (map cm_id ms)" "peer_new r cfg = Inr b"
  shows "pr_events (deliver_all clock 0 (pr_sent (drain (length ms) (fst (send_all now ms a)))) b) = map EventControlMessage ms"
proof -
  note sent = send_all_queue[OF assms(1)]
  have "pr_sent (drain (length ms) (fst (send_all now ms a))) = map marshal_control ms"
    using drain_sent[of "fst (send_all now ms a)" "map marshal_control ms" "length ms"] sent assms(2-6) by (simp add: comp_def)
  moreover have "DecodeControl (marshal_control (ms ! k)) (NewValidator (clock (0 + k))) = Inr (ms ! k)" if k: "k < length ms" for k
  proof -
    have "ms ! k \<in> set ms" using k by simp
    with assms(7) sent obtain v where "cm_type (ms ! k) \<in> set known_controls" "cm_payload (ms ! k) = [] \<or> reads 1 (cm_payload (ms ! k)) v"
      "0 \<le> year_of (cm_sent_at (ms ! k)) \<and> year_of (cm_sent_at (ms ! k)) \<le> 9999" "length (marshal_control (ms ! k)) \<le> MaxControlMessageSize"
      by blast
    moreover have "ValidateControl (NewValidator (clock (0 + k))) (ms ! k) = None" using assms(8) k by simp
    ultimately show ?thesis by (rule_tac decode_written_control)
  qed
  moreover have "pr_seenIDs b = {}" "pr_events b = []" "\<not> pr_closed b"
    using assms(10) by (auto simp: peer_new_def Let_def split: if_splits)
  ultimately show ?thesis using deliver_events[of ms clock 0 b] assms(9) by simp
qed

definition demo_chat :: control_message where
  "demo_chat = \<lparr>cm_version = 2, cm_id = demo_uuid, cm_type = ControlChatMessage, cm_sent_at = demo_now,
     cm_payload = marshal_chat ''a<b''\<rparr>"

definition demo_mute :: control_message where
  "demo_mute = \<lparr>cm_version = 2, cm_id = ''11234567-89ab-4cde-8f01-23456789abcd'', cm_type = ControlAudioState, cm_sent_at = demo_now,
     cm_payload = marshal_audio_state True\<rparr>"

definition demo_open_peer :: peer where
  "demo_open_peer = (demo_peer RoleCaller)\<lparr>pr_ready := True, pr_channel := Some \<lparr>ch_id = 1, ch_Label = ControlChannelLabel,
     ch_Ordered = True, ch_MaxPacketLifeTime = None, ch_MaxRetransmits = None\<rparr>\<rparr>"

lemma demo_controls_valid:
  "ValidateControl (NewValidator demo_now) demo_chat = None" "ValidateControl (NewValidator demo_now) demo_mute = None"
  "length (marshal_control demo_chat) \<le> MaxControlMessageSize" "length (marshal_control demo_mute) \<le> MaxControlMessageSize"
  "0 \<le> year_of demo_now \<and> year_of demo_now \<le> 9999"
  by code_simp+

lemma demo_open: "pr_outbound demo_open_peer = []" "\<not> pr_closed demo_open_peer" "pr_ready demo_open_peer"
  "pr_channel demo_open_peer \<noteq> None" "pr_sent demo_open_peer = []"
  by (simp_all add: demo_open_peer_def demo_peer_def peer_new_def Let_def)

theorem controls_arrive_in_order_witness:
  "pr_events (deliver_all (\<lambda>k. demo_now) 0 (pr_sent (drain 2 (fst (send_all demo_now [demo_chat, demo_mute] demo_open_peer))))
     (demo_peer RoleCallee)) = [EventControlMessage demo_chat, EventControlMessage demo_mute]"
proof -
  have accepted: "list_all (\<lambda>e. e = None) (snd (send_all demo_now [demo_chat, demo_mute] demo_open_peer))"
    using demo_controls_valid demo_open(2) by (simp add: control_send_def Let_def)
  have written: "\<forall>m \<in> set [demo_chat, demo_mute]. cm_type m \<in> set known_controls \<and>
      (cm_payload m = [] \<or> (\<exists>v. reads 1 (cm_payload m) v)) \<and> 0 \<le> year_of (cm_sent_at m) \<and> year_of (cm_sent_at m) \<le> 9999"
    using reads_chat[of 1 "''a<b''"] reads_audio_state[of 1 True] demo_controls_valid(5)
    by (auto simp: demo_chat_def demo_mute_def known_controls_def max_nesting_def)
  have valid: "\<forall>k < length [demo_chat, demo_mute]. ValidateControl (NewValidator ((\<lambda>k. demo_now) k)) ([demo_chat, demo_mute] ! k) = None"
    using demo_controls_valid(1,2) by (auto simp: less_Suc_eq numeral_2_eq_2)
  have names: "distinct (map cm_id [demo_chat, demo_mute])" by (simp add: demo_chat_def demo_mute_def demo_uuid_def)
  from controls_arrive_in_order[OF accepted demo_open written valid names demo_peer_new(2)] show ?thesis
    by (simp add: numeral_2_eq_2)
qed

end
