(* ===== verification/Call_Setup.thy ===== *)
theory Call_Setup
  imports Peer Trust Replay Access_Turn
begin

text \<open>
  How a call comes to a session, \<open>internal/client/app/app.go\<close>: the caller's steps of \<open>RunChat\<close>, the
  callee's of \<open>answerInvitation\<close>, the check of the other end's identity both rest on, the ICE servers
  of \<open>prepareICEServers\<close>, and the negotiation messages.

  The signaling session is the interface \<open>SignalSession\<close>: what it sends is recorded, and whether a
  send succeeds is a reading of the step.  Texts shown to the user are left out, except where a
  result depends on them.
\<close>

datatype app_error = BadTarget | ContextDone | SignalingFailed | SendFailed | BadPresence | TargetOffline | TargetBusy
  | InvitationTimedOut | SignalingReported string string | SignalingUnreadable | BadProof verify_error | ReplayedProof
  | TrustFailed trust_error | BlockedIdentity string | InputFailed | SigningFailed
  | TURNFailed | TURNExpired | TURNIncomplete | RelayUnavailable

subsection \<open>The identity of the other end\<close>

text \<open>\<open>ts_records\<close> is the configured trust store; without one the file is opened each time.\<close>

record trust_state =
  ts_guard :: replay_guard
  ts_records :: "trust_records option"
  ts_file :: "trust_file option"

record trust_readings =
  tr_verified :: time
  tr_accepted :: time
  tr_save_fails :: bool

definition verifyAndObserve ::
  "crypto \<Rightarrow> string \<Rightarrow> trust_readings \<Rightarrow> signal_message \<Rightarrow> trust_state \<Rightarrow>
   trust_state \<times> (app_error + string \<times> trust_record \<times> string list)" where
  "verifyAndObserve cr serverURL rd m ts = (case Verify cr m (tr_verified rd) of
       Inl e \<Rightarrow> (ts, Inl (BadProof e))
     | Inr (proof, publicKey, fingerprint) \<Rightarrow>
         let (guard, fresh) = replay_accept fingerprint (pf_Nonce proof) (pf_ExpiresAt proof) (tr_accepted rd) (ts_guard ts);
             ts = ts\<lparr>ts_guard := guard\<rparr> in
         if \<not> fresh then (ts, Inl ReplayedProof)
         else (case (case ts_records ts of Some rs \<Rightarrow> Inr rs | None \<Rightarrow> OpenTrustStoreFile (ts_file ts)) of
             Inl e \<Rightarrow> (ts, Inl (TrustFailed e))
           | Inr rs \<Rightarrow>
               let (result, rs, f) = Observe cr (tr_save_fails rd) serverURL (sm_from m) publicKey rs (ts_file ts);
                   ts = ts\<lparr>ts_records := map_option (\<lambda>_. rs) (ts_records ts), ts_file := f\<rparr> in
               (case result of
                  Inl e \<Rightarrow> (ts, Inl (TrustFailed e))
                | Inr (r, reused, Some e) \<Rightarrow> (ts, Inl (TrustFailed e))
                | Inr (r, reused, None) \<Rightarrow> (ts, Inr (publicKey, r, reused)))))"

subsection \<open>Payloads from the server\<close>

definition presence_of :: "string \<Rightarrow> bool option" where
  "presence_of raw = decodeJSON (store_struct (\<lambda>n raw. get_bool) [''online''] False) raw False"

record error_payload =
  ep_Code :: string
  ep_Message :: string

definition error_of :: "string \<Rightarrow> error_payload option" where
  "error_of raw = decodeJSON (store_struct (\<lambda>n raw v p.
     if n = ''code'' then map_option (\<lambda>x. p\<lparr>ep_Code := x\<rparr>) (get_string v (ep_Code p))
     else map_option (\<lambda>x. p\<lparr>ep_Message := x\<rparr>) (get_string v (ep_Message p))) [''code'', ''message''] False) raw
     \<lparr>ep_Code = [], ep_Message = []\<rparr>"

definition signalingError :: "signal_message \<Rightarrow> app_error" where
  "signalingError m = (case error_of (sm_payload m) of
       None \<Rightarrow> SignalingUnreadable
     | Some p \<Rightarrow> SignalingReported (ep_Code p) (ep_Message p))"

subsection \<open>The caller\<close>

record app_config =
  ac_Address :: string
  ac_ServerURL :: string
  ac_Identity :: "identity option"

text \<open>A message handed to the signaling session: its type, recipient, call and payload.\<close>

type_synonym sent_signal = "signal_type \<times> string \<times> string \<times> string option"

datatype call_phase = Locating | Waiting string | Deciding | InSession role string | Finished "app_error option"

record call_setup =
  cs_phase :: call_phase
  cs_trust :: trust_state
  cs_sent :: "sent_signal list"

datatype call_input = Cancelled | SignalLost | Received signal_message | Typed string | TypingFailed | InputClosed

text \<open>What one step reads: a call identifier and a nonce, the time of signing, whether sending succeeds.\<close>

record setup_readings =
  sr_uuid :: string
  sr_nonce :: string
  sr_signed :: time
  sr_sends :: bool
  sr_trust :: trust_readings

definition finish_call :: "app_error option \<Rightarrow> call_setup \<Rightarrow> call_setup" where
  "finish_call e s = s\<lparr>cs_phase := Finished e\<rparr>"

text \<open>\<open>sendSignal\<close>; the caller says how it goes on when the message went out.\<close>

definition sendSignal :: "bool \<Rightarrow> sent_signal \<Rightarrow> (call_setup \<Rightarrow> call_setup) \<Rightarrow> call_setup \<Rightarrow> call_setup" where
  "sendSignal sends m continue s = (if \<not> sends then finish_call (Some SendFailed) s else continue (s\<lparr>cs_sent := cs_sent s @ [m]\<rparr>))"

text \<open>A signed payload when there is an identity, none otherwise; \<open>None\<close> when signing fails.\<close>

definition signed_payload ::
  "crypto \<Rightarrow> app_config \<Rightarrow> setup_readings \<Rightarrow> signal_type \<Rightarrow> string \<Rightarrow> string \<Rightarrow> string option option" where
  "signed_payload cr c rd t callID to = (case ac_Identity c of
       None \<Rightarrow> Some None
     | Some i \<Rightarrow> (case Sign cr (sr_nonce rd) i t callID (ac_Address c) to (sr_signed rd) of
           None \<Rightarrow> None
         | Some p \<Rightarrow> Some (Some (marshal_proof p))))"

definition send_invite :: "crypto \<Rightarrow> app_config \<Rightarrow> setup_readings \<Rightarrow> string \<Rightarrow> call_setup \<Rightarrow> call_setup" where
  "send_invite cr c rd target s = (
     let callID = sr_uuid rd in
     case signed_payload cr c rd SignalCallInvite callID target of
       None \<Rightarrow> finish_call (Some SigningFailed) s
     | Some payload \<Rightarrow> sendSignal (sr_sends rd) (SignalCallInvite, target, callID, payload)
         (\<lambda>s. s\<lparr>cs_phase := Waiting callID\<rparr>) s)"

definition RunChat_start :: "string \<Rightarrow> bool \<Rightarrow> trust_state \<Rightarrow> call_setup" where
  "RunChat_start target sends ts = (
     let s = \<lparr>cs_phase = Locating, cs_trust = ts, cs_sent = []\<rparr> in
     if \<not> ValidAddress target then finish_call (Some BadTarget) s
     else sendSignal sends (SignalPresenceQuery, target, [], None) (\<lambda>s. s) s)"

text \<open>The loop that waits for the presence of the target; typed lines wait.\<close>

definition locate_step :: "crypto \<Rightarrow> app_config \<Rightarrow> setup_readings \<Rightarrow> string \<Rightarrow> call_input \<Rightarrow> call_setup \<Rightarrow> call_setup" where
  "locate_step cr c rd target input s = (case input of
       Cancelled \<Rightarrow> finish_call (Some ContextDone) s
     | SignalLost \<Rightarrow> finish_call (Some SignalingFailed) s
     | Received m \<Rightarrow> (case sm_type m of
           SignalPresenceResult \<Rightarrow> (case presence_of (sm_payload m) of
               None \<Rightarrow> finish_call (Some BadPresence) s
             | Some False \<Rightarrow> finish_call (Some TargetOffline) s
             | Some True \<Rightarrow> send_invite cr c rd target s)
         | SignalSessionError \<Rightarrow> finish_call (Some (signalingError m)) s
         | _ \<Rightarrow> s)
     | _ \<Rightarrow> s)"

text \<open>The loop that waits for the answer.\<close>

definition wait_step ::
  "crypto \<Rightarrow> app_config \<Rightarrow> setup_readings \<Rightarrow> string \<Rightarrow> string \<Rightarrow> call_input \<Rightarrow> call_setup \<Rightarrow> call_setup" where
  "wait_step cr c rd target callID input s = (
     let cancel = sendSignal (sr_sends rd) (SignalCallCancel, target, callID, None) (finish_call None) in
     case input of
       Cancelled \<Rightarrow> finish_call (Some ContextDone) s
     | SignalLost \<Rightarrow> finish_call (Some SignalingFailed) s
     | InputClosed \<Rightarrow> cancel s
     | Typed text \<Rightarrow> if trim_space text = ''/quit'' then cancel s else s
     | TypingFailed \<Rightarrow> finish_call (Some InputFailed) s
     | Received m \<Rightarrow>
         if sm_call_id m \<noteq> [] \<and> sm_call_id m \<noteq> callID then s
         else (case sm_type m of
             SignalCallAccept \<Rightarrow> (case verifyAndObserve cr (ac_ServerURL c) (sr_trust rd) m (cs_trust s) of
                 (ts, Inl e) \<Rightarrow> finish_call (Some e) (s\<lparr>cs_trust := ts\<rparr>)
               | (ts, Inr _) \<Rightarrow> s\<lparr>cs_trust := ts, cs_phase := InSession RoleCaller callID\<rparr>)
           | SignalCallDecline \<Rightarrow> finish_call None s
           | SignalCallBusy \<Rightarrow> finish_call (Some TargetBusy) s
           | SignalCallTimeout \<Rightarrow> finish_call (Some InvitationTimedOut) s
           | SignalSessionError \<Rightarrow> finish_call (Some (signalingError m)) s
           | _ \<Rightarrow> s))"

definition chat_step :: "crypto \<Rightarrow> app_config \<Rightarrow> string \<Rightarrow> setup_readings \<Rightarrow> call_input \<Rightarrow> call_setup \<Rightarrow> call_setup" where
  "chat_step cr c target rd input s = (case cs_phase s of
       Locating \<Rightarrow> locate_step cr c rd target input s
     | Waiting callID \<Rightarrow> wait_step cr c rd target callID input s
     | _ \<Rightarrow> s)"

subsection \<open>The callee\<close>

text \<open>A decline whose failure is ignored.\<close>

definition send_decline :: "bool \<Rightarrow> signal_message \<Rightarrow> call_setup \<Rightarrow> call_setup" where
  "send_decline sends invitation s =
     (if sends then s\<lparr>cs_sent := cs_sent s @ [(SignalCallDecline, sm_from invitation, sm_call_id invitation, None)]\<rparr> else s)"

definition answer_start :: "crypto \<Rightarrow> app_config \<Rightarrow> setup_readings \<Rightarrow> signal_message \<Rightarrow> trust_state \<Rightarrow> call_setup" where
  "answer_start cr c rd invitation ts = (
     case verifyAndObserve cr (ac_ServerURL c) (sr_trust rd) invitation ts of
       (ts, Inl e) \<Rightarrow> finish_call (Some e) (send_decline (sr_sends rd) invitation \<lparr>cs_phase = Deciding, cs_trust = ts, cs_sent = []\<rparr>)
     | (ts, Inr (publicKey, r, reused)) \<Rightarrow>
         let s = \<lparr>cs_phase = Deciding, cs_trust = ts, cs_sent = []\<rparr> in
         if tr_Blocked r then finish_call (Some (BlockedIdentity (tr_Fingerprint r))) (send_decline (sr_sends rd) invitation s)
         else s)"

definition answer_step :: "crypto \<Rightarrow> app_config \<Rightarrow> signal_message \<Rightarrow> setup_readings \<Rightarrow> call_input \<Rightarrow> call_setup \<Rightarrow> call_setup" where
  "answer_step cr c invitation rd input s = (if cs_phase s \<noteq> Deciding then s else case input of
       Cancelled \<Rightarrow> finish_call (Some ContextDone) s
     | SignalLost \<Rightarrow> finish_call (Some SignalingFailed) s
     | Received m \<Rightarrow>
         if sm_call_id m = sm_call_id invitation \<and> sm_type m \<in> set [SignalCallCancel, SignalCallEnd, SignalCallTimeout]
         then finish_call None s else s
     | InputClosed \<Rightarrow> finish_call None (send_decline (sr_sends rd) invitation s)
     | TypingFailed \<Rightarrow> finish_call (Some InputFailed) s
     | Typed text \<Rightarrow>
         let answer = to_lower (trim_space text) in
         if answer \<noteq> ''y'' \<and> answer \<noteq> ''yes''
         then sendSignal (sr_sends rd) (SignalCallDecline, sm_from invitation, sm_call_id invitation, None) (finish_call None) s
         else (case signed_payload cr c rd SignalCallAccept (sm_call_id invitation) (sm_from invitation) of
             None \<Rightarrow> finish_call (Some SigningFailed) s
           | Some payload \<Rightarrow> sendSignal (sr_sends rd) (SignalCallAccept, sm_from invitation, sm_call_id invitation, payload)
               (\<lambda>s. s\<lparr>cs_phase := InSession RoleCallee (sm_call_id invitation)\<rparr>) s))"

text \<open>\<open>RunListen\<close> until it answers, and \<open>DeclineIncoming\<close>.\<close>

datatype listening = Listening | ListenFailed app_error | Answering signal_message call_setup

definition listen_step :: "crypto \<Rightarrow> app_config \<Rightarrow> setup_readings \<Rightarrow> trust_state \<Rightarrow> call_input \<Rightarrow> listening" where
  "listen_step cr c rd ts input = (case input of
       Cancelled \<Rightarrow> ListenFailed ContextDone
     | SignalLost \<Rightarrow> ListenFailed SignalingFailed
     | Received m \<Rightarrow> (case sm_type m of
           SignalSessionError \<Rightarrow> ListenFailed (signalingError m)
         | SignalCallInvite \<Rightarrow> Answering m (answer_start cr c rd m ts)
         | _ \<Rightarrow> Listening)
     | _ \<Rightarrow> Listening)"

definition DeclineIncoming :: "bool \<Rightarrow> signal_message \<Rightarrow> sent_signal list \<times> app_error option" where
  "DeclineIncoming sends invitation = (if sends then ([(SignalCallDecline, sm_from invitation, sm_call_id invitation, None)], None)
     else ([], Some SendFailed))"

subsection \<open>ICE servers\<close>

definition iceServers :: "string list \<Rightarrow> ice_server list" where
  "iceServers urls = (if length urls = 0 then [] else [\<lparr>ice_URLs = urls, ice_Username = [], ice_Credential = []\<rparr>])"

text \<open>The answer of the service: no such endpoint, another failure, or credentials.\<close>

datatype turn_answer = NoEndpoint | TURNError | Granted turn_credentials

fun usable_servers :: "ice_server list \<Rightarrow> app_error + ice_server list" where
  "usable_servers [] = Inr []"
| "usable_servers (s # ss) = (
     let turnURLs = filter ValidTURNURL (ice_URLs s) in
     if length turnURLs = 0 then usable_servers ss
     else if ice_Username s = [] \<or> ice_Credential s = [] then Inl TURNIncomplete
     else (case usable_servers ss of Inl e \<Rightarrow> Inl e | Inr rest \<Rightarrow>
       Inr (\<lparr>ice_URLs = turnURLs, ice_Username = ice_Username s, ice_Credential = ice_Credential s\<rparr> # rest)))"

definition prepareICEServers ::
  "string list \<Rightarrow> string \<Rightarrow> bool \<Rightarrow> turn_answer \<Rightarrow> time \<Rightarrow> app_error + ice_server list" where
  "prepareICEServers stunURLs accessKey relayOnly answer now = (
     let granted = (if accessKey = [] then Inr [] else (case answer of
           NoEndpoint \<Rightarrow> Inr []
         | TURNError \<Rightarrow> Inl TURNFailed
         | Granted credentials \<Rightarrow>
             if \<not> tc_ExpiresAt credentials > now then Inl TURNExpired else usable_servers (tc_ICEServers credentials)))
     in case granted of Inl e \<Rightarrow> Inl e | Inr turn \<Rightarrow>
       let servers = iceServers stunURLs @ turn in
       if relayOnly \<and> \<not> list_ex (\<lambda>s. list_ex ValidTURNURL (ice_URLs s)) servers then Inl RelayUnavailable
       else Inr servers)"

lemma usable_servers_ok:
  "usable_servers ss = Inr out \<Longrightarrow> s \<in> set out \<Longrightarrow>
   ice_URLs s \<noteq> [] \<and> list_all ValidTURNURL (ice_URLs s) \<and> ice_Username s \<noteq> [] \<and> ice_Credential s \<noteq> []"
  by (induction ss arbitrary: out) (auto simp: Let_def list_all_iff split: if_splits sum.splits)

text \<open>
  The servers a session is given are the STUN servers, followed by servers of which only valid
  TURN URLs are left, each with a user name and a credential from an answer that has not expired;
  with the relay policy at least one relay is among them.
\<close>

theorem prepared_servers:
  assumes "prepareICEServers stunURLs accessKey relayOnly answer now = Inr servers"
  shows "\<exists>turn. servers = iceServers stunURLs @ turn \<and>
    (\<forall>s \<in> set turn. ice_URLs s \<noteq> [] \<and> list_all ValidTURNURL (ice_URLs s) \<and> ice_Username s \<noteq> [] \<and> ice_Credential s \<noteq> []) \<and>
    (turn = [] \<or> accessKey \<noteq> [] \<and> (\<exists>c. answer = Granted c \<and> now < tc_ExpiresAt c)) \<and>
    (relayOnly \<longrightarrow> (\<exists>s \<in> set servers. \<exists>u \<in> set (ice_URLs s). ValidTURNURL u))"
  using assms usable_servers_ok
  by (auto simp: prepareICEServers_def Let_def list_ex_iff split: if_splits sum.splits turn_answer.splits; blast)

definition demo_turn :: turn_credentials where
  "demo_turn = \<lparr>tc_ExpiresAt = 100, tc_ICEServers =
     [\<lparr>ice_URLs = [''turn:relay.example:3478''], ice_Username = ''u'', ice_Credential = ''c''\<rparr>]\<rparr>"

theorem prepared_servers_witness:
  "\<exists>servers. prepareICEServers [''stun:stun.example''] ''key'' True (Granted demo_turn) 50 = Inr servers \<and>
     (\<exists>s \<in> set servers. \<exists>u \<in> set (ice_URLs s). ValidTURNURL u)"
proof -
  have url: "ValidTURNURL ''turn:relay.example:3478''" by code_simp
  then have "prepareICEServers [''stun:stun.example''] ''key'' True (Granted demo_turn) 50 =
      Inr (iceServers [''stun:stun.example''] @ tc_ICEServers demo_turn)"
    by (simp add: prepareICEServers_def demo_turn_def Let_def)
  with prepared_servers[OF this] show ?thesis by blast
qed

subsection \<open>Negotiation messages\<close>

definition forwardPeerSignal :: "peer_signal \<Rightarrow> peer_error + signal_type \<times> string option" where
  "forwardPeerSignal s = (case ps_Description s of
       Some d \<Rightarrow> Inr (if sd_Type d = SDPTypeAnswer then SignalWebRTCAnswer else SignalWebRTCOffer, Some (marshal_sdp (sd_SDP d)))
     | None \<Rightarrow> (case ps_Candidate s of
           Some c \<Rightarrow> Inr (SignalWebRTCICE, Some (marshal_ice c))
         | None \<Rightarrow> if ps_ICEComplete s then Inr (SignalWebRTCICEComplete, None) else Inl ErrUnexpectedSignal))"

definition unmarshal_sdp :: "string \<Rightarrow> sdp_payload option" where
  "unmarshal_sdp raw = decodeJSON (store_struct (\<lambda>n raw v p. map_option (\<lambda>x. p\<lparr>SDP := x\<rparr>) (get_string v (SDP p)))
     [''sdp''] False) raw \<lparr>SDP = []\<rparr>"

definition unmarshal_ice :: "string \<Rightarrow> ice_payload option" where
  "unmarshal_ice raw = decodeJSON (store_struct store_ice [''candidate'', ''sdp_mid'', ''sdp_mline_index''] False) raw
     \<lparr>ice_Candidate = [], ice_SDPMid = None, ice_SDPMLineIndex = None\<rparr>"

text \<open>A payload that cannot be decoded is an error of its own, here that of an invalid message.\<close>

definition decodePeerSignal :: "signal_type \<Rightarrow> string \<Rightarrow> peer_error + peer_signal" where
  "decodePeerSignal t payload = (
     if t = SignalWebRTCOffer \<or> t = SignalWebRTCAnswer then (case unmarshal_sdp payload of
         None \<Rightarrow> Inl (ErrProtocol ErrInvalidMessage)
       | Some p \<Rightarrow> Inr (description_signal
           \<lparr>sd_Type = (if t = SignalWebRTCAnswer then SDPTypeAnswer else SDPTypeOffer), sd_SDP = SDP p\<rparr>))
     else if t = SignalWebRTCICE then (case unmarshal_ice payload of
         None \<Rightarrow> Inl (ErrProtocol ErrInvalidMessage)
       | Some c \<Rightarrow> Inr \<lparr>ps_Description = None, ps_Candidate = Some c, ps_ICEComplete = False\<rparr>)
     else if t = SignalWebRTCICEComplete then Inr \<lparr>ps_Description = None, ps_Candidate = None, ps_ICEComplete = True\<rparr>
     else Inl ErrUnexpectedSignal)"

text \<open>A signal with exactly one value, an offer or answer, and text that is valid UTF-8.\<close>

definition sendable :: "peer_signal \<Rightarrow> bool" where
  "sendable s \<longleftrightarrow> (case (ps_Description s, ps_Candidate s, ps_ICEComplete s) of
       (Some d, None, False) \<Rightarrow> sd_Type d \<noteq> OtherSDPType \<and> valid_utf8 (sd_SDP d)
     | (None, Some c, False) \<Rightarrow> valid_utf8 (ice_Candidate c) \<and>
         (case ice_SDPMid c of None \<Rightarrow> True | Some mid \<Rightarrow> valid_utf8 mid) \<and> line_index_ok c
     | (None, None, True) \<Rightarrow> True
     | _ \<Rightarrow> False)"

lemma decode_object:
  assumes "ms \<noteq> []" "\<forall>(k, t, v) \<in> set ms. plain_text k \<and> reads 1 t v"
  shows "decodeJSON store (json_object (texts ms)) zero = store (JObject ms) zero"
  using parse_written[OF reads_object(1)[OF assms(1), of 0]] assms(2)
  by (auto simp: decodeJSON_def max_nesting_def skip_space_def split: option.split)

lemma decode_required:
  assumes "ms \<noteq> []" "\<forall>(k, t, v) \<in> set ms. plain_text k \<and> reads 1 t v"
  shows "decodeJSON store (json_object (texts ms)) zero = requiredPayload store (json_object (texts ms)) zero"
  by (simp only: decode_object[OF assms] required_object[OF assms])

lemma unmarshal_written:
  "unmarshal_sdp (marshal_sdp s) = Some \<lparr>SDP = to_valid s\<rparr>"
  "line_index_ok c \<Longrightarrow> unmarshal_ice (marshal_ice c) = Some (valid_ice c)"
proof -
  define ms where "ms = [(''sdp'', json_string s, JString (json_escape s))]"
  have ms: "ms \<noteq> []" "\<forall>(k, t, v) \<in> set ms. plain_text k \<and> reads 1 t v" "marshal_sdp s = json_object (texts ms)"
    using member_keys reads_json_string by (simp_all add: ms_def marshal_sdp_def)
  show "unmarshal_sdp (marshal_sdp s) = Some \<lparr>SDP = to_valid s\<rparr>"
    using read_sdp[of s] unfolding unmarshal_sdp_def sdp_of_def ms(3) decode_required[OF ms(1,2)] .
  assume ok: "line_index_ok c"
  have ne: "ice_members c \<noteq> []" by (simp add: ice_members_def)
  show "unmarshal_ice (marshal_ice c) = Some (valid_ice c)"
    using read_ice[OF ok] unfolding unmarshal_ice_def ice_of_def marshal_ice_members decode_required[OF ne ice_members_read[OF ok]] .
qed

text \<open>
  What one end's peer hands to signaling, offer, answer, candidate or end of candidates, is
  what the other end's peer is given when the message arrives.
\<close>

theorem negotiation_roundtrip:
  assumes "sendable s"
  shows "\<exists>t payload. forwardPeerSignal s = Inr (t, payload) \<and>
    decodePeerSignal t (case payload of None \<Rightarrow> [] | Some raw \<Rightarrow> raw) = Inr s"
proof (cases "ps_Description s")
  case (Some d)
  then have d: "sd_Type d \<noteq> OtherSDPType" "to_valid (sd_SDP d) = sd_SDP d" "s = description_signal d"
    using assms by (cases s; auto simp: sendable_def description_signal_def to_valid_valid split: option.splits bool.splits)+
  then show ?thesis
    by (cases d; cases "sd_Type d") (simp_all add: forwardPeerSignal_def decodePeerSignal_def unmarshal_written description_signal_def)
next
  case None
  show ?thesis
  proof (cases "ps_Candidate s")
    case (Some c)
    then have "line_index_ok c" "valid_ice c = c" "s = \<lparr>ps_Description = None, ps_Candidate = Some c, ps_ICEComplete = False\<rparr>"
      using assms None by (cases s; cases c; auto simp: sendable_def valid_ice_def to_valid_valid split: option.splits bool.splits)+
    then show ?thesis by (simp add: forwardPeerSignal_def decodePeerSignal_def unmarshal_written)
  next
    case none: None
    then have "s = \<lparr>ps_Description = None, ps_Candidate = None, ps_ICEComplete = True\<rparr>"
      using assms None by (cases s) (auto simp: sendable_def split: bool.splits)
    then show ?thesis by (simp add: forwardPeerSignal_def decodePeerSignal_def)
  qed
qed

theorem negotiation_roundtrip_witness:
  "\<exists>t payload. forwardPeerSignal (description_signal \<lparr>sd_Type = SDPTypeOffer, sd_SDP = [CHR ''v'', CHR 0x0D, CHR 0x0A]\<rparr>) = Inr (t, payload) \<and>
    decodePeerSignal t (case payload of None \<Rightarrow> [] | Some raw \<Rightarrow> raw) =
      Inr (description_signal \<lparr>sd_Type = SDPTypeOffer, sd_SDP = [CHR ''v'', CHR 0x0D, CHR 0x0A]\<rparr>)"
proof (rule negotiation_roundtrip)
  have "valid_utf8 [CHR ''v'', CHR 0x0D, CHR 0x0A]" by code_simp
  then show "sendable (description_signal \<lparr>sd_Type = SDPTypeOffer, sd_SDP = [CHR ''v'', CHR 0x0D, CHR 0x0A]\<rparr>)"
    by (simp add: sendable_def description_signal_def)
qed

subsection \<open>Sessions start with a verified other end\<close>

lemma verify_observed:
  assumes "verifyAndObserve cr url rd m ts = (ts', Inr (key, r, reused))"
  shows "\<exists>proof fp rs. Verify cr m (tr_verified rd) = Inr (proof, key, fp) \<and>
    snd (replay_accept fp (pf_Nonce proof) (pf_ExpiresAt proof) (tr_accepted rd) (ts_guard ts)) \<and>
    fst (Observe cr (tr_save_fails rd) url (sm_from m) key rs (ts_file ts)) = Inr (r, reused, None)"
  using assms
  by (auto simp: verifyAndObserve_def Let_def split_beta split: sum.splits prod.splits if_splits option.splits)

lemma finish_call_phase [simp]: "cs_phase (finish_call e s) = Finished e" "cs_sent (finish_call e s) = cs_sent s"
  by (simp_all add: finish_call_def)

definition accepts :: "string \<Rightarrow> bool" where
  "accepts text \<longleftrightarrow> to_lower (trim_space text) = ''y'' \<or> to_lower (trim_space text) = ''yes''"

definition answer_run :: "crypto \<Rightarrow> app_config \<Rightarrow> signal_message \<Rightarrow> (setup_readings \<times> call_input) list \<Rightarrow> call_setup \<Rightarrow> call_setup" where
  "answer_run cr c invitation steps s = fold (\<lambda>(rd, input). answer_step cr c invitation rd input) steps s"

lemma answer_step_session:
  assumes "cs_phase (answer_step cr c invitation rd input s) = InSession r k" "cs_phase s \<noteq> InSession r k"
  shows "cs_phase s = Deciding \<and> (r = RoleCallee \<and> k = sm_call_id invitation) \<and> (\<exists>text. input = Typed text \<and> accepts text) \<and>
    (\<exists>payload. (SignalCallAccept, sm_from invitation, k, payload) \<in> set (cs_sent (answer_step cr c invitation rd input s)))"
  using assms
  by (auto simp: answer_step_def Let_def sendSignal_def accepts_def send_decline_def split: call_input.splits if_splits option.splits)

lemma answer_stays: "cs_phase s \<noteq> Deciding \<Longrightarrow> answer_run cr c invitation steps s = s"
  by (induction steps) (auto simp: answer_run_def answer_step_def)

lemma answer_run_session:
  assumes "cs_phase (answer_run cr c invitation steps s) = InSession r k" "cs_phase s = Deciding"
  shows "r = RoleCallee \<and> k = sm_call_id invitation \<and> (\<exists>rd text. (rd, Typed text) \<in> set steps \<and> accepts text) \<and>
    (\<exists>payload. (SignalCallAccept, sm_from invitation, k, payload) \<in> set (cs_sent (answer_run cr c invitation steps s)))"
  using assms
proof (induction steps arbitrary: s)
  case (Cons x steps)
  obtain rd input where x: "x = (rd, input)" by (cases x)
  let ?s = "answer_step cr c invitation rd input s"
  have run: "answer_run cr c invitation (x # steps) s = answer_run cr c invitation steps ?s" by (simp add: answer_run_def x)
  show ?case
  proof (cases "cs_phase ?s = Deciding")
    case True
    with Cons.IH[of ?s] Cons.prems show ?thesis unfolding run by auto
  next
    case False
    then have same: "answer_run cr c invitation steps ?s = ?s" by (rule answer_stays)
    with Cons.prems have "cs_phase ?s = InSession r k" unfolding run by simp
    from answer_step_session[OF this] Cons.prems(2) same show ?thesis unfolding run by (auto simp: x)
  qed
qed (simp add: answer_run_def)


definition chat_run :: "crypto \<Rightarrow> app_config \<Rightarrow> string \<Rightarrow> (setup_readings \<times> call_input) list \<Rightarrow> call_setup \<Rightarrow> call_setup" where
  "chat_run cr c target steps s = fold (\<lambda>(rd, input). chat_step cr c target rd input) steps s"

text \<open>
  While a caller waits, an acceptance of its call starts the session exactly when its identity
  proof passes the checks: its sender need not be the target that was called, and a block on the
  identity is not looked at.
\<close>

theorem acceptance_from_anyone:
  assumes "cs_phase s = Waiting callID" "sm_type m = SignalCallAccept" "sm_call_id m = callID"
  shows "cs_phase (chat_step cr c target rd (Received m) s) = InSession RoleCaller callID \<longleftrightarrow>
    (\<exists>ts key r reused. verifyAndObserve cr (ac_ServerURL c) (sr_trust rd) m (cs_trust s) = (ts, Inr (key, r, reused)))"
  using assms
  by (auto simp: chat_step_def wait_step_def Let_def split: prod.split sum.split)

definition demo_trust :: trust_state where
  "demo_trust = \<lparr>ts_guard = replay_new, ts_records = Some fmempty, ts_file = None\<rparr>"

definition demo_app :: app_config where
  "demo_app = \<lparr>ac_Address = demo_bob, ac_ServerURL = ''wss://example'', ac_Identity = None\<rparr>"

definition demo_setup :: setup_readings where
  "demo_setup = \<lparr>sr_uuid = demo_uuid, sr_nonce = demo_uuid, sr_signed = demo_now, sr_sends = True,
     sr_trust = \<lparr>tr_verified = demo_now, tr_accepted = demo_now, tr_save_fails = False\<rparr>\<rparr>"

lemma observed_when_verified:
  assumes "Verify demo_crypto m demo_now = Inr (proof, key, fp)"
  shows "\<exists>ts r reused. verifyAndObserve demo_crypto url (sr_trust demo_setup) m demo_trust = (ts, Inr (key, r, reused)) \<and> \<not> tr_Blocked r"
proof -
  obtain guard where "replay_accept fp (pf_Nonce proof) (pf_ExpiresAt proof) demo_now replay_new = (guard, True)"
    by (simp add: replay_accept_def replay_new_def replay_prune_def replay_capacity_def Let_def fcard_fempty)
  then show ?thesis
    using assms
    by (simp add: verifyAndObserve_def demo_setup_def demo_trust_def Observe_def record_of_def no_record_def saveLocked_def
        observed_record_def Let_def)
qed


definition demo_acceptance :: signal_message where
  "demo_acceptance = demo_invite\<lparr>sm_type := SignalCallAccept, sm_payload := marshal_proof
     (the (Sign demo_crypto demo_uuid demo_identity SignalCallAccept demo_uuid demo_caller demo_bob demo_now))\<rparr>"

lemma demo_acceptance_verified:
  "\<exists>proof key fp. Verify demo_crypto demo_acceptance demo_now = Inr (proof, key, fp)"
proof -
  let ?p = "the (Sign demo_crypto demo_uuid demo_identity SignalCallAccept demo_uuid demo_caller demo_bob demo_now)"
  have "Sign demo_crypto demo_uuid demo_identity SignalCallAccept demo_uuid demo_caller demo_bob demo_now = Some ?p"
    using demo_valid_identity by (simp add: Sign_def)
  then have signed: "Sign demo_crypto demo_uuid (Generate demo_crypto demo_seed) (sm_type demo_acceptance) (sm_call_id demo_acceptance)
      (sm_from demo_acceptance) (sm_to demo_acceptance) demo_now = Some ?p" "sm_payload demo_acceptance = marshal_proof ?p"
    "AddressMatchesKey demo_crypto (sm_from demo_acceptance) (ed25519_public demo_crypto demo_seed)"
    using demo_sign_premises(5) by (simp_all add: demo_acceptance_def demo_invite_fields demo_identity_def)
  have "demo_now - minute \<le> demo_now" "demo_now \<le> demo_now + 2 * minute" by (simp_all add: duration_defs)
  from sign_verify[OF demo_crypto_laws demo_sign_premises(1,2) signed this demo_sign_premises(6,7)] show ?thesis by blast
qed

text \<open>Carol's acceptance of a call to Alice.\<close>

theorem acceptance_from_anyone_witness:
  "cs_phase (chat_step demo_crypto demo_app demo_alice demo_setup (Received demo_acceptance)
     \<lparr>cs_phase = Waiting demo_uuid, cs_trust = demo_trust, cs_sent = []\<rparr>) = InSession RoleCaller demo_uuid \<and>
   sm_from demo_acceptance \<noteq> demo_alice"
proof -
  have fields: "sm_type demo_acceptance = SignalCallAccept" "sm_call_id demo_acceptance = demo_uuid" "sm_from demo_acceptance = demo_caller"
    by (simp_all add: demo_acceptance_def demo_invite_fields)
  obtain ts key r reused where "verifyAndObserve demo_crypto (ac_ServerURL demo_app) (sr_trust demo_setup) demo_acceptance demo_trust =
      (ts, Inr (key, r, reused))"
    using demo_acceptance_verified observed_when_verified by blast
  moreover have "hd demo_caller \<noteq> hd demo_alice" by code_simp
  ultimately show ?thesis
    using acceptance_from_anyone[OF _ fields(1,2), of "\<lparr>cs_phase = Waiting demo_uuid, cs_trust = demo_trust, cs_sent = []\<rparr>"
        demo_crypto demo_app demo_alice demo_setup] fields(3) by auto
qed

end
