(* ===== verification/Terminal.thy ===== *)
theory Terminal
  imports Json_Text
begin

text \<open>
  The user interface of a call, \<open>internal/client/terminal/terminal.go\<close>: what is done to the text
  of a peer before it is shown, the alignment of the user's own lines, and the incremental video
  display.  Line editing, raw mode and the terminal's size are the library's and the operating
  system's; the size is an argument here.
\<close>

subsection \<open>Text of a peer\<close>

text \<open>\<open>unicode.IsControl\<close>, and the code points of \<open>unicode.Cf\<close>.\<close>

definition is_control :: "nat \<Rightarrow> bool" where
  "is_control r \<longleftrightarrow> r < 0x20 \<or> 0x7F \<le> r \<and> r < 0xA0"

definition format_ranges :: "(nat \<times> nat) list" where
  "format_ranges = [(0xAD, 0xAD), (0x600, 0x605), (0x61C, 0x61C), (0x6DD, 0x6DD), (0x70F, 0x70F), (0x890, 0x891),
     (0x8E2, 0x8E2), (0x180E, 0x180E), (0x200B, 0x200F), (0x202A, 0x202E), (0x2060, 0x2064), (0x2066, 0x206F),
     (0xFEFF, 0xFEFF), (0xFFF9, 0xFFFB), (0x110BD, 0x110BD), (0x110CD, 0x110CD), (0x13430, 0x1343F),
     (0x1BCA0, 0x1BCA3), (0x1D173, 0x1D17A), (0xE0001, 0xE0001), (0xE0020, 0xE007F)]"

definition is_format :: "nat \<Rightarrow> bool" where
  "is_format r \<longleftrightarrow> list_ex (\<lambda>(lo, hi). lo \<le> r \<and> r \<le> hi) format_ranges"

definition upper_hex :: "nat \<Rightarrow> char" where
  "upper_hex n = ''0123456789ABCDEF'' ! (n mod 16)"

fun hex_text :: "nat \<Rightarrow> string" where
  "hex_text n = (if n < 16 then [upper_hex n] else hex_text (n div 16) @ [upper_hex n])"

declare hex_text.simps [simp del]

definition hex_padded :: "nat \<Rightarrow> nat \<Rightarrow> string" where
  "hex_padded w n = replicate (w - length (hex_text n)) CHR ''0'' @ hex_text n"

definition sanitized :: "char \<Rightarrow> nat \<Rightarrow> nat \<Rightarrow> string" where
  "sanitized firstByte r w = (
     if r = rune_error \<and> w = 1 then [CHR 0x5C, CHR ''x''] @ hex_padded 2 (of_char firstByte)
     else if r = 0x09 then [CHR 0x09]
     else if r = 0x0A then [CHR 0x5C, CHR ''n'']
     else if r = 0x0D then [CHR 0x5C, CHR ''r'']
     else if is_control r \<or> is_format r then [CHR 0x5C, CHR ''u'', CHR ''{''] @ hex_padded 4 r @ [CHR ''}'']
     else encode_rune r)"

function Sanitize :: "string \<Rightarrow> string" where
  "Sanitize s = (if s = [] then []
     else let (r, w) = decode_rune s in sanitized (hd s) r w @ Sanitize (drop (max 1 w) s))"
  by pat_completeness auto
termination by (relation "measure length") (auto simp: max_def)

declare Sanitize.simps [simp del]

text \<open>Text that a terminal only displays: valid UTF-8, no control or format characters but tabs.\<close>

definition shown_rune :: "nat \<Rightarrow> bool" where
  "shown_rune r \<longleftrightarrow> r = 0x09 \<or> \<not> is_control r \<and> \<not> is_format r"

function harmless :: "string \<Rightarrow> bool" where
  "harmless s = (if s = [] then True
     else let (r, w) = decode_rune s in \<not> (r = rune_error \<and> w = 1) \<and> shown_rune r \<and> harmless (drop (max 1 w) s))"
  by pat_completeness auto
termination by (relation "measure length") (auto simp: max_def)

declare harmless.simps [simp del]

text \<open>Plain ASCII text, and what a rune is replaced by.\<close>

definition visible :: "char \<Rightarrow> bool" where
  "visible c \<longleftrightarrow> 0x20 \<le> code c \<and> code c < 0x7F"

lemma visible_rune: "visible c \<Longrightarrow> decode_rune (c # t) = (code c, 1) \<and> shown_rune (code c) \<and> code c \<noteq> rune_error"
  by (auto simp: visible_def decode_rune_def shown_rune_def is_control_def is_format_def format_ranges_def rune_error_def Let_def)

lemma harmless_visible: "list_all visible p \<Longrightarrow> harmless (p @ t) = harmless t"
proof (induction p)
  case (Cons c p)
  then have "visible c" by simp
  from visible_rune[OF this] show ?case
    using Cons by (subst harmless.simps) simp
qed simp

lemma harmless_tab: "harmless (CHR 0x09 # t) = harmless t"
  by (subst harmless.simps) (simp add: decode_rune_def shown_rune_def rune_error_def Let_def)

lemma visible_upper_hex: "visible (upper_hex n)"
proof -
  have "list_all visible ''0123456789ABCDEF''" by code_simp
  moreover have "n mod 16 < length ''0123456789ABCDEF''" by simp
  ultimately show ?thesis unfolding upper_hex_def list_all_length by blast
qed

lemma visible_hex_text: "list_all visible (hex_text n)"
  by (induction n rule: hex_text.induct) (subst hex_text.simps, simp add: visible_upper_hex)

lemma visible_hex_padded: "list_all visible (hex_padded w n)"
  using visible_hex_text[of n] by (auto simp: hex_padded_def list_all_iff) (simp add: visible_def)

lemma harmless_rune:
  assumes "decode_rune s = (r, w)" "\<not> (r = rune_error \<and> w = 1)" "s \<noteq> []" "shown_rune r"
  shows "harmless (encode_rune r @ t) = harmless t"
proof -
  note loc = decode_rune_local[OF assms(1-3)]
  have "encode_rune r \<noteq> []" using decode_rune_exact[OF assms(1-3)] loc(2,3) by auto
  then show ?thesis
    using loc(1)[of t] loc(2,3) assms(2,4) unfolding decode_rune_exact[OF assms(1-3), symmetric]
    by (subst harmless.simps) (simp add: max_def)
qed

lemma harmless_sanitized:
  assumes "decode_rune s = (r, w)" "s \<noteq> []"
  shows "harmless (sanitized (hd s) r w @ t) = harmless t"
proof -
  have esc: "harmless (p @ q @ u @ t) = harmless t" if "list_all visible p" "list_all visible q" "list_all visible u" for p q u
    using that by (simp add: harmless_visible)
  have vis: "visible CHR 0x5C" "visible CHR ''x''" "visible CHR ''n''" "visible CHR ''r''" "visible CHR ''u''"
    "visible CHR ''{''" "visible CHR ''}''" by (simp_all add: visible_def)
  have parts: "harmless ([CHR 0x5C, CHR ''x''] @ hex_padded 2 (of_char (hd s)) @ t) = harmless t"
    "harmless ([CHR 0x5C, CHR ''u'', CHR ''{''] @ hex_padded 4 r @ [CHR ''}''] @ t) = harmless t"
    "harmless ([CHR 0x5C, CHR ''n''] @ t) = harmless t" "harmless ([CHR 0x5C, CHR ''r''] @ t) = harmless t"
    using esc[of "[CHR 0x5C, CHR ''x'']" "hex_padded 2 (of_char (hd s))" "[]"]
      esc[of "[CHR 0x5C, CHR ''u'', CHR ''{'']" "hex_padded 4 r" "[CHR ''}'']"]
      esc[of "[CHR 0x5C, CHR ''n'']" "[]" "[]"] esc[of "[CHR 0x5C, CHR ''r'']" "[]" "[]"] vis visible_hex_padded
    by simp_all
  have "harmless (encode_rune r @ t) = harmless t" if "\<not> (r = rune_error \<and> w = 1)" "\<not> is_control r" "\<not> is_format r"
    using harmless_rune[OF assms(1) that(1) assms(2)] that by (simp add: shown_rune_def)
  with parts show ?thesis by (auto simp: sanitized_def harmless_tab)
qed

lemma harmless_Sanitize: "harmless (Sanitize s)"
proof (induction s rule: Sanitize.induct)
  case (1 s)
  show ?case
  proof (cases "s = []")
    case True
    then show ?thesis by (simp add: Sanitize.simps harmless.simps)
  next
    case False
    obtain r w where rw: "decode_rune s = (r, w)" by (cases "decode_rune s")
    with False 1 harmless_sanitized[OF rw False] show ?thesis by (subst Sanitize.simps) simp
  qed
qed

lemma sanitized_shown:
  assumes "shown_rune r" "\<not> (r = rune_error \<and> w = 1)"
  shows "sanitized c r w = encode_rune r"
proof (cases "r = 0x09")
  case True
  moreover have "char_of (9::nat) = CHR 0x09" by code_simp
  ultimately show ?thesis by (simp add: sanitized_def rune_error_def encode_rune_def)
next
  case False
  then have "\<not> is_control r" "\<not> is_format r" using assms by (simp_all add: shown_rune_def)
  moreover from this have "r \<noteq> 0x0A" "r \<noteq> 0x0D" by (auto simp: is_control_def)
  moreover have "(r = rune_error \<and> w = 1) = False" using assms(2) by blast
  ultimately show ?thesis unfolding sanitized_def using False by (simp only: if_False simp_thms)
qed

lemma Sanitize_harmless: "harmless s \<Longrightarrow> Sanitize s = s"
proof (induction s rule: Sanitize.induct)
  case (1 s)
  show ?case
  proof (cases "s = []")
    case False
    obtain r w where rw: "decode_rune s = (r, w)" by (cases "decode_rune s")
    from 1(2) False rw have "\<not> (r = rune_error \<and> w = 1) \<and> shown_rune r \<and> harmless (drop (max 1 w) s)"
      using harmless.simps[of s] by auto
    then have ok: "\<not> (r = rune_error \<and> w = 1)" "shown_rune r" "harmless (drop (max 1 w) s)" by blast+
    have w: "max 1 w = w" using decode_rune_local(3)[OF rw ok(1) False] by simp
    show ?thesis
      using False rw 1(1)[OF False rw[symmetric] refl] ok decode_rune_exact[OF rw ok(1) False] sanitized_shown[OF ok(2,1)] w
      by (subst Sanitize.simps) simp
  qed (simp add: Sanitize.simps)
qed

text \<open>
  C39: Whatever bytes a peer sends, what is shown is valid UTF-8 without control or format
  characters other than tabs; and text of that kind, and only such text, is shown as it is.
\<close>

theorem sanitize_safe: "harmless (Sanitize s) \<and> (Sanitize s = s \<longleftrightarrow> harmless s)"
  using harmless_Sanitize[of s] Sanitize_harmless[of s] by metis

subsection \<open>Lines and sizes\<close>

text \<open>\<open>utf8.RuneCountInString\<close>.\<close>

function rune_count :: "string \<Rightarrow> nat" where
  "rune_count s = (if s = [] then 0 else Suc (rune_count (drop (max 1 (snd (decode_rune s))) s)))"
  by pat_completeness auto
termination by (relation "measure length") (auto simp: max_def)

declare rune_count.simps [simp del]

definition RightAlign :: "string \<Rightarrow> int \<Rightarrow> string" where
  "RightAlign value width = (
     let visibleWidth = int (rune_count value) in
     if width \<le> visibleWidth then value else replicate (nat (width - visibleWidth)) CHR '' '' @ value)"

text \<open>\<open>Local\<close> and \<open>Remote\<close>: the lines shown; the width is \<open>None\<close> outside an interactive terminal.\<close>

definition ui_local :: "int option \<Rightarrow> string \<Rightarrow> string" where
  "ui_local width text = (
     let message = Sanitize text @ '' <you'' in
     (case width of None \<Rightarrow> message | Some w \<Rightarrow> RightAlign message w) @ [CHR 0x0A])"

definition ui_remote :: "string \<Rightarrow> string \<Rightarrow> string" where
  "ui_remote username text = Sanitize username @ ''> '' @ Sanitize text @ [CHR 0x0A]"

definition VideoSize :: "(int \<times> int) option \<Rightarrow> int \<Rightarrow> int \<Rightarrow> int \<times> int" where
  "VideoSize terminal maxColumns maxRows = (case terminal of
       None \<Rightarrow> (maxColumns, maxRows)
     | Some (width, height) \<Rightarrow>
         let maxColumns = (if width < maxColumns then width else maxColumns);
             availableRows = height - 4;
             maxRows = (if availableRows < maxRows then availableRows else maxRows)
         in (if maxColumns < 1 then 1 else maxColumns, if maxRows < 1 then 1 else maxRows))"

subsection \<open>Video\<close>

abbreviation ESC :: char where "ESC \<equiv> CHR 0x1B"

definition cursor_to :: "nat \<Rightarrow> nat \<Rightarrow> string" where
  "cursor_to r c = [ESC, CHR ''[''] @ decimal r @ [CHR '';''] @ decimal c @ [CHR ''H'']"

definition save_cursor :: string where "save_cursor = [ESC, CHR ''['', CHR ''s'']"
definition restore_cursor :: string where "restore_cursor = [ESC, CHR ''['', CHR ''u'']"

text \<open>The inner loop: the column after the changed cells that start at \<open>column\<close>.\<close>

function run_end :: "(nat \<Rightarrow> bool) \<Rightarrow> nat \<Rightarrow> nat \<Rightarrow> nat" where
  "run_end same columns column = (if column < columns \<and> \<not> same column then run_end same columns (column + 1) else column)"
  by pat_completeness auto
termination by (relation "measure (\<lambda>(same, columns, column). columns - column)") auto

declare run_end.simps [simp del]

lemma run_end_ge: "column \<le> run_end same columns column"
  by (induction same columns column rule: run_end.induct) (subst run_end.simps, simp add: Suc_leD)

lemma run_end_gt: "column < columns \<Longrightarrow> \<not> same column \<Longrightarrow> column < run_end same columns column"
  using run_end_ge[of "column + 1" same columns] by (subst run_end.simps) simp

lemma run_end_le: "column \<le> columns \<Longrightarrow> run_end same columns column \<le> columns"
  by (induction same columns column rule: run_end.induct) (subst run_end.simps, simp)

lemma run_end_changed: "column \<le> k \<Longrightarrow> k < run_end same columns column \<Longrightarrow> \<not> same k"
proof (induction same columns column rule: run_end.induct)
  case (1 same columns column)
  show ?case
  proof (cases "column < columns \<and> \<not> same column")
    case True
    then have "run_end same columns column = run_end same columns (column + 1)" by (subst run_end.simps) simp
    with 1(1)[OF True] 1(2,3) True show ?thesis by (cases "k = column") auto
  next
    case False
    then have "run_end same columns column = column" by (subst run_end.simps) auto
    with 1(2,3) show ?thesis by simp
  qed
qed

text \<open>The loop over the columns of a row, from \<open>column\<close> on.\<close>

function row_update :: "(nat \<Rightarrow> bool) \<Rightarrow> string \<Rightarrow> nat \<Rightarrow> nat \<Rightarrow> nat \<Rightarrow> string" where
  "row_update same cells columns row column = (
     if columns \<le> column then []
     else if same (row * columns + column) then row_update same cells columns row (column + 1)
     else let start = column; column = run_end (\<lambda>c. same (row * columns + c)) columns start in
       cursor_to (row + 1) (start + 1) @ take (column - start) (drop (row * columns + start) cells) @
       row_update same cells columns row column)"
  by pat_completeness auto
termination
proof (relation "measure (\<lambda>(same, cells, columns, row, column). columns - column)", goal_cases)
  case (3 same cells columns row column start stop)
  then show ?case
    using run_end_gt[of column columns "\<lambda>c. same (row * columns + c)"] by auto
qed auto

declare row_update.simps [simp del]

definition row_full :: "string \<Rightarrow> nat \<Rightarrow> nat \<Rightarrow> string" where
  "row_full cells columns row = cursor_to (row + 1) 1 @ take columns (drop (row * columns) cells)"

definition renderVideoUpdate :: "string \<Rightarrow> nat \<Rightarrow> nat \<Rightarrow> nat \<Rightarrow> nat \<Rightarrow> string \<Rightarrow> string" where
  "renderVideoUpdate previous previousColumns previousRows columns rows cells = (
     let full = (previousColumns \<noteq> columns \<or> previousRows \<noteq> rows \<or> length previous \<noteq> length cells);
         same = (\<lambda>i. \<not> full \<and> previous ! i = cells ! i);
         output = save_cursor @ concat (map (\<lambda>row. row_update same cells columns row 0) [0..<rows]) @ restore_cursor
     in if full \<or> length output \<le> length cells + rows * 12 then output
        else save_cursor @ concat (map (row_full cells columns) [0..<rows]) @ restore_cursor)"

record video =
  videoCells :: string
  videoWidth :: nat
  videoHeight :: nat

text \<open>\<open>RenderVideo\<close>: the new state and what is written to the terminal.\<close>

definition RenderVideo :: "bool \<Rightarrow> int \<Rightarrow> int \<Rightarrow> string \<Rightarrow> video \<Rightarrow> video \<times> string" where
  "RenderVideo interactive columns rows cells u = (
     if \<not> interactive \<or> columns < 1 \<or> rows < 1 \<or> int (length cells) \<noteq> columns * rows then (u, [])
     else if list_ex (\<lambda>cell. code cell < 0x20 \<or> code cell > 0x7E) cells then (u, [])
     else (\<lparr>videoCells = cells, videoWidth = nat columns, videoHeight = nat rows\<rparr>,
           renderVideoUpdate (videoCells u) (videoWidth u) (videoHeight u) (nat columns) (nat rows) cells))"

subsection \<open>A terminal\<close>

text \<open>
  What a terminal of \<open>W\<close> columns and \<open>H\<close> rows makes of the output: a cursor, a saved cursor, and
  the character shown at each row and column, counted from 1.  Past the last column a character
  goes to the next row.
\<close>

record screen =
  sc_row :: nat
  sc_col :: nat
  sc_saved :: "nat \<times> nat"
  sc_cell :: "nat \<Rightarrow> nat \<Rightarrow> char"

datatype sequence = CursorSave | CursorRestore | CursorMove nat nat

definition csi :: "string \<Rightarrow> (sequence \<times> string) option" where
  "csi s = (case s of [] \<Rightarrow> None | b # s \<Rightarrow> if b \<noteq> CHR ''['' then None else
     (case dropWhile is_digit s of [] \<Rightarrow> None | k # rest \<Rightarrow>
        if k = CHR ''s'' then Some (CursorSave, rest)
        else if k = CHR ''u'' then Some (CursorRestore, rest)
        else if k \<noteq> CHR '';'' then None
        else (case dropWhile is_digit rest of [] \<Rightarrow> None | h # fin \<Rightarrow>
          if h \<noteq> CHR ''H'' then None
          else Some (CursorMove (digits_val (takeWhile is_digit s)) (digits_val (takeWhile is_digit rest)), fin))))"

fun act :: "nat \<Rightarrow> nat \<Rightarrow> sequence \<Rightarrow> screen \<Rightarrow> screen" where
  "act W H CursorSave t = t\<lparr>sc_saved := (sc_row t, sc_col t)\<rparr>"
| "act W H CursorRestore t = t\<lparr>sc_row := fst (sc_saved t), sc_col := snd (sc_saved t)\<rparr>"
| "act W H (CursorMove r c) t = t\<lparr>sc_row := min r H, sc_col := min c W\<rparr>"

definition put :: "nat \<Rightarrow> nat \<Rightarrow> char \<Rightarrow> screen \<Rightarrow> screen" where
  "put W H ch t = (
     let t = (if W < sc_col t then t\<lparr>sc_row := min (sc_row t + 1) H, sc_col := 1\<rparr> else t) in
     t\<lparr>sc_cell := (sc_cell t)(sc_row t := (sc_cell t (sc_row t))(sc_col t := ch)), sc_col := sc_col t + 1\<rparr>)"

lemma csi_shorter: "csi s = Some (q, rest) \<Longrightarrow> length rest < length s"
proof -
  have "length (dropWhile P xs) \<le> length xs" for P :: "char \<Rightarrow> bool" and xs by (rule length_dropWhile_le)
  note le = this[of is_digit]
  assume "csi s = Some (q, rest)"
  then obtain s' k r where s: "s = CHR ''['' # s'" "dropWhile is_digit s' = k # r" "length rest \<le> length r"
    unfolding csi_def using le by (auto split: list.splits if_splits intro: Suc_leD) (metis Suc_leD length_Cons le)+
  with le[of s'] show ?thesis by simp
qed

function display :: "nat \<Rightarrow> nat \<Rightarrow> string \<Rightarrow> screen \<Rightarrow> screen" where
  "display W H s t = (case s of [] \<Rightarrow> t
     | c # r \<Rightarrow> if c = ESC then (case csi r of Some (q, rest) \<Rightarrow> display W H rest (act W H q t) | None \<Rightarrow> display W H r t)
         else if visible c then display W H r (put W H c t) else display W H r t)"
  by pat_completeness auto
termination by (relation "measure (\<lambda>(W, H, s, t). length s)") (auto dest: csi_shorter)

declare display.simps [simp del]

text \<open>What the sequences of the video output do.\<close>

lemma display_nil [simp]: "display W H [] t = t"
  by (simp add: display.simps)

lemma display_save: "display W H (save_cursor @ s) t = display W H s (act W H CursorSave t)"
  by (subst display.simps) (simp add: save_cursor_def csi_def is_digit_def)

lemma display_restore: "display W H (restore_cursor @ s) t = display W H s (act W H CursorRestore t)"
  by (subst display.simps) (simp add: restore_cursor_def csi_def is_digit_def)

lemma digits_split:
  assumes "list_all is_digit d" "\<not> is_digit c"
  shows "takeWhile is_digit (d @ c # s) = d" "dropWhile is_digit (d @ c # s) = c # s"
  using assms by (induction d) auto

lemma display_cursor: "display W H (cursor_to r c @ s) t = display W H s (act W H (CursorMove r c) t)"
proof -
  have semi: "\<not> is_digit CHR '';''" "\<not> is_digit CHR ''H''" by (simp_all add: is_digit_def)
  have "csi ([CHR ''[''] @ decimal r @ [CHR '';''] @ decimal c @ [CHR ''H''] @ s) = Some (CursorMove r c, s)"
    using digits_split[OF plain_decimal[of r] semi(1), of "decimal c @ CHR ''H'' # s"]
      digits_split[OF plain_decimal[of c] semi(2), of s]
    by (simp add: csi_def digits_val_decimal)
  then show ?thesis by (subst display.simps) (simp add: cursor_to_def)
qed

lemma display_text: "list_all visible p \<Longrightarrow> display W H (p @ s) t = display W H s (fold (put W H) p t)"
proof (induction p arbitrary: t)
  case (Cons c p)
  then have "c \<noteq> ESC" by (auto simp: visible_def)
  then show ?case using Cons by (subst display.simps) simp
qed simp

lemma put_text:
  assumes "sc_col t + length p \<le> W + 1"
  shows "fold (put W H) p t = t\<lparr>sc_col := sc_col t + length p,
    sc_cell := (\<lambda>y x. if y = sc_row t \<and> sc_col t \<le> x \<and> x < sc_col t + length p then p ! (x - sc_col t) else sc_cell t y x)\<rparr>"
  using assms
proof (induction p arbitrary: t)
  case Nil
  then show ?case by (cases t) (auto simp: fun_eq_iff)
next
  case (Cons c p)
  have "put W H c t = t\<lparr>sc_cell := (sc_cell t)(sc_row t := (sc_cell t (sc_row t))(sc_col t := c)), sc_col := sc_col t + 1\<rparr>"
    using Cons.prems by (simp add: put_def)
  note put_c = this
  have "(\<lambda>y x. if y = sc_row t \<and> Suc (sc_col t) \<le> x \<and> x < Suc (sc_col t + length p) then p ! (x - Suc (sc_col t))
       else ((sc_cell t)(sc_row t := (sc_cell t (sc_row t))(sc_col t := c))) y x) =
     (\<lambda>y x. if y = sc_row t \<and> sc_col t \<le> x \<and> x < Suc (sc_col t + length p) then (c # p) ! (x - sc_col t) else sc_cell t y x)"
    by (intro ext) (auto simp: nth_Cons' Suc_le_eq)
  moreover have fields: "sc_col (put W H c t) = Suc (sc_col t)" "sc_row (put W H c t) = sc_row t"
    "sc_cell (put W H c t) = (sc_cell t)(sc_row t := (sc_cell t (sc_row t))(sc_col t := c))" by (simp_all add: put_c)
  moreover have "(put W H c t)\<lparr>sc_col := a, sc_cell := b\<rparr> = t\<lparr>sc_col := a, sc_cell := b\<rparr>" for a b by (simp add: put_c)
  ultimately show ?case using Cons.IH[of "put W H c t", unfolded fields] Cons.prems by simp
qed

text \<open>An output that paints the cells of a region and leaves the saved cursor alone.\<close>

definition paints :: "nat \<Rightarrow> nat \<Rightarrow> string \<Rightarrow> nat \<Rightarrow> string \<Rightarrow> (nat \<Rightarrow> nat \<Rightarrow> bool) \<Rightarrow> bool" where
  "paints W H cells columns p R \<longleftrightarrow> (\<forall>s t. \<exists>t'. display W H (p @ s) t = display W H s t' \<and> sc_saved t' = sc_saved t \<and>
     (\<forall>y x. sc_cell t' y x = (if R y x then cells ! ((y - 1) * columns + (x - 1)) else sc_cell t y x)))"

lemma paints_nil: "paints W H cells columns [] (\<lambda>y x. False)"
  by (auto simp: paints_def)

lemma paints_append:
  assumes "paints W H cells columns p R" "paints W H cells columns q S"
  shows "paints W H cells columns (p @ q) (\<lambda>y x. R y x \<or> S y x)"
  unfolding paints_def
proof (intro allI)
  fix s t
  obtain u where u: "display W H (p @ q @ s) t = display W H (q @ s) u" "sc_saved u = sc_saved t"
    "\<forall>y x. sc_cell u y x = (if R y x then cells ! ((y - 1) * columns + (x - 1)) else sc_cell t y x)"
    using assms(1) unfolding paints_def by blast
  obtain v where v: "display W H (q @ s) u = display W H s v" "sc_saved v = sc_saved u"
    "\<forall>y x. sc_cell v y x = (if S y x then cells ! ((y - 1) * columns + (x - 1)) else sc_cell u y x)"
    using assms(2) unfolding paints_def by blast
  show "\<exists>t'. display W H ((p @ q) @ s) t = display W H s t' \<and> sc_saved t' = sc_saved t \<and>
      (\<forall>y x. sc_cell t' y x = (if R y x \<or> S y x then cells ! ((y - 1) * columns + (x - 1)) else sc_cell t y x))"
    by (rule exI[of _ v]) (simp add: u v)
qed

lemma paints_concat:
  assumes "\<And>k. k \<in> set ks \<Longrightarrow> paints W H cells columns (f k) (R k)"
  shows "paints W H cells columns (concat (map f ks)) (\<lambda>y x. \<exists>k \<in> set ks. R k y x)"
  using assms
proof (induction ks)
  case Nil
  then show ?case by (simp add: paints_nil)
next
  case (Cons k ks)
  then have "paints W H cells columns (f k @ concat (map f ks)) (\<lambda>y x. R k y x \<or> (\<exists>k \<in> set ks. R k y x))"
    by (intro paints_append) simp_all
  then show ?case by simp
qed

lemma paints_region: "paints W H cells columns p R \<Longrightarrow> (\<And>y x. S y x \<longleftrightarrow> R y x) \<Longrightarrow> paints W H cells columns p S"
  by (simp add: paints_def)

text \<open>A run of cells written at its place.\<close>

lemma paints_run:
  assumes "start \<le> stop" "stop \<le> columns" "columns \<le> W" "row < H" "(row + 1) * columns \<le> length cells" "list_all visible cells"
    "start < columns"
  shows "paints W H cells columns (cursor_to (row + 1) (start + 1) @ take (stop - start) (drop (row * columns + start) cells))
    (\<lambda>y x. y = row + 1 \<and> start < x \<and> x \<le> stop)"
  unfolding paints_def
proof (intro allI)
  fix s t
  let ?p = "take (stop - start) (drop (row * columns + start) cells)"
  let ?u = "act W H (CursorMove (row + 1) (start + 1)) t"
  have fits: "row * columns + start + (stop - start) \<le> length cells" using assms(1,2,5) by simp
  then have len: "length ?p = stop - start" by simp
  have vis: "list_all visible ?p"
    using assms(6) set_take_subset set_drop_subset unfolding list_all_iff by (metis in_mono)
  have u: "sc_row ?u = row + 1" "sc_col ?u = start + 1" "sc_saved ?u = sc_saved t" "sc_cell ?u = sc_cell t"
    using assms by simp_all
  have "sc_col ?u + length ?p \<le> W + 1" using assms unfolding u len by simp
  note written = put_text[OF this, of H, unfolded u len]
  have "display W H ((cursor_to (row + 1) (start + 1) @ ?p) @ s) t = display W H s (fold (put W H) ?p ?u)"
    by (simp only: append_assoc display_cursor display_text[OF vis])
  moreover have "sc_cell (fold (put W H) ?p ?u) y x =
      (if y = row + 1 \<and> start < x \<and> x \<le> stop then cells ! ((y - 1) * columns + (x - 1)) else sc_cell t y x)" for y x
    unfolding written using fits by (auto simp: add.commute)
  moreover have saved: "sc_saved (fold (put W H) ?p ?u) = sc_saved t" unfolding written by simp
  ultimately show "\<exists>t'. display W H ((cursor_to (row + 1) (start + 1) @ ?p) @ s) t = display W H s t' \<and> sc_saved t' = sc_saved t \<and>
      (\<forall>y x. sc_cell t' y x = (if y = row + 1 \<and> start < x \<and> x \<le> stop then cells ! ((y - 1) * columns + (x - 1)) else sc_cell t y x))"
    using saved by blast
qed

lemma paints_row_update:
  assumes "columns \<le> W" "row < H" "(row + 1) * columns \<le> length cells" "list_all visible cells" "column \<le> columns"
  shows "paints W H cells columns (row_update same cells columns row column)
    (\<lambda>y x. y = row + 1 \<and> column < x \<and> x \<le> columns \<and> \<not> same (row * columns + (x - 1)))"
  using assms
proof (induction same cells columns row column rule: row_update.induct)
  case (1 same cells columns row column)
  show ?case
  proof (cases "columns \<le> column")
    case True
    then show ?thesis by (subst row_update.simps) (auto intro!: paints_region[OF paints_nil])
  next
    case below: False
    show ?thesis
    proof (cases "same (row * columns + column)")
      case True
      have "paints W H cells columns (row_update same cells columns row (column + 1))
          (\<lambda>y x. y = row + 1 \<and> column + 1 < x \<and> x \<le> columns \<and> \<not> same (row * columns + (x - 1)))"
        using 1(1)[OF below True] 1(3-6) below by simp
      moreover have "column + 1 < x \<longleftrightarrow> column < x" if "\<not> same (row * columns + (x - 1))" for x
        using that True by (cases "x = column + 1") auto
      ultimately show ?thesis using below True by (subst row_update.simps) (auto elim!: paints_region)
    next
      case False
      let ?stop = "run_end (\<lambda>c. same (row * columns + c)) columns column"
      have stop: "column \<le> ?stop" "?stop \<le> columns" "column < ?stop"
        using run_end_ge run_end_le[of column columns] run_end_gt[of column columns] below False by auto
      have run: "paints W H cells columns (cursor_to (row + 1) (column + 1) @ take (?stop - column) (drop (row * columns + column) cells))
          (\<lambda>y x. y = row + 1 \<and> column < x \<and> x \<le> ?stop)"
        using paints_run[OF stop(1,2)] 1(3-6) below by simp
      have rest: "paints W H cells columns (row_update same cells columns row ?stop)
          (\<lambda>y x. y = row + 1 \<and> ?stop < x \<and> x \<le> columns \<and> \<not> same (row * columns + (x - 1)))"
        using 1(2)[OF below False refl refl] 1(3-6) stop by simp
      have changed: "\<not> same (row * columns + (x - 1))" if "column < x" "x \<le> ?stop" for x
        using run_end_changed[of column "x - 1" "\<lambda>c. same (row * columns + c)" columns] that by auto
      have "row_update same cells columns row column =
          (cursor_to (row + 1) (column + 1) @ take (?stop - column) (drop (row * columns + column) cells)) @
          row_update same cells columns row ?stop"
        using below False by (subst row_update.simps) (simp add: Let_def)
      then show ?thesis
        using paints_append[OF run rest] stop changed by (auto elim!: paints_region)
    qed
  qed
qed

text \<open>The whole output of an update, whichever of its two forms is chosen.\<close>

lemma display_painted:
  assumes "paints W H cells columns p R"
  shows "\<exists>t'. display W H (save_cursor @ p @ restore_cursor) t = t' \<and> sc_row t' = sc_row t \<and> sc_col t' = sc_col t \<and>
    (\<forall>y x. sc_cell t' y x = (if R y x then cells ! ((y - 1) * columns + (x - 1)) else sc_cell t y x))"
proof -
  let ?t = "act W H CursorSave t"
  obtain u where "display W H (p @ restore_cursor) ?t = display W H restore_cursor u" "sc_saved u = sc_saved ?t"
    "\<forall>y x. sc_cell u y x = (if R y x then cells ! ((y - 1) * columns + (x - 1)) else sc_cell ?t y x)"
    using assms unfolding paints_def by blast
  then show ?thesis using display_restore[of W H "[]" u] by (simp add: display_save)
qed

definition in_view :: "nat \<Rightarrow> nat \<Rightarrow> nat \<Rightarrow> nat \<Rightarrow> bool" where
  "in_view columns rows y x \<longleftrightarrow> 1 \<le> y \<and> y \<le> rows \<and> 1 \<le> x \<and> x \<le> columns"

lemma row_inside: "(k :: nat) < rows \<Longrightarrow> (k + 1) * columns \<le> columns * rows"
  using mult_le_mono1[of "k + 1" rows columns] by (simp add: mult.commute)

lemma render_update:
  assumes "length cells = columns * rows" "list_all visible cells" "columns \<le> W" "rows \<le> H" "1 \<le> columns"
    and same: "\<And>y x. in_view columns rows y x \<Longrightarrow> pc = columns \<and> pr = rows \<and> length previous = length cells \<Longrightarrow>
      sc_cell t y x = previous ! ((y - 1) * columns + (x - 1))"
  shows "\<exists>t'. display W H (renderVideoUpdate previous pc pr columns rows cells) t = t' \<and> sc_row t' = sc_row t \<and> sc_col t' = sc_col t \<and>
    (\<forall>y x. sc_cell t' y x = (if in_view columns rows y x then cells ! ((y - 1) * columns + (x - 1)) else sc_cell t y x))"
proof -
  define full where "full \<longleftrightarrow> pc \<noteq> columns \<or> pr \<noteq> rows \<or> length previous \<noteq> length cells"
  define kept where "kept = (\<lambda>i. \<not> full \<and> previous ! i = cells ! i)"
  have "paints W H cells columns (row_update kept cells columns k 0)
      (\<lambda>y x. y = k + 1 \<and> 0 < x \<and> x \<le> columns \<and> \<not> kept (k * columns + (x - 1)))" if "k \<in> set [0..<rows]" for k :: nat
    using paints_row_update[of columns W k H cells 0 kept] row_inside[of k rows columns] assms(1-4) that by simp
  note changed = paints_concat[where f = "\<lambda>k. row_update kept cells columns k 0" and ks = "[0..<rows]", OF this]
  have "paints W H cells columns (row_full cells columns k) (\<lambda>y x. y = k + 1 \<and> 0 < x \<and> x \<le> columns)" if "k \<in> set [0..<rows]" for k :: nat
    using paints_run[of 0 columns columns W k H cells] row_inside[of k rows columns] assms(1-5) that by (simp add: row_full_def)
  note everything = paints_concat[where f = "row_full cells columns" and ks = "[0..<rows]", OF this]
  have rows_view: "(\<exists>k \<in> set [0..<rows]. y = k + 1 \<and> 0 < x \<and> x \<le> columns \<and> P k) \<longleftrightarrow> in_view columns rows y x \<and> P (y - 1)"
    for y x :: nat and P
    by (cases y) (auto simp: in_view_def)
  have kept_shown: "sc_cell t y x = cells ! ((y - 1) * columns + (x - 1))"
    if "in_view columns rows y x" "kept ((y - 1) * columns + (x - 1))" for y x
    using same[OF that(1)] that(2) by (simp add: kept_def full_def)
  have "\<exists>t'. display W H (save_cursor @ concat (map (\<lambda>k. row_update kept cells columns k 0) [0..<rows]) @ restore_cursor) t = t' \<and>
      sc_row t' = sc_row t \<and> sc_col t' = sc_col t \<and>
      (\<forall>y x. sc_cell t' y x = (if in_view columns rows y x then cells ! ((y - 1) * columns + (x - 1)) else sc_cell t y x))"
    using display_painted[OF changed, of t] kept_shown by (simp only: rows_view) auto
  moreover have "\<exists>t'. display W H (save_cursor @ concat (map (row_full cells columns) [0..<rows]) @ restore_cursor) t = t' \<and>
      sc_row t' = sc_row t \<and> sc_col t' = sc_col t \<and>
      (\<forall>y x. sc_cell t' y x = (if in_view columns rows y x then cells ! ((y - 1) * columns + (x - 1)) else sc_cell t y x))"
    using display_painted[OF everything, of t] rows_view[where P = "\<lambda>k. True"] by simp
  ultimately show ?thesis
    unfolding renderVideoUpdate_def Let_def full_def[symmetric] kept_def[symmetric] by simp
qed

definition empty_video :: video where
  "empty_video = \<lparr>videoCells = [], videoWidth = 0, videoHeight = 0\<rparr>"

definition on_screen :: "video \<Rightarrow> screen \<Rightarrow> bool" where
  "on_screen u t \<longleftrightarrow> (\<forall>y x. in_view (videoWidth u) (videoHeight u) y x \<longrightarrow>
     sc_cell t y x = videoCells u ! ((y - 1) * videoWidth u + (x - 1)))"

fun play :: "nat \<Rightarrow> nat \<Rightarrow> (int \<times> int \<times> string) list \<Rightarrow> video \<Rightarrow> screen \<Rightarrow> video \<times> screen" where
  "play W H [] u t = (u, t)"
| "play W H ((columns, rows, cells) # frames) u t =
     (let (u, output) = RenderVideo True columns rows cells u in play W H frames u (display W H output t))"

definition acceptable :: "int \<Rightarrow> int \<Rightarrow> string \<Rightarrow> bool" where
  "acceptable columns rows cells \<longleftrightarrow>
     1 \<le> columns \<and> 1 \<le> rows \<and> int (length cells) = columns * rows \<and> list_all visible cells"

lemma RenderVideo_step:
  assumes "on_screen u t" "columns \<le> int W" "rows \<le> int H" "RenderVideo True columns rows cells u = (u', output)"
  shows "on_screen u' (display W H output t)"
    and "sc_row (display W H output t) = sc_row t" "sc_col (display W H output t) = sc_col t"
    and "acceptable columns rows cells \<Longrightarrow> sc_cell (display W H output t) y x =
      (if in_view (nat columns) (nat rows) y x then cells ! ((y - 1) * nat columns + (x - 1)) else sc_cell t y x)"
proof -
  have bad: "list_ex (\<lambda>cell. code cell < 0x20 \<or> code cell > 0x7E) cells \<longleftrightarrow> \<not> list_all visible cells"
    unfolding list_ex_iff list_all_iff visible_def by (metis not_less leD le_less_linear less_Suc_eq_le eval_nat_numeral(3) numeral_eq_Suc)
  have "on_screen u' (display W H output t) \<and> sc_row (display W H output t) = sc_row t \<and> sc_col (display W H output t) = sc_col t \<and>
      (acceptable columns rows cells \<longrightarrow> sc_cell (display W H output t) y x =
      (if in_view (nat columns) (nat rows) y x then cells ! ((y - 1) * nat columns + (x - 1)) else sc_cell t y x))"
  proof (cases "acceptable columns rows cells")
    case True
    then have u': "u' = \<lparr>videoCells = cells, videoWidth = nat columns, videoHeight = nat rows\<rparr>"
      "output = renderVideoUpdate (videoCells u) (videoWidth u) (videoHeight u) (nat columns) (nat rows) cells"
      using assms(4) by (auto simp: RenderVideo_def bad acceptable_def)
    have "length cells = nat columns * nat rows"
      using True by (simp add: acceptable_def flip: nat_mult_distrib) (metis nat_int)
    from render_update[OF this, of W H "videoWidth u" "videoHeight u" "videoCells u" t] show ?thesis
      using True assms(1-3) unfolding u' by (auto simp: acceptable_def on_screen_def)
  next
    case False
    then have "u' = u" "output = []" using assms(4) by (auto simp: RenderVideo_def bad acceptable_def split: if_splits)
    then show ?thesis using assms(1) False by simp
  qed
  then show "on_screen u' (display W H output t)"
    and "sc_row (display W H output t) = sc_row t" "sc_col (display W H output t) = sc_col t"
    and "acceptable columns rows cells \<Longrightarrow> sc_cell (display W H output t) y x =
      (if in_view (nat columns) (nat rows) y x then cells ! ((y - 1) * nat columns + (x - 1)) else sc_cell t y x)"
    by blast+
qed

lemma play_kept:
  assumes "on_screen u t" "\<forall>(c, r, f) \<in> set frames. c \<le> int W \<and> r \<le> int H" "play W H frames u t = (u', t')"
  shows "on_screen u' t' \<and> sc_row t' = sc_row t \<and> sc_col t' = sc_col t"
  using assms
proof (induction frames arbitrary: u t)
  case (Cons f frames)
  obtain c r cells where f: "f = (c, r, cells)" by (cases f) auto
  obtain v out where v: "RenderVideo True c r cells u = (v, out)" by (cases "RenderVideo True c r cells u")
  have fits: "c \<le> int W" "r \<le> int H" using Cons.prems(2) by (auto simp: f)
  note step = RenderVideo_step[OF Cons.prems(1) fits v]
  have "play W H frames v (display W H out t) = (u', t')" using Cons.prems(3) by (simp add: f v)
  with Cons.IH[OF step(1)] Cons.prems(2) step(2,3) show ?case by auto
qed simp

lemma play_append: "play W H (xs @ ys) u t = (case play W H xs u t of (u, t) \<Rightarrow> play W H ys u t)"
  by (induction xs arbitrary: u t) (auto simp: split_beta Let_def)

text \<open>
  C40: After any frames, accepted or not, of any sizes the terminal has room for, an acceptable
  frame is on the screen exactly: each of its cells at its place, nothing outside it changed, and
  the cursor where the user's input left it, although only the cells that changed are written.
\<close>

theorem render_exact:
  assumes "\<forall>(c, r, f) \<in> set (frames @ [(columns, rows, cells)]). c \<le> int W \<and> r \<le> int H" "acceptable columns rows cells"
  shows "let before = snd (play W H frames empty_video t); after = snd (play W H (frames @ [(columns, rows, cells)]) empty_video t)
    in sc_row after = sc_row t \<and> sc_col after = sc_col t \<and>
       sc_cell after y x = (if in_view (nat columns) (nat rows) y x then cells ! ((y - 1) * nat columns + (x - 1))
         else sc_cell before y x)"
proof -
  obtain u s where before: "play W H frames empty_video t = (u, s)" by (cases "play W H frames empty_video t")
  have "on_screen empty_video t" by (simp add: on_screen_def in_view_def empty_video_def)
  from play_kept[OF this _ before] assms(1) have kept: "on_screen u s" "sc_row s = sc_row t" "sc_col s = sc_col t" by auto
  obtain v out where v: "RenderVideo True columns rows cells u = (v, out)" by (cases "RenderVideo True columns rows cells u")
  have "columns \<le> int W" "rows \<le> int H" using assms(1) by auto
  note step = RenderVideo_step[OF kept(1) this v]
  show ?thesis using step(2-4) assms(2) kept(2,3) by (simp add: before play_append v Let_def)
qed

definition blank_screen :: screen where
  "blank_screen = \<lparr>sc_row = 24, sc_col = 3, sc_saved = (1, 1), sc_cell = (\<lambda>y x. CHR '' '')\<rparr>"

theorem render_exact_witness:
  "sc_cell (snd (play 80 24 [(3, 2, ''abcdef''), (3, 2, ''abXdef'')] empty_video blank_screen)) 1 3 = CHR ''X''"
proof -
  have ok: "acceptable 3 2 ''abXdef''" by (simp add: acceptable_def visible_def)
  show ?thesis
    using render_exact[OF _ ok, of "[(3, 2, ''abcdef'')]" 80 24 blank_screen 1 3] by (simp add: in_view_def Let_def)
qed

end
