(* ===== verification/Ascii_Codec.thy ===== *)
theory Ascii_Codec
  imports Prelude
begin

text \<open>
  ASCII video, \<open>internal/client/asciivideo\<close>: the frame format and the delta codec of
  \<open>codec.go\<close>, the grayscale conversion of \<open>convert.go\<close>.  A byte is an \<open>8 word\<close>, the
  sequence number a \<open>32 word\<close> that wraps, the timestamp field a \<open>64 word\<close> read as a signed
  number of milliseconds.  A frame is lossless except for the timestamp, which is cut to
  milliseconds.
\<close>

type_synonym byte = "8 word"

definition Version :: byte where "Version = 1"
definition CharsetMonochrome :: byte where "CharsetMonochrome = 1"
definition ColorMonochrome :: byte where "ColorMonochrome = 0"
definition MaxColumns :: int where "MaxColumns = 200"
definition MaxRows :: int where "MaxRows = 80"
definition MaxEncodedSize :: nat where "MaxEncodedSize = 65536"
definition headerSize :: nat where "headerSize = 26"

definition codec_magic :: "byte list" where
  "codec_magic = [0x54, 0x56]"

lemmas codec_constants = Version_def CharsetMonochrome_def ColorMonochrome_def MaxColumns_def MaxRows_def
  MaxEncodedSize_def headerSize_def codec_magic_def

datatype frame_error = ErrInvalidFrame | ErrNeedsKeyframe

definition FrameKey :: byte where "FrameKey = 1"
definition FrameDelta :: byte where "FrameDelta = 2"

lemmas frame_types = FrameKey_def FrameDelta_def

record frame =
  fr_Type :: byte
  fr_Sequence :: "32 word"
  fr_Timestamp :: time
  fr_Columns :: int
  fr_Rows :: int
  fr_Cells :: "byte list"

subsection \<open>Big-endian fields\<close>

fun be_bytes :: "nat \<Rightarrow> nat \<Rightarrow> byte list" where
  "be_bytes 0 v = []"
| "be_bytes (Suc n) v = be_bytes n (v div 256) @ [word_of_nat v]"

definition be_val :: "byte list \<Rightarrow> nat" where
  "be_val bs = foldl (\<lambda>a b. a * 256 + unat b) 0 bs"

lemma length_be_bytes [simp]: "length (be_bytes n v) = n"
  by (induction n arbitrary: v) auto

lemma be_val_snoc [simp]: "be_val (bs @ [b]) = be_val bs * 256 + unat b"
  by (simp add: be_val_def)

lemma be_val_bytes: "v < 256 ^ n \<Longrightarrow> be_val (be_bytes n v) = v"
proof (induction n arbitrary: v)
  case (Suc n)
  then have "be_val (be_bytes n (v div 256)) = v div 256" by simp
  then show ?case by (simp add: unat_of_nat)
qed (simp add: be_val_def)

definition unix_milli :: "time \<Rightarrow> int" where
  "unix_milli t = (t - unix_epoch) div 1000000"

definition from_milli :: "int \<Rightarrow> time" where
  "from_milli ms = unix_epoch + ms * 1000000"

subsection \<open>Frame format\<close>

definition validateDimensions :: "int \<Rightarrow> int \<Rightarrow> bool" where
  "validateDimensions columns rows \<longleftrightarrow>
     \<not> (columns < 1 \<or> columns > MaxColumns \<or> rows < 1 \<or> rows > MaxRows)"

definition frame_header :: "byte \<Rightarrow> 32 word \<Rightarrow> time \<Rightarrow> int \<Rightarrow> int \<Rightarrow> nat \<Rightarrow> byte list" where
  "frame_header frameType sequence timestamp columns rows payloadSize =
     codec_magic @ [Version, frameType] @ be_bytes 4 (unat sequence) @
     be_bytes 8 (unat (word_of_int (unix_milli timestamp) :: 64 word)) @
     be_bytes 2 (unat (word_of_int columns :: 16 word)) @ be_bytes 2 (unat (word_of_int rows :: 16 word)) @
     [CharsetMonochrome, ColorMonochrome] @ be_bytes 4 (unat (word_of_nat payloadSize :: 32 word))"

definition marshal ::
  "byte \<Rightarrow> 32 word \<Rightarrow> time \<Rightarrow> int \<Rightarrow> int \<Rightarrow> byte list \<Rightarrow> frame_error + byte list" where
  "marshal frameType sequence timestamp columns rows payload =
    (if \<not> validateDimensions columns rows then Inl ErrInvalidFrame
     else if headerSize + length payload > MaxEncodedSize then Inl ErrInvalidFrame
     else Inr (frame_header frameType sequence timestamp columns rows (length payload) @ payload))"

definition field :: "nat \<Rightarrow> nat \<Rightarrow> byte list \<Rightarrow> nat" where
  "field from to data = be_val (take (to - from) (drop from data))"

definition unmarshal :: "byte list \<Rightarrow> frame_error + (byte \<times> 32 word \<times> time \<times> int \<times> int \<times> byte list)" where
  "unmarshal data =
    (if length data < headerSize \<or> length data > MaxEncodedSize \<or>
        data ! 0 \<noteq> codec_magic ! 0 \<or> data ! 1 \<noteq> codec_magic ! 1 then Inl ErrInvalidFrame
     else if data ! 2 \<noteq> Version then Inl ErrInvalidFrame
     else let columns = int (field 16 18 data); rows = int (field 18 20 data) in
       if \<not> validateDimensions columns rows then Inl ErrInvalidFrame
       else if data ! 20 \<noteq> CharsetMonochrome \<or> data ! 21 \<noteq> ColorMonochrome then Inl ErrInvalidFrame
       else if field 22 26 data \<noteq> length data - headerSize then Inl ErrInvalidFrame
       else Inr (data ! 3, word_of_nat (field 4 8 data),
         from_milli (sint (word_of_nat (field 8 16 data) :: 64 word)), columns, rows, drop headerSize data))"

subsection \<open>Deltas\<close>

text \<open>How many cells, at most \<open>k\<close>, differ from here on without a gap.\<close>

fun run_length :: "nat \<Rightarrow> byte list \<Rightarrow> byte list \<Rightarrow> nat" where
  "run_length k (p # ps) (c # cs) = (if c \<noteq> p \<and> 0 < k then Suc (run_length (k - 1) ps cs) else 0)"
| "run_length k [] cs = 0"
| "run_length k ps [] = 0"

definition delta_entry :: "nat \<Rightarrow> byte list \<Rightarrow> byte list" where
  "delta_entry start run = be_bytes 4 (unat (word_of_nat start :: 32 word)) @
     be_bytes 2 (unat (word_of_nat (length run) :: 16 word)) @ run"

text \<open>The loop of \<open>encodeDelta\<close> from \<open>index\<close> on, with the cells that are left.\<close>

function delta_loop :: "nat \<Rightarrow> byte list \<Rightarrow> byte list \<Rightarrow> byte list" where
  "delta_loop index (p # ps) (c # cs) =
    (if c = p then delta_loop (Suc index) ps cs
     else let n = run_length 0xffff (p # ps) (c # cs) in
       delta_entry index (take n (c # cs)) @
       delta_loop (index + n) (drop n (p # ps)) (drop n (c # cs)))"
| "delta_loop index [] cs = []"
| "delta_loop index (p # ps) [] = []"
  by pat_completeness auto

termination by (relation "measure (\<lambda>(i, ps, cs). length cs)") auto

lemma run_length_pos: "c \<noteq> p \<Longrightarrow> 0 < k \<Longrightarrow> 0 < run_length k (p # ps) (c # cs)"
  by simp

definition encodeDelta :: "byte list \<Rightarrow> byte list \<Rightarrow> byte list" where
  "encodeDelta previous current =
    (if length previous \<noteq> length current then [] else delta_loop 0 previous current)"

text \<open>\<open>copy(cells[start:start+len(run)], run)\<close>\<close>

definition copy_at :: "nat \<Rightarrow> byte list \<Rightarrow> byte list \<Rightarrow> byte list" where
  "copy_at start run cells = take start cells @ run @ drop (start + length run) cells"

text \<open>\<open>applyDelta\<close> works in place: the cells it leaves, and whether it succeeded.\<close>

function applyDelta :: "byte list \<Rightarrow> byte list \<Rightarrow> byte list \<times> bool" where
  "applyDelta cells payload =
    (if payload = [] then (cells, True)
     else if length payload < 6 then (cells, False)
     else let start = be_val (take 4 payload); n = be_val (take 2 (drop 4 payload)); rest = drop 6 payload in
       if n = 0 \<or> n > length rest \<or> int start > int (length cells) - int n then (cells, False)
       else applyDelta (copy_at start (take n rest) cells) (drop n rest))"
  by pat_completeness auto
termination by (relation "measure (\<lambda>(cells, payload). length payload)") auto

declare applyDelta.simps [simp del]

subsection \<open>Encoder and decoder\<close>

record encoder =
  e_columns :: int
  e_rows :: int
  e_key_interval :: duration
  e_previous :: "byte list"
  e_sequence :: "32 word"
  e_last_keyframe :: time
  e_force_key :: bool

definition NewEncoder :: "int \<Rightarrow> int \<Rightarrow> duration \<Rightarrow> encoder option" where
  "NewEncoder columns rows keyInterval =
    (if \<not> validateDimensions columns rows then None
     else Some \<lparr>e_columns = columns, e_rows = rows,
       e_key_interval = (if keyInterval \<le> 0 then 2 * second else keyInterval),
       e_previous = [], e_sequence = 0, e_last_keyframe = 0, e_force_key = True\<rparr>)"

definition ForceKeyframe :: "encoder \<Rightarrow> encoder" where
  "ForceKeyframe e = e\<lparr>e_force_key := True\<rparr>"

definition printable :: "byte \<Rightarrow> bool" where
  "printable cell \<longleftrightarrow> \<not> (cell < 0x20 \<or> cell > 0x7e)"

text \<open>\<open>Encode\<close>; \<open>wall\<close> is the clock read when the timestamp is zero.\<close>

definition Encode :: "time \<Rightarrow> byte list \<Rightarrow> time \<Rightarrow> encoder \<Rightarrow> encoder \<times> (frame_error + byte list)" where
  "Encode wall cells timestamp e =
    (if int (length cells) \<noteq> e_columns e * e_rows e then (e, Inl ErrInvalidFrame)
     else let timestamp = (if is_zero timestamp then wall else timestamp) in
       if \<not> list_all printable cells then (e, Inl ErrInvalidFrame)
       else let e = e\<lparr>e_sequence := e_sequence e + 1\<rparr>;
                delta = encodeDelta (e_previous e) cells;
                key = (e_force_key e \<or> length (e_previous e) = 0 \<or>
                  timestamp - e_last_keyframe e \<ge> e_key_interval e \<or> length delta \<ge> length cells);
                (frameType, payload) = (if key then (FrameKey, cells) else (FrameDelta, delta));
                e = (if key then e\<lparr>e_last_keyframe := timestamp, e_force_key := False\<rparr> else e)
         in case marshal frameType (e_sequence e) timestamp (e_columns e) (e_rows e) payload of
              Inl err \<Rightarrow> (e, Inl err)
            | Inr encoded \<Rightarrow> (e\<lparr>e_previous := cells\<rparr>, Inr encoded))"

record decoder =
  d_columns :: int
  d_rows :: int
  d_sequence :: "32 word"
  d_cells :: "byte list"

definition new_decoder :: decoder where
  "new_decoder = \<lparr>d_columns = 0, d_rows = 0, d_sequence = 0, d_cells = []\<rparr>"

definition decode_commit ::
  "byte \<Rightarrow> 32 word \<Rightarrow> time \<Rightarrow> int \<Rightarrow> int \<Rightarrow> decoder \<Rightarrow> decoder \<times> (frame_error + frame)" where
  "decode_commit frameType sequence timestamp columns rows d =
    (if \<not> list_all printable (d_cells d) then (d, Inl ErrInvalidFrame)
     else (d\<lparr>d_columns := columns, d_rows := rows, d_sequence := sequence\<rparr>,
       Inr \<lparr>fr_Type = frameType, fr_Sequence = sequence, fr_Timestamp = timestamp, fr_Columns = columns,
            fr_Rows = rows, fr_Cells = d_cells d\<rparr>))"

definition Decode :: "byte list \<Rightarrow> decoder \<Rightarrow> decoder \<times> (frame_error + frame)" where
  "Decode data d = (case unmarshal data of
      Inl err \<Rightarrow> (d, Inl err)
    | Inr (frameType, sequence, timestamp, columns, rows, payload) \<Rightarrow>
        let cellCount = columns * rows in
        if frameType = FrameKey then
          (if int (length payload) \<noteq> cellCount then (d, Inl ErrInvalidFrame)
           else decode_commit frameType sequence timestamp columns rows (d\<lparr>d_cells := payload\<rparr>))
        else if frameType = FrameDelta then
          (if int (length (d_cells d)) \<noteq> cellCount \<or> d_columns d \<noteq> columns \<or> d_rows d \<noteq> rows \<or>
              sequence \<noteq> d_sequence d + 1 then (d, Inl ErrNeedsKeyframe)
           else let (cells, ok) = applyDelta (d_cells d) payload; d = d\<lparr>d_cells := cells\<rparr> in
             if \<not> ok then (d, Inl ErrInvalidFrame)
             else decode_commit frameType sequence timestamp columns rows d)
        else (d, Inl ErrInvalidFrame))"

subsection \<open>Grayscale conversion\<close>

definition DefaultCharset :: string where
  "DefaultCharset = '' .,:;irsXA253hMHGS#9B&@''"

definition gray_cell :: "byte list \<Rightarrow> nat \<Rightarrow> nat \<Rightarrow> nat \<Rightarrow> byte" where
  "gray_cell pixels sourceColumns row column = (
     let top = unat (pixels ! ((row * 2) * sourceColumns + column));
         bottom = unat (pixels ! ((row * 2 + 1) * sourceColumns + column));
         brightness = (top + bottom) div 2
     in word_of_nat (of_char (DefaultCharset ! (brightness * (length DefaultCharset - 1) div 255))))"

text \<open>
  With both sizes negative the products are positive and the loops run zero times: the
  result is the zeroed slice \<open>make\<close> returns.
\<close>

definition FromGray :: "byte list \<Rightarrow> int \<Rightarrow> int \<Rightarrow> int \<Rightarrow> int \<Rightarrow> frame_error + byte list" where
  "FromGray pixels sourceColumns sourceRows columns rows =
    (if sourceColumns \<noteq> columns \<or> sourceRows \<noteq> rows * 2 \<or>
        int (length pixels) \<noteq> sourceColumns * sourceRows then Inl ErrInvalidFrame
     else Inr (if columns < 0 then replicate (nat (columns * rows)) 0 else concat (map (\<lambda>row. map (\<lambda>column. gray_cell pixels (nat sourceColumns) row column)
       [0 ..< nat columns]) [0 ..< nat rows])))"

subsection \<open>The frame format reads back\<close>

lemma be_val_word: "be_val (be_bytes 4 (unat (w :: 32 word))) = unat w"
  "be_val (be_bytes 8 (unat (x :: 64 word))) = unat x" "be_val (be_bytes 2 (unat (y :: 16 word))) = unat y"
  using be_val_bytes[of "unat w" 4] be_val_bytes[of "unat x" 8] be_val_bytes[of "unat y" 2]
    unsigned_less[of w] unsigned_less[of x] unsigned_less[of y] by simp_all

lemma dimension_word:
  "0 \<le> c \<Longrightarrow> c < 65536 \<Longrightarrow> uint (word_of_int c :: 16 word) = c"
  by (simp add: uint_word_of_int_eq take_bit_int_eq_self)

theorem unmarshal_marshal:
  assumes "marshal t s ts cs rs payload = Inr data"
  shows "unmarshal data =
    Inr (t, s, from_milli (sint (word_of_int (unix_milli ts) :: 64 word)), cs, rs, payload)"
proof -
  have dim: "validateDimensions cs rs" and size: "26 + length payload \<le> 65536"
    and data: "data = frame_header t s ts cs rs (length payload) @ payload"
    using assms by (auto simp: marshal_def codec_constants split: if_splits)
  have bounds: "0 \<le> cs" "cs < 65536" "0 \<le> rs" "rs < 65536"
    using dim by (auto simp: validateDimensions_def MaxColumns_def MaxRows_def)
  have small: "unat (word_of_nat (length payload) :: 32 word) = length payload"
    using size by (simp add: unat_of_nat)
  have len: "be_val (be_bytes 4 (length payload)) = length payload"
    using size by (intro be_val_bytes) simp
  have "field 4 8 data = unat s" "field 8 16 data = unat (word_of_int (unix_milli ts) :: 64 word)"
    "int (field 16 18 data) = cs" "int (field 18 20 data) = rs" "field 22 26 data = length payload"
    using small bounds len
    by (simp_all add: data frame_header_def codec_magic_def field_def be_val_word dimension_word)
  moreover have "data ! 0 = 0x54" "data ! 1 = 0x56" "data ! 2 = Version" "data ! 3 = t"
    "data ! 20 = CharsetMonochrome" "data ! 21 = ColorMonochrome"
    by (simp_all add: data frame_header_def codec_magic_def nth_append)
  moreover have "length data = 26 + length payload" "drop 26 data = payload"
    by (simp_all add: data frame_header_def codec_magic_def)
  ultimately show ?thesis
    using dim size unfolding unmarshal_def by (simp add: headerSize_def MaxEncodedSize_def codec_magic_def Let_def)
qed

subsection \<open>Applying a delta gives the frame it was taken from\<close>

lemma apply_entry:
  assumes "0 < length run" "length run \<le> 65535" "start + length run \<le> length cells" "length cells < 2 ^ 32"
  shows "applyDelta cells (delta_entry start run @ rest) = applyDelta (copy_at start run cells) rest"
proof -
  have nums: "unat (word_of_nat start :: 32 word) = start" "unat (word_of_nat (length run) :: 16 word) = length run"
    using assms by (simp_all add: unat_of_nat)
  have "be_val (be_bytes 4 start) = start" "be_val (be_bytes 2 (length run)) = length run"
    using assms by (auto intro!: be_val_bytes)
  then show ?thesis
    using assms by (subst applyDelta.simps) (simp add: delta_entry_def nums Let_def)
qed

lemma run_length_le: "run_length k ps cs \<le> k" "run_length k ps cs \<le> length cs" "run_length k ps cs \<le> length ps"
  by (induction k ps cs rule: run_length.induct) auto

lemma apply_delta_loop:
  assumes "index = length pre" "length ps = length cs" "length pre + length ps < 2 ^ 32"
  shows "applyDelta (pre @ ps) (delta_loop index ps cs) = (pre @ cs, True)"
  using assms
proof (induction index ps cs arbitrary: pre rule: delta_loop.induct)
  case (1 index p ps c cs)
  show ?case
  proof (cases "c = p")
    case True
    with "1.IH"(1)[of "pre @ [p]"] "1.prems" show ?thesis by simp
  next
    case False
    define n where "n = run_length 0xffff (p # ps) (c # cs)"
    have n: "0 < n" "n \<le> 65535" "n \<le> length (c # cs)" "n \<le> length (p # ps)"
      unfolding n_def using run_length_pos[OF False, of 65535 ps cs]
        run_length_le[where k = 65535 and ps = "p # ps" and cs = "c # cs"] by auto
    have copy: "copy_at (length pre) (take n (c # cs)) (pre @ p # ps) = (pre @ take n (c # cs)) @ drop n (p # ps)"
      using n by (simp add: copy_at_def min_def)
    have "applyDelta (pre @ p # ps) (delta_loop index (p # ps) (c # cs)) =
        applyDelta ((pre @ take n (c # cs)) @ drop n (p # ps)) (delta_loop (index + n) (drop n (p # ps)) (drop n (c # cs)))"
      using False n "1.prems" apply_entry[of "take n (c # cs)" index "pre @ p # ps"]
      by (simp add: n_def[symmetric] Let_def copy del: run_length.simps)
    also have "\<dots> = ((pre @ take n (c # cs)) @ drop n (c # cs), True)"
      using "1.IH"(2)[OF False n_def, of "pre @ take n (c # cs)"] "1.prems" n by auto
    finally show ?thesis by simp
  qed
qed (simp_all add: applyDelta.simps)

lemma applyDelta_encodeDelta:
  assumes "length previous = length current" "length previous < 2 ^ 32"
  shows "applyDelta previous (encodeDelta previous current) = (current, True)"
  using apply_delta_loop[of 0 "[]" previous current] assms by (simp add: encodeDelta_def)

subsection \<open>A stream of frames\<close>

text \<open>Pictures given to an encoder, each possibly after a forced keyframe, and a decoder fed with frames.\<close>

fun encode_run :: "time \<Rightarrow> encoder \<Rightarrow> (bool \<times> byte list \<times> time) list \<Rightarrow> (frame_error + byte list) list" where
  "encode_run wall e [] = []"
| "encode_run wall e ((force, cells, ts) # evs) =
    (let (e', r) = Encode wall cells ts (if force then ForceKeyframe e else e)
     in r # encode_run wall e' evs)"

fun decode_run :: "decoder \<Rightarrow> byte list list \<Rightarrow> (frame_error + frame) list" where
  "decode_run d [] = []"
| "decode_run d (data # rest) = (let (d', r) = Decode data d in r # decode_run d' rest)"

definition pictures_ok :: "int \<Rightarrow> int \<Rightarrow> (bool \<times> byte list \<times> time) list \<Rightarrow> bool" where
  "pictures_ok cols rows evs \<longleftrightarrow>
     (\<forall>(force, cells, ts) \<in> set evs. int (length cells) = cols * rows \<and> list_all printable cells)"

definition encoder_inv :: "int \<Rightarrow> int \<Rightarrow> byte list list \<Rightarrow> encoder \<Rightarrow> bool" where
  "encoder_inv cols rows shown e \<longleftrightarrow> validateDimensions cols rows \<and> e_columns e = cols \<and> e_rows e = rows \<and>
     e_sequence e = word_of_nat (length shown) \<and> e_previous e = (if shown = [] then [] else last shown) \<and>
     (\<forall>p \<in> set shown. int (length p) = cols * rows)"

text \<open>Frame number \<open>k\<close> of the pictures shown.\<close>

definition frame_of :: "int \<Rightarrow> int \<Rightarrow> byte list list \<Rightarrow> nat \<Rightarrow> byte list \<Rightarrow> bool" where
  "frame_of cols rows shown k data \<longleftrightarrow> (\<exists>t ts payload.
     unmarshal data = Inr (t, word_of_nat (Suc k), ts, cols, rows, payload) \<and>
     (t = FrameKey \<and> payload = shown ! k \<or>
      t = FrameDelta \<and> 0 < k \<and> payload = encodeDelta (shown ! (k - 1)) (shown ! k)))"

lemma cell_count:
  assumes "validateDimensions cols rows" "int (length p) = cols * rows"
  shows "0 < length p" "length p \<le> 16000"
proof -
  have d: "1 \<le> cols" "cols \<le> 200" "1 \<le> rows" "rows \<le> 80"
    using assms(1) by (auto simp: validateDimensions_def MaxColumns_def MaxRows_def)
  then have "1 * 1 \<le> cols * rows" "cols * rows \<le> 200 * 80" by (intro mult_mono; simp)+
  with assms(2) show "0 < length p" "length p \<le> 16000" by linarith+
qed

lemma force_inv [inv_intros]: "encoder_inv cols rows shown e \<Longrightarrow> encoder_inv cols rows shown (ForceKeyframe e)"
  by (simp add: encoder_inv_def ForceKeyframe_def)

lemma Encode_step:
  assumes "encoder_inv cols rows shown e" "int (length cells) = cols * rows" "list_all printable cells"
  shows "\<exists>e' data. Encode wall cells ts e = (e', Inr data) \<and> encoder_inv cols rows (shown @ [cells]) e' \<and>
    frame_of cols rows (shown @ [cells]) (length shown) data"
proof -
  define now where "now = (if is_zero ts then wall else ts)"
  define delta where "delta = encodeDelta (e_previous e) cells"
  define key where "key = (e_force_key e \<or> length (e_previous e) = 0 \<or>
      now - e_last_keyframe e \<ge> e_key_interval e \<or> length delta \<ge> length cells)"
  define payload where "payload = (if key then cells else delta)"
  define t where "t = (if key then FrameKey else FrameDelta)"
  have dims: "validateDimensions cols rows" "e_columns e = cols" "e_rows e = rows"
    using assms(1) by (auto simp: encoder_inv_def)
  note count = cell_count[OF dims(1) assms(2)]
  have "length payload \<le> 16000" using count by (auto simp: payload_def key_def)
  then obtain data where m: "marshal t (e_sequence e + 1) now cols rows payload = Inr data"
    using dims(1) by (simp add: marshal_def headerSize_def MaxEncodedSize_def)
  define e1 where "e1 = e\<lparr>e_sequence := e_sequence e + 1\<rparr>"
  define e2 where "e2 = (if key then e1\<lparr>e_last_keyframe := now, e_force_key := False\<rparr> else e1)"
  have enc: "Encode wall cells ts e = (e2\<lparr>e_previous := cells\<rparr>, Inr data)"
  proof (cases key)
    case True
    note K = True[unfolded key_def now_def delta_def]
    show ?thesis using m True K assms(2,3) dims
      by (cases "is_zero ts") (simp_all add: Encode_def Let_def now_def payload_def t_def e1_def e2_def)
  next
    case False
    note K = False[unfolded key_def now_def delta_def]
    show ?thesis using m False K assms(2,3) dims
      by (cases "is_zero ts") (simp_all add: Encode_def Let_def now_def delta_def payload_def t_def e1_def e2_def)
  qed
  have inv: "encoder_inv cols rows (shown @ [cells]) (e2\<lparr>e_previous := cells\<rparr>)"
    using assms by (auto simp: encoder_inv_def e1_def e2_def)
  have "word_of_nat (length shown) + 1 = (word_of_nat (Suc (length shown)) :: 32 word)" by simp
  then have seq: "e_sequence e + 1 = word_of_nat (Suc (length shown))"
    using assms(1) by (simp add: encoder_inv_def)
  have kind: "t = FrameKey \<and> payload = (shown @ [cells]) ! length shown \<or>
      t = FrameDelta \<and> 0 < length shown \<and>
      payload = encodeDelta ((shown @ [cells]) ! (length shown - 1)) ((shown @ [cells]) ! length shown)"
  proof (cases key)
    case False
    then have "shown \<noteq> []" using assms(1) by (auto simp: key_def encoder_inv_def)
    then have "(shown @ [cells]) ! (length shown - 1) = last shown" by (simp add: nth_append last_conv_nth)
    with False \<open>shown \<noteq> []\<close> assms(1) show ?thesis
      by (simp add: t_def payload_def delta_def encoder_inv_def)
  qed (simp add: t_def payload_def)
  have "frame_of cols rows (shown @ [cells]) (length shown) data"
    unfolding frame_of_def using unmarshal_marshal[OF m] seq kind by metis
  with enc inv show ?thesis by blast
qed

lemma frame_of_extend:
  "k < length shown \<Longrightarrow> frame_of cols rows (shown @ ext) k data = frame_of cols rows shown k data"
  by (simp add: frame_of_def nth_append less_imp_diff_less)

lemma encode_run_frames:
  assumes "encoder_inv cols rows shown e" "pictures_ok cols rows evs"
  shows "list_all2 (\<lambda>k r. \<exists>data. r = Inr data \<and>
      frame_of cols rows (shown @ map (\<lambda>ev. fst (snd ev)) evs) k data)
    [length shown ..< length shown + length evs] (encode_run wall e evs)"
  using assms
proof (induction evs arbitrary: shown e)
  case (Cons ev evs)
  obtain force cells ts where ev: "ev = (force, cells, ts)" by (cases ev)
  have ok: "int (length cells) = cols * rows" "list_all printable cells" "pictures_ok cols rows evs"
    using Cons.prems(2) by (auto simp: pictures_ok_def ev)
  have inv: "encoder_inv cols rows shown (if force then ForceKeyframe e else e)"
    using Cons.prems(1) by (auto intro: inv_intros)
  obtain e' data where step: "Encode wall cells ts (if force then ForceKeyframe e else e) = (e', Inr data)"
      "encoder_inv cols rows (shown @ [cells]) e'" "frame_of cols rows (shown @ [cells]) (length shown) data"
    using Encode_step[OF inv ok(1,2)] by blast
  have "frame_of cols rows (shown @ map (\<lambda>ev. fst (snd ev)) (ev # evs)) (length shown) data"
    using step(3) frame_of_extend[of "length shown" "shown @ [cells]" cols rows "map (\<lambda>ev. fst (snd ev)) evs"]
    by (simp add: ev)
  moreover have "[length shown ..< length shown + length (ev # evs)] =
      length shown # [length (shown @ [cells]) ..< length (shown @ [cells]) + length evs]"
    by (simp add: upt_rec)
  ultimately show ?case
    using Cons.IH[OF step(2) ok(3)] step(1) by (simp add: ev)
qed simp

definition decoder_at :: "int \<Rightarrow> int \<Rightarrow> byte list list \<Rightarrow> nat \<Rightarrow> decoder \<Rightarrow> bool" where
  "decoder_at cols rows shown k d \<longleftrightarrow> k < length shown \<and> d_columns d = cols \<and> d_rows d = rows \<and>
     d_sequence d = word_of_nat (Suc k) \<and> d_cells d = shown ! k"

definition exact_frame :: "int \<Rightarrow> int \<Rightarrow> byte list list \<Rightarrow> nat \<Rightarrow> frame_error + frame \<Rightarrow> bool" where
  "exact_frame cols rows shown k r \<longleftrightarrow> (\<exists>f. r = Inr f \<and> fr_Sequence f = word_of_nat (Suc k) \<and>
     fr_Columns f = cols \<and> fr_Rows f = rows \<and> fr_Cells f = shown ! k)"

definition shown_ok :: "int \<Rightarrow> int \<Rightarrow> byte list list \<Rightarrow> bool" where
  "shown_ok cols rows shown \<longleftrightarrow> validateDimensions cols rows \<and> length shown < 2 ^ 32 \<and>
     (\<forall>p \<in> set shown. int (length p) = cols * rows \<and> list_all printable p)"

lemma sequence_eq:
  assumes "Suc k < 2 ^ 32" "Suc j < 2 ^ 32"
  shows "(word_of_nat (Suc k) :: 32 word) = word_of_nat (Suc j) + 1 \<longleftrightarrow> k = Suc j"
proof -
  have "(word_of_nat (Suc j) + 1 :: 32 word) = word_of_nat (Suc (Suc j))" by simp
  moreover have "unat (word_of_nat (Suc k) :: 32 word) = Suc k" using assms by (simp only: unat_of_nat) simp
  moreover have "unat (word_of_nat (Suc (Suc j)) :: 32 word) = Suc (Suc j) mod 2 ^ 32"
    by (simp only: unat_of_nat) simp
  moreover have "Suc (Suc j) mod 2 ^ 32 \<noteq> Suc k" if "Suc (Suc j) = 2 ^ 32" using that by simp
  ultimately show ?thesis using assms
    by (metis (no_types, lifting) Suc_inject Suc_lessI mod_less)
qed

text \<open>
  Decoding frame \<open>k\<close>: it is shown exactly or a keyframe is asked for and nothing changes; the
  decoder that holds the frame before it shows it for certain.
\<close>

lemma Decode_frame:
  assumes ok: "shown_ok cols rows shown" "k < length shown" "frame_of cols rows shown k data"
    and d: "d_cells d = [] \<or> (\<exists>j. decoder_at cols rows shown j d)"
  shows "(Decode data d = (d, Inl ErrNeedsKeyframe) \<and> \<not> (0 < k \<and> decoder_at cols rows shown (k - 1) d)) \<or>
    decoder_at cols rows shown k (fst (Decode data d)) \<and> exact_frame cols rows shown k (snd (Decode data d))"
proof -
  obtain t ts payload where u: "unmarshal data = Inr (t, word_of_nat (Suc k), ts, cols, rows, payload)"
    and kind: "t = FrameKey \<and> payload = shown ! k \<or>
      t = FrameDelta \<and> 0 < k \<and> payload = encodeDelta (shown ! (k - 1)) (shown ! k)"
    using ok(3) by (auto simp: frame_of_def)
  have len: "int (length (shown ! i)) = cols * rows" "list_all printable (shown ! i)" if "i < length shown" for i
    using ok(1) that by (auto simp: shown_ok_def)
  have dims: "validateDimensions cols rows" using ok(1) by (simp add: shown_ok_def)
  have ne: "FrameDelta \<noteq> FrameKey" by (simp add: frame_types)
  from kind show ?thesis
  proof
    assume "t = FrameKey \<and> payload = shown ! k"
    then have "decoder_at cols rows shown k (fst (Decode data d)) \<and> exact_frame cols rows shown k (snd (Decode data d))"
      using len[OF ok(2)] ok(2)
      by (simp add: Decode_def u decode_commit_def decoder_at_def exact_frame_def)
    then show ?thesis by blast
  next
    assume delta: "t = FrameDelta \<and> 0 < k \<and> payload = encodeDelta (shown ! (k - 1)) (shown ! k)"
    show ?thesis
    proof (cases "decoder_at cols rows shown (k - 1) d")
      case True
      have k1: "k - 1 < length shown" using ok(2) by simp
      have "(word_of_nat (Suc k) :: 32 word) = word_of_nat (Suc (k - 1)) + 1" using delta by simp
      moreover have "length (shown ! (k - 1)) = length (shown ! k)" using len(1)[OF k1] len(1)[OF ok(2)] by simp
      moreover have "length (shown ! (k - 1)) < 2 ^ 32" using cell_count(2)[OF dims len(1)[OF k1]] by simp
      ultimately have "decoder_at cols rows shown k (fst (Decode data d)) \<and> exact_frame cols rows shown k (snd (Decode data d))"
        using delta True ne len[OF k1] len[OF ok(2)] ok(2) applyDelta_encodeDelta[of "shown ! (k - 1)" "shown ! k"]
        by (simp add: Decode_def u decode_commit_def decoder_at_def exact_frame_def Let_def)
      then show ?thesis by blast
    next
      case False
      have "int (length (d_cells d)) \<noteq> cols * rows \<or> d_columns d \<noteq> cols \<or> d_rows d \<noteq> rows \<or>
          word_of_nat (Suc k) \<noteq> d_sequence d + 1"
      proof (cases "d_cells d = []")
        case True
        then show ?thesis using cell_count(1)[OF dims len(1)[OF ok(2)]] len(1)[OF ok(2)] by auto
      next
        case ne: False
        with d obtain j where j: "decoder_at cols rows shown j d" by blast
        then have "k \<noteq> Suc j" using False by auto
        then show ?thesis
          using j ok(1,2) sequence_eq[of k j] by (auto simp: decoder_at_def shown_ok_def)
      qed
      then have "Decode data d = (d, Inl ErrNeedsKeyframe)"
        using delta ne by (simp add: Decode_def u Let_def)
      with False show ?thesis by blast
    qed
  qed
qed

lemma decode_run_faults:
  assumes "shown_ok cols rows shown" "d_cells d = [] \<or> (\<exists>j. decoder_at cols rows shown j d)"
    "list_all2 (\<lambda>k data. k < length shown \<and> frame_of cols rows shown k data) ks datas"
  shows "list_all2 (\<lambda>k r. r = Inl ErrNeedsKeyframe \<or> exact_frame cols rows shown k r) ks (decode_run d datas)"
  using assms(3,2)
proof (induction ks datas arbitrary: d rule: list_all2_induct)
  case (Cons k ks data datas)
  then have D: "(Decode data d = (d, Inl ErrNeedsKeyframe)) \<or>
      decoder_at cols rows shown k (fst (Decode data d)) \<and> exact_frame cols rows shown k (snd (Decode data d))"
    using Decode_frame[OF assms(1), of k data d] by blast
  then have "d_cells (fst (Decode data d)) = [] \<or> (\<exists>j. decoder_at cols rows shown j (fst (Decode data d)))"
    using Cons.prems by auto
  with Cons.IH D show ?case by (auto simp: split_beta)
qed simp

lemma Decode_first:
  assumes "frame_of cols rows shown 0 data"
  shows "snd (Decode data d) \<noteq> Inl ErrNeedsKeyframe"
proof -
  obtain ts where "unmarshal data = Inr (FrameKey, word_of_nat (Suc 0), ts, cols, rows, shown ! 0)"
    using assms by (auto simp: frame_of_def)
  then show ?thesis by (simp add: Decode_def decode_commit_def)
qed

lemma decode_run_in_order:
  assumes "shown_ok cols rows shown" "n \<le> length shown"
    "n = 0 \<and> d_cells d = [] \<or> 0 < n \<and> decoder_at cols rows shown (n - 1) d"
    "list_all2 (frame_of cols rows shown) [n ..< length shown] datas"
  shows "list_all2 (exact_frame cols rows shown) [n ..< length shown] (decode_run d datas)"
  using assms(2-4)
proof (induction datas arbitrary: d n)
  case (Cons data datas)
  then have n: "n < length shown" by (cases "n < length shown") auto
  then have upt: "[n ..< length shown] = n # [Suc n ..< length shown]" by (simp add: upt_rec)
  have f: "frame_of cols rows shown n data" using Cons.prems(3) upt by simp
  have d: "d_cells d = [] \<or> (\<exists>j. decoder_at cols rows shown j d)" using Cons.prems(2) by auto
  have "Decode data d \<noteq> (d, Inl ErrNeedsKeyframe) \<or> 0 < n \<and> decoder_at cols rows shown (n - 1) d"
    using Cons.prems(2) f Decode_first[of cols rows shown data d] by auto
  then have "decoder_at cols rows shown n (fst (Decode data d)) \<and> exact_frame cols rows shown n (snd (Decode data d))"
    using Decode_frame[OF assms(1) n f d] by blast
  moreover have "list_all2 (exact_frame cols rows shown) [Suc n ..< length shown] (decode_run (fst (Decode data d)) datas)"
    using Cons.IH[of "Suc n" "fst (Decode data d)"] Cons.prems(3) n upt calculation by simp
  ultimately show ?case by (simp add: upt split_beta)
qed (auto dest: list_all2_lengthD)

subsection \<open>Properties\<close>

definition fresh :: "int \<Rightarrow> int \<Rightarrow> duration \<Rightarrow> encoder" where
  "fresh cols rows interval = the (NewEncoder cols rows interval)"

definition pictures :: "(bool \<times> byte list \<times> time) list \<Rightarrow> byte list list" where
  "pictures evs = map (\<lambda>ev. fst (snd ev)) evs"

definition sent :: "time \<Rightarrow> int \<Rightarrow> int \<Rightarrow> duration \<Rightarrow> (bool \<times> byte list \<times> time) list \<Rightarrow> byte list list" where
  "sent wall cols rows interval evs =
     map (\<lambda>r. case r of Inr data \<Rightarrow> data | Inl err \<Rightarrow> []) (encode_run wall (fresh cols rows interval) evs)"

lemma sent_frames:
  assumes "validateDimensions cols rows" "pictures_ok cols rows evs"
  shows "list_all2 (frame_of cols rows (pictures evs)) [0 ..< length evs] (sent wall cols rows interval evs)"
    "\<forall>r \<in> set (encode_run wall (fresh cols rows interval) evs). \<exists>data. r = Inr data"
proof -
  have "encoder_inv cols rows [] (fresh cols rows interval)"
    using assms(1) by (simp add: encoder_inv_def fresh_def NewEncoder_def)
  from encode_run_frames[OF this assms(2), of wall]
  have A: "list_all2 (\<lambda>k r. \<exists>data. r = Inr data \<and> frame_of cols rows (pictures evs) k data)
      [0 ..< length evs] (encode_run wall (fresh cols rows interval) evs)" by (simp add: pictures_def)
  then show "list_all2 (frame_of cols rows (pictures evs)) [0 ..< length evs] (sent wall cols rows interval evs)"
    unfolding sent_def list_all2_map2 by (rule list_all2_mono) auto
  show "\<forall>r \<in> set (encode_run wall (fresh cols rows interval) evs). \<exists>data. r = Inr data"
    using A by (fastforce simp: list_all2_conv_all_nth in_set_conv_nth)
qed

lemma pictures_shown_ok:
  "validateDimensions cols rows \<Longrightarrow> pictures_ok cols rows evs \<Longrightarrow> length evs < 2 ^ 32 \<Longrightarrow> shown_ok cols rows (pictures evs)"
  by (auto simp: shown_ok_def pictures_def pictures_ok_def)

text \<open>
  Encoding printable pictures of the right size never fails, and a decoder that receives
  every frame in order shows every picture exactly.
\<close>

theorem stream_in_order:
  assumes "validateDimensions cols rows" "pictures_ok cols rows evs" "length evs < 2 ^ 32"
  shows "list_all2 (exact_frame cols rows (pictures evs)) [0 ..< length evs]
    (decode_run new_decoder (sent wall cols rows interval evs))"
proof -
  have "length (pictures evs) = length evs" by (simp add: pictures_def)
  then show ?thesis
    using decode_run_in_order[OF pictures_shown_ok[OF assms], of 0 new_decoder "sent wall cols rows interval evs"]
      sent_frames(1)[OF assms(1,2)] by (simp add: new_decoder_def)
qed

text \<open>
  C24: Whatever a lossy, reordering or duplicating transport makes of a stream of fewer than
  \<open>2^32\<close> frames, each delivered frame is either shown exactly or answered by a request for a
  keyframe: the decoder never shows a picture that was not sent.
\<close>

theorem stream_under_faults:
  assumes "validateDimensions cols rows" "pictures_ok cols rows evs" "length evs < 2 ^ 32"
    "\<forall>k \<in> set order. k < length evs"
  shows "list_all2 (\<lambda>k r. r = Inl ErrNeedsKeyframe \<or> exact_frame cols rows (pictures evs) k r) order
    (decode_run new_decoder (map (\<lambda>k. sent wall cols rows interval evs ! k) order))"
proof (rule decode_run_faults)
  show "shown_ok cols rows (pictures evs)" using assms(1-3) by (rule pictures_shown_ok)
  show "d_cells new_decoder = [] \<or> (\<exists>j. decoder_at cols rows (pictures evs) j new_decoder)"
    by (simp add: new_decoder_def)
  show "list_all2 (\<lambda>k data. k < length (pictures evs) \<and> frame_of cols rows (pictures evs) k data) order
      (map (\<lambda>k. sent wall cols rows interval evs ! k) order)"
    using assms(4) sent_frames(1)[OF assms(1,2), of wall interval]
    by (auto simp: list_all2_conv_all_nth pictures_def)
qed

definition demo_pictures :: "(bool \<times> byte list \<times> time) list" where
  "demo_pictures = [(False, replicate 10 0x41, unix_epoch + second),
     (False, 0x42 # replicate 9 0x41, unix_epoch + second + 100), (False, replicate 9 0x41 @ [0x42], unix_epoch + second + 200)]"

definition demo_sent :: "byte list list" where
  "demo_sent = sent 0 5 2 second demo_pictures"

lemma demo_stream: "validateDimensions 5 2" "pictures_ok 5 2 demo_pictures" "length demo_pictures < 2 ^ 32"
proof -
  show "pictures_ok 5 2 demo_pictures"
    by (simp add: pictures_ok_def demo_pictures_def list_all_iff printable_def)
qed (simp_all add: validateDimensions_def MaxColumns_def MaxRows_def demo_pictures_def)

theorem stream_in_order_witness:
  "list_all2 (exact_frame 5 2 (pictures demo_pictures)) [0 ..< 3] (decode_run new_decoder demo_sent)"
proof -
  have "length demo_pictures = 3" by (simp add: demo_pictures_def)
  with stream_in_order[OF demo_stream, of 0 second] show ?thesis by (simp only: demo_sent_def)
qed

theorem stream_under_faults_witness:
  "list_all2 (\<lambda>k r. r = Inl ErrNeedsKeyframe \<or> exact_frame 5 2 (pictures demo_pictures) k r) [1, 0, 2, 1]
    (decode_run new_decoder (map (\<lambda>k. demo_sent ! k) [1, 0, 2, 1]))"
proof -
  have "\<forall>k \<in> set [1, 0, 2, 1]. k < length demo_pictures" by (simp add: demo_pictures_def)
  from stream_under_faults[OF demo_stream this, of 0 second] show ?thesis unfolding demo_sent_def .
qed

definition demo_cut :: "byte list" where
  "demo_cut = (case marshal FrameDelta 2 (unix_epoch + second) 5 2 (delta_entry 5 [0x58, 0x59] @ [0, 0])
     of Inr data \<Rightarrow> data | Inl err \<Rightarrow> [])"

definition demo_decoder :: decoder where
  "demo_decoder = fst (Decode (demo_sent ! 0) new_decoder)"

fun shown_cells :: "frame_error + frame \<Rightarrow> byte list option" where
  "shown_cells (Inr f) = Some (fr_Cells f)"
| "shown_cells (Inl err) = None"

text \<open>
  The exactness rests on the frames being genuine.  A delta whose first entry is
  sound and whose end is cut off is refused, but leaves its cells behind: the genuine frame with
  the same number is then accepted and shown on top of them.
\<close>

theorem refused_delta_leaves_cells:
  "snd (Decode demo_cut demo_decoder) = Inl ErrInvalidFrame \<and>
   shown_cells (snd (Decode (demo_sent ! 1) demo_decoder)) =
     Some [0x42, 0x41, 0x41, 0x41, 0x41, 0x41, 0x41, 0x41, 0x41, 0x41] \<and>
   shown_cells (snd (Decode (demo_sent ! 1) (fst (Decode demo_cut demo_decoder)))) =
     Some [0x42, 0x41, 0x41, 0x41, 0x41, 0x58, 0x59, 0x41, 0x41, 0x41]"
proof (intro conjI)
  show "snd (Decode demo_cut demo_decoder) = Inl ErrInvalidFrame" by code_simp
  show "shown_cells (snd (Decode (demo_sent ! 1) demo_decoder)) =
     Some [0x42, 0x41, 0x41, 0x41, 0x41, 0x41, 0x41, 0x41, 0x41, 0x41]" by code_simp
  show "shown_cells (snd (Decode (demo_sent ! 1) (fst (Decode demo_cut demo_decoder)))) =
     Some [0x42, 0x41, 0x41, 0x41, 0x41, 0x58, 0x59, 0x41, 0x41, 0x41]" by code_simp
qed

lemma charset_printable: "list_all (\<lambda>c. printable (word_of_nat (of_char c))) DefaultCharset"
  by code_simp

lemma gray_cell_printable: "printable (gray_cell pixels w row column)"
proof -
  define b where "b = (unat (pixels ! ((row * 2) * w + column)) + unat (pixels ! ((row * 2 + 1) * w + column))) div 2"
  have u: "unat x \<le> 255" for x :: byte
  proof -
    have "unat x < 2 ^ LENGTH(8)" by (rule unsigned_less)
    then show ?thesis by simp
  qed
  have "b \<le> 255" unfolding b_def using u[of "pixels ! ((row * 2) * w + column)"] u[of "pixels ! ((row * 2 + 1) * w + column)"]
    by linarith
  moreover have "length DefaultCharset = 23" by (simp add: DefaultCharset_def)
  ultimately have "b * (length DefaultCharset - 1) div 255 < length DefaultCharset" by simp
  with charset_printable show ?thesis
    unfolding gray_cell_def Let_def b_def[symmetric] by (simp add: list_all_length)
qed

text \<open>
  Converting an image of the declared size succeeds, reads only inside the image, and
  gives one printable cell per column and row, so the encoder accepts it.
\<close>

theorem from_gray_accepted:
  assumes "int (length pixels) = columns * (rows * 2)" "0 \<le> columns" "0 \<le> rows"
  shows "\<exists>cells. FromGray pixels columns (rows * 2) columns rows = Inr cells \<and>
    int (length cells) = columns * rows \<and> list_all printable cells \<and>
    (\<forall>row < nat rows. \<forall>column < nat columns. (row * 2 + 1) * nat columns + column < length pixels)"
proof -
  define cells where "cells = concat (map (\<lambda>row. map (\<lambda>column. gray_cell pixels (nat columns) row column)
       [0 ..< nat columns]) [0 ..< nat rows])"
  have "length cells = nat columns * nat rows"
    by (simp add: cells_def length_concat comp_def sum_list_triv mult.commute)
  then have len: "int (length cells) = columns * rows" using assms(2,3) by simp
  have "(row * 2 + 1) * nat columns + column < length pixels" if "row < nat rows" "column < nat columns" for row column
  proof -
    have "(row * 2 + 1) * nat columns + column < (row * 2 + 2) * nat columns" using that(2) by simp
    also have "\<dots> \<le> (nat rows * 2) * nat columns" using that(1) by (intro mult_right_mono) auto
    also have "int ((nat rows * 2) * nat columns) = int (length pixels)" using assms by (simp add: algebra_simps)
    then have "(nat rows * 2) * nat columns = length pixels" by linarith
    finally show ?thesis .
  qed
  then show ?thesis
    using assms len by (auto simp: FromGray_def cells_def[symmetric] list_all_iff)
      (auto simp: cells_def gray_cell_printable)
qed

theorem from_gray_accepted_witness:
  "\<exists>cells. FromGray [0, 255, 255, 255] 2 2 2 1 = Inr cells \<and> list_all printable cells"
  using from_gray_accepted[of "[0, 255, 255, 255]" 2 1] by auto

end
