(* ===== verification/Session.thy ===== *)
theory Session
  imports Call_Setup Terminal Ascii_Codec
begin

text \<open>
  A running call, \<open>runSession\<close> of \<open>internal/client/app/app.go\<close>: one step per case of its select
  loop.  What the step does to the outside (signals, control messages, media, the screen) is
  appended to a trace; whether an attempt succeeds is a reading of the step.  A case whose channel
  is nil does not happen.  Status texts of the user interface are left out.
\<close>

subsection \<open>State\<close>

datatype session_error = ContextEnded | SignalingEnded | NegotiationClosed | PeerConnectionClosed | PeerReported peer_error
  | NotRecovered | ForwardFailed | BadPeerSignal | ApplyFailed peer_error | NegotiationTimedOut | ServerReported app_error
  | ControlFailed peer_error | BadPayload | EncoderRefused | RestartFailed | LineFailed

text \<open>Attempts carry whether they succeeded.\<close>

datatype session_effect = SignalSent signal_type "string option" bool | ControlSent control_message bool
  | VideoSent "byte list" | AudioSent | SignalApplied peer_signal | ICERestarted | RouteConnected | Drawn string
  | LocalShown string | RemoteShown string | Flushed | CameraOpened int int int

record session_config =
  sc_audio :: bool
  sc_video :: bool
  sc_columns :: int
  sc_rows :: int
  sc_fps :: int
  sc_reconnect :: duration
  sc_terminal :: "(int \<times> int) option"

record session =
  se_config :: session_config
  se_role :: role
  se_callID :: string
  se_remote :: string
  se_capabilities :: capabilities
  se_muted :: bool
  se_controlOpen :: bool
  se_route :: string
  se_audioPackets :: bool
  se_videoFrames :: bool
  se_camera :: bool
  se_encoder :: "encoder option"
  se_decoder :: decoder
  se_picture :: video
  se_keyframeRequested :: bool
  se_pendingPeerError :: "session_error option"
  se_peerErrorDeadline :: "time option"
  se_reconnectDeadline :: "time option"
  se_restartAttempted :: bool
  se_signalingAvailable :: bool
  se_ended :: bool
  se_out :: "session_effect list"
  se_result :: "session_error option option"

text \<open>
  What a step reads: the time, an identifier, whether signals go out (and the deferred one), what
  the peer's \<open>Send\<close> and \<open>ApplySignal\<close> return, whether ICE restarts and whether the camera opens.
\<close>

record session_readings =
  rr_now :: time
  rr_uuid :: string
  rr_sends :: bool
  rr_deferred :: bool
  rr_queue :: "control_message \<Rightarrow> peer_error option"
  rr_apply :: "peer_signal \<Rightarrow> peer_error option"
  rr_restarts :: bool
  rr_camera :: bool

definition DefaultColumns :: int where "DefaultColumns = MaxColumns"
definition DefaultRows :: int where "DefaultRows = MaxRows"

definition localCapabilities :: "session_config \<Rightarrow> capabilities" where
  "localCapabilities c = (
     let caps = \<lparr>cap_TextChat = True, cap_ASCIIVideo = sc_video c, cap_ASCIIColumns = 0, cap_ASCIIRows = 0, cap_ASCIIFPS = 0,
           cap_Audio = sc_audio c\<rparr> in
     if \<not> sc_video c then caps
     else caps\<lparr>
       cap_ASCIIColumns := (if sc_columns c < 1 \<or> sc_columns c > MaxColumns then DefaultColumns else sc_columns c),
       cap_ASCIIRows := (if sc_rows c < 1 \<or> sc_rows c > MaxRows then DefaultRows else sc_rows c),
       cap_ASCIIFPS := (if sc_fps c < 1 \<or> sc_fps c > 30 then 15 else sc_fps c)\<rparr>)"

definition emit :: "session_effect \<Rightarrow> session \<Rightarrow> session" where
  "emit e s = s\<lparr>se_out := se_out s @ [e]\<rparr>"

text \<open>A return, with the deferred end of the call.\<close>

definition session_return :: "session_readings \<Rightarrow> session_error option \<Rightarrow> session \<Rightarrow> session" where
  "session_return rd e s = (
     let s = s\<lparr>se_result := Some e\<rparr> in
     if \<not> se_ended s \<and> se_signalingAvailable s then emit (SignalSent SignalCallEnd None (rr_deferred rd)) s else s)"

text \<open>
  The state when the loop is entered: the peer exists, the caller's offer is on its way, and
  \<open>microphone\<close> says whether capture started.
\<close>

definition session_start :: "session_config \<Rightarrow> role \<Rightarrow> string \<Rightarrow> string \<Rightarrow> bool \<Rightarrow> session" where
  "session_start c r callID remote microphone = (
     let caps = localCapabilities c;
         caps = (if cap_ASCIIVideo caps then (case VideoSize (sc_terminal c) (cap_ASCIIColumns caps) (cap_ASCIIRows caps) of
             (columns, rows) \<Rightarrow> caps\<lparr>cap_ASCIIColumns := columns, cap_ASCIIRows := rows\<rparr>) else caps) in
     \<lparr>se_config = (if sc_reconnect c \<le> 0 then c\<lparr>sc_reconnect := 20 * second\<rparr> else c), se_role = r, se_callID = callID,
      se_remote = remote, se_capabilities = caps, se_muted = False, se_controlOpen = False, se_route = ''unknown'',
      se_audioPackets = (sc_audio c \<and> microphone), se_videoFrames = False, se_camera = False, se_encoder = None,
      se_decoder = new_decoder, se_picture = empty_video, se_keyframeRequested = False, se_pendingPeerError = None,
      se_peerErrorDeadline = None, se_reconnectDeadline = None, se_restartAttempted = False, se_signalingAvailable = True,
      se_ended = False, se_out = [], se_result = None\<rparr>)"

definition newControl :: "session_readings \<Rightarrow> control_type \<Rightarrow> string \<Rightarrow> control_message" where
  "newControl rd t payload = \<lparr>cm_version = ProtocolVersion, cm_id = rr_uuid rd, cm_type = t, cm_sent_at = rr_now rd, cm_payload = payload\<rparr>"

text \<open>\<open>peerConnection.Send\<close>, whose failure ends the session or is ignored.\<close>

definition send_control :: "session_readings \<Rightarrow> control_message \<Rightarrow> session \<Rightarrow> session \<times> peer_error option" where
  "send_control rd m s = (let e = rr_queue rd m in (emit (ControlSent m (e = None)) s, e))"

definition must_send :: "session_readings \<Rightarrow> control_message \<Rightarrow> (session \<Rightarrow> session) \<Rightarrow> session \<Rightarrow> session" where
  "must_send rd m continue s = (case send_control rd m s of
       (s, Some e) \<Rightarrow> session_return rd (Some (ControlFailed e)) s
     | (s, None) \<Rightarrow> continue s)"

definition send_signal :: "session_readings \<Rightarrow> signal_type \<Rightarrow> string option \<Rightarrow> session \<Rightarrow> session" where
  "send_signal rd t payload s = emit (SignalSent t payload (rr_sends rd)) s"

subsection \<open>The cases of the loop\<close>

definition on_signaling_error :: "session_readings \<Rightarrow> session \<Rightarrow> session" where
  "on_signaling_error rd s = (if \<not> se_controlOpen s then session_return rd (Some SignalingEnded) s
     else s\<lparr>se_signalingAvailable := False\<rparr>)"

text \<open>A camera frame, \<open>None\<close> when capture stopped.\<close>

record camera_frame =
  vf_Pixels :: "byte list"
  vf_Width :: int
  vf_Height :: int
  vf_Timestamp :: time

definition on_camera :: "session_readings \<Rightarrow> camera_frame option \<Rightarrow> session \<Rightarrow> session" where
  "on_camera rd input s = (case input of
       None \<Rightarrow> s\<lparr>se_videoFrames := False\<rparr>
     | Some f \<Rightarrow> (case FromGray (vf_Pixels f) (vf_Width f) (vf_Height f) (vf_Width f) (vf_Height f div 2) of
           Inl e \<Rightarrow> s
         | Inr cells \<Rightarrow> (case se_encoder s of
               None \<Rightarrow> s
             | Some enc \<Rightarrow> (case Encode (rr_now rd) cells (vf_Timestamp f) enc of
                   (enc, Inl e) \<Rightarrow> s\<lparr>se_encoder := Some enc\<rparr>
                 | (enc, Inr data) \<Rightarrow> emit (VideoSent data) (s\<lparr>se_encoder := Some enc\<rparr>)))))"

definition on_microphone :: "bool \<Rightarrow> session \<Rightarrow> session" where
  "on_microphone ok s = (if \<not> ok then s\<lparr>se_audioPackets := False\<rparr> else if \<not> se_muted s then emit AudioSent s else s)"

definition on_peer_signal :: "session_readings \<Rightarrow> peer_signal \<Rightarrow> session \<Rightarrow> session" where
  "on_peer_signal rd p s = (case forwardPeerSignal p of
       Inl e \<Rightarrow> session_return rd (Some ForwardFailed) s
     | Inr (t, payload) \<Rightarrow>
         let s = send_signal rd t payload s in if rr_sends rd then s else session_return rd (Some ForwardFailed) s)"

definition cell_chars :: "byte list \<Rightarrow> string" where
  "cell_chars = map (\<lambda>b. char_of (unat b))"

definition on_video :: "session_readings \<Rightarrow> byte list \<Rightarrow> session \<Rightarrow> session" where
  "on_video rd data s = (case Decode data (se_decoder s) of
       (d, Inl e) \<Rightarrow>
         let s = s\<lparr>se_decoder := d\<rparr> in
         if e = ErrNeedsKeyframe \<and> se_controlOpen s \<and> \<not> se_keyframeRequested s
         then fst (send_control rd (newControl rd ControlVideoKeyframe []) (s\<lparr>se_keyframeRequested := True\<rparr>)) else s
     | (d, Inr f) \<Rightarrow>
         let s = s\<lparr>se_decoder := d, se_keyframeRequested := (if fr_Type f = FrameKey then False else se_keyframeRequested s)\<rparr>;
             (picture, output) = RenderVideo (sc_terminal (se_config s) \<noteq> None) (fr_Columns f) (fr_Rows f) (cell_chars (fr_Cells f)) (se_picture s)
         in emit (Drawn output) (s\<lparr>se_picture := picture\<rparr>))"

text \<open>A message from signaling, \<open>None\<close> when its channel is closed.\<close>

definition on_signal :: "session_readings \<Rightarrow> signal_message option \<Rightarrow> session \<Rightarrow> session" where
  "on_signal rd input s = (case input of
       None \<Rightarrow> if \<not> se_controlOpen s then session_return rd (Some NegotiationClosed) s else s\<lparr>se_signalingAvailable := False\<rparr>
     | Some m \<Rightarrow>
         if sm_call_id m \<noteq> [] \<and> sm_call_id m \<noteq> se_callID s then s
         else if sm_type m \<in> set [SignalWebRTCOffer, SignalWebRTCAnswer, SignalWebRTCICE, SignalWebRTCICEComplete] then
           (case decodePeerSignal (sm_type m) (sm_payload m) of
              Inl e \<Rightarrow> session_return rd (Some BadPeerSignal) s
            | Inr p \<Rightarrow> (case rr_apply rd p of
                Some e \<Rightarrow> session_return rd (Some (ApplyFailed e)) s
              | None \<Rightarrow> emit (SignalApplied p) s))
         else (case sm_type m of
             SignalCallEnd \<Rightarrow> session_return rd None (s\<lparr>se_ended := True\<rparr>)
           | SignalCallTimeout \<Rightarrow> session_return rd (Some NegotiationTimedOut) (s\<lparr>se_ended := True\<rparr>)
           | SignalSessionError \<Rightarrow> session_return rd (Some (ServerReported (signalingError m))) s
           | _ \<Rightarrow> s))"

definition unmarshal_hello :: "string \<Rightarrow> capabilities option" where
  "unmarshal_hello raw = decodeJSON (store_struct (\<lambda>n raw. store_struct store_capabilities capability_fields False)
     [''capabilities''] False) raw empty_capabilities"

definition unmarshal_chat :: "string \<Rightarrow> string option" where
  "unmarshal_chat raw = decodeJSON (store_struct (\<lambda>n raw. get_string) [''text''] False) raw []"

definition unmarshal_audio :: "string \<Rightarrow> bool option" where
  "unmarshal_audio raw = decodeJSON (store_struct (\<lambda>n raw. get_bool) [''muted''] False) raw False"

definition on_hello :: "session_readings \<Rightarrow> capabilities \<Rightarrow> session \<Rightarrow> session" where
  "on_hello rd hello s = (
     if sc_video (se_config s) \<and> cap_ASCIIVideo hello \<and> \<not> se_videoFrames s \<and> \<not> se_camera s then
       let columns = min (cap_ASCIIColumns (se_capabilities s)) (cap_ASCIIColumns hello);
           rows = min (cap_ASCIIRows (se_capabilities s)) (cap_ASCIIRows hello);
           fps = min (cap_ASCIIFPS (se_capabilities s)) (cap_ASCIIFPS hello) in
       (case NewEncoder columns rows (2 * second) of
          None \<Rightarrow> session_return rd (Some EncoderRefused) (s\<lparr>se_encoder := None\<rparr>)
        | Some enc \<Rightarrow>
            let s = s\<lparr>se_encoder := Some enc\<rparr> in
            if rr_camera rd then emit (CameraOpened columns rows fps) (s\<lparr>se_camera := True, se_videoFrames := True\<rparr>) else s)
     else s)"

definition on_control :: "session_readings \<Rightarrow> control_message \<Rightarrow> session \<Rightarrow> session" where
  "on_control rd m s = (case cm_type m of
       ControlPeerHello \<Rightarrow> (case unmarshal_hello (cm_payload m) of
           None \<Rightarrow> session_return rd (Some BadPayload) s | Some hello \<Rightarrow> on_hello rd hello s)
     | ControlChatMessage \<Rightarrow> (case unmarshal_chat (cm_payload m) of
           None \<Rightarrow> session_return rd (Some BadPayload) s | Some text \<Rightarrow> emit (RemoteShown (ui_remote (se_remote s) text)) s)
     | ControlSessionHangup \<Rightarrow>
         if \<not> se_signalingAvailable s then session_return rd None (s\<lparr>se_ended := True\<rparr>)
         else let s = send_signal rd SignalCallEnd None s in
           session_return rd None (if rr_sends rd then s\<lparr>se_ended := True\<rparr> else s)
     | ControlVideoKeyframe \<Rightarrow> s\<lparr>se_encoder := map_option ForceKeyframe (se_encoder s)\<rparr>
     | ControlAudioState \<Rightarrow> (case unmarshal_audio (cm_payload m) of
           None \<Rightarrow> session_return rd (Some BadPayload) s | Some muted \<Rightarrow> s)
     | OtherControl _ \<Rightarrow> s)"

definition start_reconnect :: "session_readings \<Rightarrow> session \<Rightarrow> session" where
  "start_reconnect rd s = (if se_reconnectDeadline s = None
     then s\<lparr>se_reconnectDeadline := Some (rr_now rd + sc_reconnect (se_config s))\<rparr> else s)"

definition set_peer_error :: "session_readings \<Rightarrow> session_error \<Rightarrow> session \<Rightarrow> session" where
  "set_peer_error rd e s = (if se_pendingPeerError s = None
     then s\<lparr>se_pendingPeerError := Some e, se_peerErrorDeadline := Some (rr_now rd + second div 2)\<rparr> else s)"

definition on_connection :: "session_readings \<Rightarrow> connection_state \<Rightarrow> string \<Rightarrow> session \<Rightarrow> session" where
  "on_connection rd st route s = (
     let s = s\<lparr>se_route := route\<rparr> in
     case st of
       ConnConnected \<Rightarrow> emit RouteConnected (s\<lparr>se_reconnectDeadline := None, se_restartAttempted := False\<rparr>)
     | ConnDisconnected \<Rightarrow> start_reconnect rd s
     | ConnFailed \<Rightarrow>
         let s = start_reconnect rd s in
         if se_role s = RoleCaller \<and> se_signalingAvailable s \<and> \<not> se_restartAttempted s
         then let s = s\<lparr>se_restartAttempted := True\<rparr> in
           if rr_restarts rd then emit ICERestarted s else session_return rd (Some RestartFailed) s
         else s
     | ConnClosed \<Rightarrow> set_peer_error rd PeerConnectionClosed s
     | _ \<Rightarrow> s)"

definition on_peer_event :: "session_readings \<Rightarrow> peer_event \<Rightarrow> session \<Rightarrow> session" where
  "on_peer_event rd e s = (case e of
       EventControlOpen \<Rightarrow> must_send rd (newControl rd ControlPeerHello (marshal_hello (se_capabilities s))) (\<lambda>s. s)
         (s\<lparr>se_controlOpen := True\<rparr>)
     | EventControlMessage m \<Rightarrow> on_control rd m s
     | EventVideoOpen \<Rightarrow> s
     | EventAudioOpen \<Rightarrow> s
     | EventConnectionState st route \<Rightarrow> on_connection rd st route s
     | EventError err \<Rightarrow> if err = ErrVideoChannel then s else set_peer_error rd (PeerReported err) s)"

text \<open>A typed line; the width is the terminal's.\<close>

definition on_line :: "session_readings \<Rightarrow> string \<Rightarrow> session \<Rightarrow> session" where
  "on_line rd text s = (
     if text = [] \<or> text = ''/status'' then s
     else if text = ''/mute'' \<or> text = ''m'' then
       (if \<not> sc_audio (se_config s) then s
        else let s = s\<lparr>se_muted := \<not> se_muted s\<rparr> in
          must_send rd (newControl rd ControlAudioState (marshal_audio_state (se_muted s))) (\<lambda>s. s) s)
     else if text = ''/quit'' then
       let s = (if se_controlOpen s then emit Flushed (fst (send_control rd (newControl rd ControlSessionHangup []) s)) else s) in
       if se_signalingAvailable s then
         (let s = send_signal rd SignalCallEnd None s in
          if rr_sends rd then session_return rd None (s\<lparr>se_ended := True\<rparr>) else session_return rd (Some ForwardFailed) s)
       else session_return rd None (s\<lparr>se_ended := True\<rparr>)
     else if \<not> se_controlOpen s then s
     else if length text > MaxChatTextSize then s
     else must_send rd (newControl rd ControlChatMessage (marshal_chat text))
       (emit (LocalShown (ui_local (map_option fst (sc_terminal (se_config s))) text))) s)"

datatype session_input = InCancelled | InSignalingError | InPeerErrorTimer | InReconnectTimer
  | InCamera "camera_frame option" | InMicrophone bool | InPeerSignal peer_signal | InVideo "byte list"
  | InSignal "signal_message option" | InPeerEvent peer_event | InLine string | InLineError | InLinesClosed

text \<open>Whether a case can happen: its channel is not nil, its timer has run out.\<close>

fun can_happen :: "session_readings \<Rightarrow> session \<Rightarrow> session_input \<Rightarrow> bool" where
  "can_happen rd s InSignalingError = se_signalingAvailable s"
| "can_happen rd s (InPeerSignal p) = se_signalingAvailable s"
| "can_happen rd s (InSignal m) = se_signalingAvailable s"
| "can_happen rd s InPeerErrorTimer = (case se_peerErrorDeadline s of None \<Rightarrow> False | Some d \<Rightarrow> d \<le> rr_now rd)"
| "can_happen rd s InReconnectTimer = (case se_reconnectDeadline s of None \<Rightarrow> False | Some d \<Rightarrow> d \<le> rr_now rd)"
| "can_happen rd s (InCamera f) = se_videoFrames s"
| "can_happen rd s (InMicrophone ok) = se_audioPackets s"
| "can_happen rd s i = True"

fun session_case :: "session_readings \<Rightarrow> session_input \<Rightarrow> session \<Rightarrow> session" where
  "session_case rd InCancelled s = session_return rd (Some ContextEnded) s"
| "session_case rd InSignalingError s = on_signaling_error rd s"
| "session_case rd InPeerErrorTimer s = session_return rd (se_pendingPeerError s) s"
| "session_case rd InReconnectTimer s = session_return rd (Some NotRecovered) s"
| "session_case rd (InCamera f) s = on_camera rd f s"
| "session_case rd (InMicrophone ok) s = on_microphone ok s"
| "session_case rd (InPeerSignal p) s = on_peer_signal rd p s"
| "session_case rd (InVideo data) s = on_video rd data s"
| "session_case rd (InSignal m) s = on_signal rd m s"
| "session_case rd (InPeerEvent e) s = on_peer_event rd e s"
| "session_case rd (InLine text) s = on_line rd text s"
| "session_case rd InLineError s = session_return rd (Some LineFailed) s"
| "session_case rd InLinesClosed s = session_return rd None s"

definition session_step :: "session_readings \<Rightarrow> session_input \<Rightarrow> session \<Rightarrow> session" where
  "session_step rd i s = (if se_result s = None \<and> can_happen rd s i then session_case rd i s else s)"

definition session_run :: "(session_readings \<times> session_input) list \<Rightarrow> session \<Rightarrow> session" where
  "session_run steps s = fold (\<lambda>(rd, i). session_step rd i) steps s"

subsection \<open>What each case leaves alone\<close>

text \<open>The attempts to send signals, and among them those to end the call.\<close>

definition is_signal :: "session_effect \<Rightarrow> bool" where
  "is_signal e \<longleftrightarrow> (case e of SignalSent t p ok \<Rightarrow> True | _ \<Rightarrow> False)"

definition is_end :: "session_effect \<Rightarrow> bool" where
  "is_end e \<longleftrightarrow> (case e of SignalSent t p ok \<Rightarrow> t = SignalCallEnd | _ \<Rightarrow> False)"

lemma effect_kinds [simp]:
  "is_signal (SignalSent t p ok)" "is_end (SignalSent t p ok) = (t = SignalCallEnd)"
  "\<not> is_signal (ControlSent m k)" "\<not> is_signal (VideoSent d)" "\<not> is_signal AudioSent" "\<not> is_signal (SignalApplied q)"
  "\<not> is_signal ICERestarted" "\<not> is_signal RouteConnected" "\<not> is_signal (Drawn x)" "\<not> is_signal (LocalShown x)"
  "\<not> is_signal (RemoteShown x)" "\<not> is_signal Flushed" "\<not> is_signal (CameraOpened a b c)"
  by (simp_all add: is_signal_def is_end_def)

lemma end_is_signal: "is_end e \<Longrightarrow> is_signal e"
  by (cases e) (simp_all add: is_end_def)

lemma emit_fields [simp]:
  "se_out (emit e s) = se_out s @ [e]" "se_signalingAvailable (emit e s) = se_signalingAvailable s" "se_ended (emit e s) = se_ended s"
  "se_result (emit e s) = se_result s" "se_role (emit e s) = se_role s" "se_restartAttempted (emit e s) = se_restartAttempted s"
  "se_controlOpen (emit e s) = se_controlOpen s"
  by (simp_all add: emit_def)

text \<open>A case that sends no signal, returns nothing and does not look at the end of the call.\<close>

definition silent :: "session \<Rightarrow> session \<Rightarrow> bool" where
  "silent s s' \<longleftrightarrow> se_result s' = se_result s \<and> se_ended s' = se_ended s \<and>
     (\<exists>es. se_out s' = se_out s @ es \<and> filter is_signal es = [])"

definition leaves :: "session_readings \<Rightarrow> session \<Rightarrow> session \<Rightarrow> bool" where
  "leaves rd s s' \<longleftrightarrow> silent s s' \<or> (\<exists>e u. silent s u \<and> se_signalingAvailable u = se_signalingAvailable s \<and> s' = session_return rd e u)"

lemma silent_refl: "silent s s" by (simp add: silent_def)

lemma silent_trans: "silent s t \<Longrightarrow> silent t u \<Longrightarrow> silent s u"
  by (auto simp: silent_def)

lemma silent_emit: "\<not> is_signal e \<Longrightarrow> silent s (emit e s)"
  by (simp add: silent_def)

lemma silent_update:
  assumes "se_result s' = se_result s" "se_ended s' = se_ended s" "se_out s' = se_out s"
  shows "silent s s'"
  using assms by (simp add: silent_def)

lemma leaves_silent: "silent s s' \<Longrightarrow> leaves rd s s'" by (simp add: leaves_def)

lemma leaves_return: "leaves rd s (session_return rd e s)"
  using silent_refl by (auto simp: leaves_def)

lemma leaves_trans:
  assumes "silent s t" "se_signalingAvailable t = se_signalingAvailable s" "leaves rd t u"
  shows "leaves rd s u"
  using assms unfolding leaves_def by (metis silent_trans)

lemma must_send_leaves:
  assumes "\<And>s. silent s (k s)"
  shows "leaves rd s (must_send rd m k s)"
proof -
  let ?s = "emit (ControlSent m (rr_queue rd m = None)) s"
  have "silent s ?s" by (rule silent_emit) simp
  moreover have "leaves rd ?s (must_send rd m k s)"
    using leaves_return[of rd ?s] leaves_silent[OF assms, of rd ?s]
    by (cases "rr_queue rd m") (simp_all add: must_send_def send_control_def Let_def)
  ultimately show ?thesis using leaves_trans[of s ?s] by simp
qed

lemma media_leaves:
  "leaves rd s (on_camera rd f s)" "leaves rd s (on_microphone ok s)" "leaves rd s (on_video rd data s)"
proof -
  have cam: "silent s (emit (VideoSent d) (s\<lparr>se_encoder := x\<rparr>))" for d x by (simp add: silent_def)
  show "leaves rd s (on_camera rd f s)"
    unfolding on_camera_def
    by (rule leaves_silent) (auto simp: silent_def split: option.split sum.split prod.split)
  show "leaves rd s (on_microphone ok s)"
    unfolding on_microphone_def by (rule leaves_silent) (auto simp: silent_def)
  show "leaves rd s (on_video rd data s)"
    unfolding on_video_def
    by (rule leaves_silent) (auto simp: silent_def send_control_def Let_def split: sum.split prod.split)
qed

lemma connection_leaves: "leaves rd s (on_connection rd st route s)"
proof -
  have r: "silent s (start_reconnect rd (s\<lparr>se_route := route\<rparr>))"
    "se_signalingAvailable (start_reconnect rd (s\<lparr>se_route := route\<rparr>)) = se_signalingAvailable s"
    by (simp_all add: silent_def start_reconnect_def)
  let ?u = "(start_reconnect rd (s\<lparr>se_route := route\<rparr>))\<lparr>se_restartAttempted := True\<rparr>"
  have u: "silent s ?u" "se_signalingAvailable ?u = se_signalingAvailable s"
    by (simp_all add: silent_def start_reconnect_def)
  have "leaves rd s (session_return rd (Some RestartFailed) ?u)" by (rule leaves_trans[OF u leaves_return])
  moreover have "leaves rd s (emit ICERestarted ?u)" using u by (intro leaves_silent) (auto simp: silent_def)
  ultimately show ?thesis
    using leaves_silent[OF r(1)]
    by (cases st) (auto simp: on_connection_def Let_def set_peer_error_def intro!: leaves_silent simp: silent_def)
qed

lemma hello_leaves: "leaves rd s (on_hello rd hello s)"
proof -
  have "leaves rd s (session_return rd e (s\<lparr>se_encoder := x\<rparr>))" for e x
    by (rule leaves_trans[OF _ _ leaves_return]) (simp_all add: silent_def)
  moreover have "leaves rd s (s\<lparr>se_encoder := x\<rparr>)" "leaves rd s (emit (CameraOpened a b c) (s\<lparr>se_encoder := x, se_camera := u, se_videoFrames := v\<rparr>))"
    for x a b c u v by (rule leaves_silent, simp add: silent_def)+
  ultimately show ?thesis using leaves_silent[OF silent_refl] by (simp add: on_hello_def Let_def split: option.split)
qed

text \<open>Ending the call from here, hearing of its end, and passing on a signal of the peer.\<close>

definition ends_call :: "session_readings \<Rightarrow> session \<Rightarrow> session \<Rightarrow> bool" where
  "ends_call rd s s' \<longleftrightarrow> (\<exists>u e. silent s u \<and> se_signalingAvailable u = se_signalingAvailable s \<and>
     (if \<not> se_signalingAvailable s then s' = session_return rd e (u\<lparr>se_ended := True\<rparr>)
      else if rr_sends rd then s' = session_return rd e ((send_signal rd SignalCallEnd None u)\<lparr>se_ended := True\<rparr>)
      else s' = session_return rd e (send_signal rd SignalCallEnd None u)))"

definition hears_end :: "session_readings \<Rightarrow> session \<Rightarrow> session \<Rightarrow> bool" where
  "hears_end rd s s' \<longleftrightarrow> (\<exists>e. s' = session_return rd e (s\<lparr>se_ended := True\<rparr>))"

definition passes_on :: "session_readings \<Rightarrow> session \<Rightarrow> session \<Rightarrow> bool" where
  "passes_on rd s s' \<longleftrightarrow> (\<exists>t p. t \<noteq> SignalCallEnd \<and>
     (s' = emit (SignalSent t p (rr_sends rd)) s \<or> (\<exists>e. s' = session_return rd e (emit (SignalSent t p (rr_sends rd)) s))))"

definition end_heard :: "session_input \<Rightarrow> bool" where
  "end_heard i \<longleftrightarrow> (case i of InSignal (Some m) \<Rightarrow> sm_type m = SignalCallEnd \<or> sm_type m = SignalCallTimeout | _ \<Rightarrow> False)"

lemma forward_kind: "forwardPeerSignal p = Inr (t, payload) \<Longrightarrow> t \<noteq> SignalCallEnd"
  by (auto simp: forwardPeerSignal_def split: option.splits if_splits)

lemma peer_signal_outcome: "leaves rd s (on_peer_signal rd p s) \<or> passes_on rd s (on_peer_signal rd p s)"
proof (cases "forwardPeerSignal p")
  case (Inl e)
  then show ?thesis using leaves_return by (simp add: on_peer_signal_def)
next
  case (Inr x)
  obtain t payload where x: "x = (t, payload)" by (cases x)
  have "passes_on rd s (on_peer_signal rd p s)"
    using forward_kind[of p t payload] Inr by (auto simp: on_peer_signal_def x passes_on_def send_signal_def Let_def)
  then show ?thesis ..
qed

lemma signal_outcome: "leaves rd s (on_signal rd input s) \<or> hears_end rd s (on_signal rd input s) \<and> end_heard (InSignal input)"
proof (cases input)
  case None
  have "leaves rd s (s\<lparr>se_signalingAvailable := False\<rparr>)" by (rule leaves_silent) (simp add: silent_def)
  then show ?thesis using leaves_return by (simp add: on_signal_def None)
next
  case (Some m)
  have keep: "leaves rd s s" "leaves rd s (session_return rd e s)" "leaves rd s (emit (SignalApplied q) s)" for e q
    using leaves_silent[OF silent_refl] leaves_return leaves_silent[OF silent_emit] by simp_all
  have over: "hears_end rd s (session_return rd e (s\<lparr>se_ended := True\<rparr>))" for e by (auto simp: hears_end_def)
  show ?thesis
    using keep over by (cases "sm_type m") (auto simp: on_signal_def Some end_heard_def split: sum.split option.split)
qed

lemma hangup_outcome:
  assumes "silent s u" "se_signalingAvailable u = se_signalingAvailable s"
  shows "ends_call rd s (if \<not> se_signalingAvailable u then session_return rd e (u\<lparr>se_ended := True\<rparr>)
    else if rr_sends rd then session_return rd e ((send_signal rd SignalCallEnd None u)\<lparr>se_ended := True\<rparr>)
    else session_return rd e' (send_signal rd SignalCallEnd None u))"
  using assms by (auto simp: ends_call_def)

lemma control_outcome: "leaves rd s (on_control rd m s) \<or> ends_call rd s (on_control rd m s)"
proof (cases "cm_type m")
  case ControlSessionHangup
  then show ?thesis
    using hangup_outcome[OF silent_refl, of s rd None None] by (auto simp: on_control_def Let_def)
next
  case ControlVideoKeyframe
  have "leaves rd s (s\<lparr>se_encoder := map_option ForceKeyframe (se_encoder s)\<rparr>)" by (rule leaves_silent) (simp add: silent_def)
  then show ?thesis by (simp add: on_control_def ControlVideoKeyframe)
qed (use leaves_return hello_leaves leaves_silent[OF silent_refl] leaves_silent[OF silent_emit] in
    \<open>simp_all add: on_control_def split: option.split\<close>)

lemma line_outcome: "leaves rd s (on_line rd text s) \<or> ends_call rd s (on_line rd text s)"
proof (cases "text = ''/quit''")
  case True
  let ?u = "if se_controlOpen s then emit Flushed (fst (send_control rd (newControl rd ControlSessionHangup []) s)) else s"
  have u: "silent s ?u" "se_signalingAvailable ?u = se_signalingAvailable s"
    by (simp_all add: silent_def send_control_def Let_def)
  from hangup_outcome[OF u, of rd None "Some ForwardFailed"] show ?thesis
    by (simp add: on_line_def True Let_def split: if_splits)
next
  case False
  have mute: "leaves rd s (must_send rd m (\<lambda>s. s) (s\<lparr>se_muted := b\<rparr>))" for m b
    by (rule leaves_trans[OF _ _ must_send_leaves]) (simp_all add: silent_def)
  have chat: "leaves rd s (must_send rd m (emit (LocalShown x)) s)" for m x
    by (rule must_send_leaves) (simp add: silent_emit)
  show ?thesis using False mute chat leaves_silent[OF silent_refl] by (simp add: on_line_def Let_def)
qed

lemma event_outcome: "leaves rd s (on_peer_event rd e s) \<or> ends_call rd s (on_peer_event rd e s)"
proof (cases e)
  case EventControlOpen
  have "leaves rd s (must_send rd m (\<lambda>s. s) (s\<lparr>se_controlOpen := True\<rparr>))" for m
    by (rule leaves_trans[OF _ _ must_send_leaves]) (simp_all add: silent_def)
  then show ?thesis by (simp add: on_peer_event_def EventControlOpen)
next
  case (EventError x)
  have "leaves rd s (set_peer_error rd y s)" for y by (rule leaves_silent) (simp add: set_peer_error_def silent_def)
  then show ?thesis using leaves_silent[OF silent_refl] by (simp add: on_peer_event_def EventError)
qed (use control_outcome connection_leaves leaves_silent[OF silent_refl] in \<open>simp_all add: on_peer_event_def\<close>)

lemma case_outcome:
  assumes "can_happen rd s i"
  shows "leaves rd s (session_case rd i s) \<or> ends_call rd s (session_case rd i s) \<or>
    hears_end rd s (session_case rd i s) \<and> end_heard i \<or> passes_on rd s (session_case rd i s) \<and> se_signalingAvailable s"
proof (cases i)
  case InSignalingError
  have "leaves rd s (s\<lparr>se_signalingAvailable := False\<rparr>)" by (rule leaves_silent) (simp add: silent_def)
  then show ?thesis using leaves_return by (simp add: InSignalingError on_signaling_error_def)
next
  case (InPeerSignal p)
  then show ?thesis using peer_signal_outcome[of rd s p] assms by auto
next
  case (InSignal m)
  then show ?thesis using signal_outcome[of rd s m] by auto
next
  case (InPeerEvent e)
  then show ?thesis using event_outcome[of rd s e] by auto
next
  case (InLine x)
  then show ?thesis using line_outcome[of rd s x] by auto
qed (simp_all add: leaves_return media_leaves)

subsection \<open>Losing the signaling connection\<close>

lemma leaves_signals:
  assumes "leaves rd s s'" "\<not> se_signalingAvailable s"
  shows "filter is_signal (se_out s') = filter is_signal (se_out s)"
  using assms by (auto simp: leaves_def silent_def session_return_def Let_def)

lemma step_signals:
  assumes "\<not> se_signalingAvailable s"
  shows "filter is_signal (se_out (session_step rd i s)) = filter is_signal (se_out s)"
proof (cases "se_result s = None \<and> can_happen rd s i")
  case True
  have "filter is_signal (se_out s') = filter is_signal (se_out s)" if "ends_call rd s s'" for s'
    using that assms by (auto simp: ends_call_def silent_def session_return_def Let_def)
  moreover have "filter is_signal (se_out s') = filter is_signal (se_out s)" if "hears_end rd s s'" for s'
    using that assms by (auto simp: hears_end_def session_return_def Let_def)
  ultimately show ?thesis
    using case_outcome[of rd s i] leaves_signals[OF _ assms, of rd] True assms by (auto simp: session_step_def)
next
  case False
  then show ?thesis unfolding session_step_def by (simp only: if_False)
qed

text \<open>Signaling, once lost, stays lost; and a case before the loss leaves it to be lost.\<close>

lemma return_available [simp]: "se_signalingAvailable (session_return rd e s) = se_signalingAvailable s"
  by (simp add: session_return_def Let_def)

lemma small_available [simp]:
  "se_signalingAvailable (start_reconnect rd s) = se_signalingAvailable s"
  "se_signalingAvailable (set_peer_error rd x s) = se_signalingAvailable s"
  "se_signalingAvailable (send_signal rd t p s) = se_signalingAvailable s"
  "se_signalingAvailable (fst (send_control rd m s)) = se_signalingAvailable s"
  by (simp_all add: start_reconnect_def set_peer_error_def send_signal_def send_control_def Let_def)

lemma must_send_available:
  "(\<And>s. se_signalingAvailable (k s) = se_signalingAvailable s) \<Longrightarrow>
    se_signalingAvailable (must_send rd m k s) = se_signalingAvailable s"
  by (simp add: must_send_def send_control_def Let_def split: option.split)

lemma control_available [simp]: "se_signalingAvailable (on_control rd m s) = se_signalingAvailable s"
  by (cases "cm_type m") (auto simp: on_control_def on_hello_def Let_def split: option.split)

lemma event_available [simp]: "se_signalingAvailable (on_peer_event rd e s) = se_signalingAvailable s"
proof (cases e)
  case (EventConnectionState st route)
  then show ?thesis by (cases st) (auto simp: on_peer_event_def on_connection_def Let_def)
qed (simp_all add: on_peer_event_def must_send_available)

lemma line_available [simp]: "se_signalingAvailable (on_line rd text s) = se_signalingAvailable s"
  by (simp add: on_line_def Let_def must_send_available)

lemma media_available [simp]:
  "se_signalingAvailable (on_camera rd f s) = se_signalingAvailable s"
  "se_signalingAvailable (on_microphone ok s) = se_signalingAvailable s"
  "se_signalingAvailable (on_video rd data s) = se_signalingAvailable s"
  "se_signalingAvailable (on_peer_signal rd p s) = se_signalingAvailable s"
  by (simp_all add: on_camera_def on_microphone_def on_video_def on_peer_signal_def Let_def
      split: option.split sum.split prod.split)

lemma stays_unavailable:
  assumes "\<not> se_signalingAvailable s"
  shows "\<not> se_signalingAvailable (session_step rd i s)"
proof (cases "se_result s = None \<and> can_happen rd s i")
  case True
  then show ?thesis using assms unfolding session_step_def by (cases i) simp_all
next
  case False
  then show ?thesis using assms unfolding session_step_def by (simp only: if_False simp_thms)
qed

end
