(* ===== verification/Launcher.thy ===== *)
theory Launcher
  imports Encoding
begin

text \<open>
  The window opened for an incoming call, \<open>internal/client/launcher/launcher.go\<close>: which terminal
  program is chosen and the arguments it is started with.  The search path is a function from names
  to paths, the environment and the operating system are arguments.
\<close>

datatype launch_error = MissingArguments | ErrNoTerminal

record command =
  co_Program :: string
  co_Args :: "string list"

text \<open>\<open>filepath.Base\<close> of a Unix path.\<close>

definition path_base :: "string \<Rightarrow> string" where
  "path_base path = (if path = [] then ''.'' else
     let trimmed = rev (dropWhile (\<lambda>c. c = CHR ''/'') (rev path)) in
     if trimmed = [] then ''/'' else rev (takeWhile (\<lambda>c. c \<noteq> CHR ''/'') (rev trimmed)))"

definition terminalPrefix :: "string \<Rightarrow> string list" where
  "terminalPrefix program = (
     let base = path_base program in
     if base = ''wezterm'' then [''start'', ''--'']
     else if base \<in> set [''alacritty'', ''konsole'', ''xterm''] then [''-e'']
     else if base \<in> set [''foot'', ''gnome-terminal''] then [''--'']
     else [])"

definition macOS_script :: string where
  "macOS_script = concat (map (\<lambda>l. l @ [CHR 0x0A])
     [''on run argv'', ''set executablePath to item 1 of argv'', ''set callID to item 2 of argv'', ''tell application '' @ [CHR 0x22] @ ''Terminal'' @ [CHR 0x22],
      ''activate'', ''do script (quoted form of executablePath) & '' @ [CHR 0x22] @ '' answer '' @ [CHR 0x22] @ '' & (quoted form of callID)'', ''end tell'']) @ ''end run''"

definition macOSTerminalCommand :: "string \<Rightarrow> string \<Rightarrow> string \<Rightarrow> command" where
  "macOSTerminalCommand osascript executable callID =
     \<lparr>co_Program = osascript, co_Args = [''-e'', macOS_script, ''--'', executable, callID]\<rparr>"

definition candidates :: "string \<Rightarrow> string \<Rightarrow> string list" where
  "candidates configured TERMINAL = [configured, TERMINAL, ''kitty'', ''wezterm'', ''alacritty'', ''foot'', ''gnome-terminal'', ''konsole'', ''xterm'']"

text \<open>A candidate that can be used: one word that is found.\<close>

definition usable_program :: "(string \<Rightarrow> string option) \<Rightarrow> string \<Rightarrow> (string \<times> string) option" where
  "usable_program lookup candidate = (
     let program = trim_space candidate in
     if program = [] \<or> list_ex (\<lambda>c. c \<in> {CHR 0x0D, CHR 0x0A, CHR 0x09, CHR '' ''}) program then None
     else map_option (\<lambda>path. (program, path)) (lookup program))"

fun first_program :: "(string \<Rightarrow> string option) \<Rightarrow> string list \<Rightarrow> (string \<times> string) option" where
  "first_program lookup [] = None"
| "first_program lookup (c # cs) = (case usable_program lookup c of Some r \<Rightarrow> Some r | None \<Rightarrow> first_program lookup cs)"

definition launch_Resolve ::
  "string \<Rightarrow> bool \<Rightarrow> string \<Rightarrow> string \<Rightarrow> string \<Rightarrow> (string \<Rightarrow> string option) \<Rightarrow> launch_error + command" where
  "launch_Resolve TERMINAL darwin configured executable callID lookup = (
     if executable = [] \<or> callID = [] then Inl MissingArguments
     else (case first_program lookup (candidates configured TERMINAL) of
         Some (program, path) \<Rightarrow> Inr \<lparr>co_Program = path, co_Args = terminalPrefix program @ [executable, ''answer'', callID]\<rparr>
       | None \<Rightarrow>
           if darwin then (case lookup ''osascript'' of
               Some path \<Rightarrow> Inr (macOSTerminalCommand path executable callID)
             | None \<Rightarrow> Inl ErrNoTerminal)
           else Inl ErrNoTerminal))"

text \<open>\<open>Launch\<close>: the program's own path, \<open>None\<close> when it is not found, and whether the process starts.\<close>

datatype launch_failure = NoExecutable | NotResolved launch_error | NotStarted

definition launch_Launch ::
  "string option \<Rightarrow> bool \<Rightarrow> string \<Rightarrow> bool \<Rightarrow> string \<Rightarrow> string \<Rightarrow> (string \<Rightarrow> string option) \<Rightarrow> launch_failure + command" where
  "launch_Launch own starts TERMINAL darwin configured callID lookup = (case own of
       None \<Rightarrow> Inl NoExecutable
     | Some executable \<Rightarrow> (case launch_Resolve TERMINAL darwin configured executable callID lookup of
         Inl e \<Rightarrow> Inl (NotResolved e)
       | Inr command' \<Rightarrow> if starts then Inr command' else Inl NotStarted))"

subsection \<open>What is started\<close>

lemma first_program_found:
  "first_program lookup cs = Some (program, path) \<Longrightarrow>
   \<exists>before c after. cs = before @ c # after \<and> usable_program lookup c = Some (program, path) \<and>
     (\<forall>b \<in> set before. usable_program lookup b = None)"
proof (induction cs)
  case (Cons c cs)
  show ?case
  proof (cases "usable_program lookup c")
    case None
    with Cons obtain before d after where "cs = before @ d # after" "usable_program lookup d = Some (program, path)"
      "\<forall>b \<in> set before. usable_program lookup b = None" by auto
    with None show ?thesis by (intro exI[of _ "c # before"] exI[of _ d] exI[of _ after]) simp
  next
    case (Some r)
    with Cons.prems show ?thesis by (intro exI[of _ "[]"] exI[of _ c] exI[of _ cs]) simp
  qed
qed simp

text \<open>
  What is started for a call is either the first candidate that is one word and found, with only
  options fixed for its kind before the executable, or the fixed script of macOS; in both cases
  the executable and the call identifier are arguments of their own, unchanged, so that nothing in
  them is split or interpreted, and nothing follows the identifier.
\<close>

theorem launched_command:
  assumes "launch_Resolve TERMINAL darwin configured executable callID lookup = Inr cmd"
  shows "(\<exists>c program. c \<in> set (candidates configured TERMINAL) \<and> program = trim_space c \<and> lookup program = Some (co_Program cmd) \<and>
      list_all (\<lambda>c. c \<noteq> CHR '' '') program \<and> co_Args cmd = terminalPrefix program @ [executable, ''answer'', callID] \<and>
      set (terminalPrefix program) \<subseteq> {''start'', ''--'', ''-e''}) \<or>
    darwin \<and> lookup ''osascript'' = Some (co_Program cmd) \<and> co_Args cmd = [''-e'', macOS_script, ''--'', executable, callID] \<and>
      (\<forall>c \<in> set (candidates configured TERMINAL). usable_program lookup c = None)"
proof (cases "first_program lookup (candidates configured TERMINAL)")
  case None
  have "\<forall>c \<in> set cs. usable_program lookup c = None" if "first_program lookup cs = None" for cs
    using that by (induction cs) (auto split: option.splits)
  with None assms show ?thesis
    by (auto simp: launch_Resolve_def macOSTerminalCommand_def split: if_splits option.splits)
next
  case (Some r)
  obtain program path where r: "r = (program, path)" by (cases r)
  from first_program_found[OF Some[unfolded r]] obtain before c after where
    "candidates configured TERMINAL = before @ c # after" and u: "usable_program lookup c = Some (program, path)" by blast
  then have c: "c \<in> set (candidates configured TERMINAL)" "usable_program lookup c = Some (program, path)" by simp_all
  have "cmd = \<lparr>co_Program = path, co_Args = terminalPrefix program @ [executable, ''answer'', callID]\<rparr>"
    using assms Some r by (auto simp: launch_Resolve_def split: if_splits)
  moreover have "set (terminalPrefix program) \<subseteq> {''start'', ''--'', ''-e''}" by (auto simp: terminalPrefix_def Let_def)
  moreover have "program = trim_space c" "lookup program = Some path" "list_all (\<lambda>c. c \<noteq> CHR '' '') program"
    using c(2) by (auto simp: usable_program_def Let_def list_all_iff list_ex_iff split: if_splits)
  ultimately show ?thesis using c(1) by auto
qed

theorem launched_command_witness:
  "launch_Resolve ''xterm -hold'' False '' foot '' ''/usr/bin/termcall'' ''id;rm'' (\<lambda>p. Some (''/bin/'' @ p)) =
     Inr \<lparr>co_Program = ''/bin/foot'', co_Args = [''--'', ''/usr/bin/termcall'', ''answer'', ''id;rm'']\<rparr> \<and>
   (\<exists>c \<in> set (candidates '' foot '' ''xterm -hold''). list_all (\<lambda>c. c \<noteq> CHR '' '') (trim_space c))"
proof -
  have r: "launch_Resolve ''xterm -hold'' False '' foot '' ''/usr/bin/termcall'' ''id;rm'' (\<lambda>p. Some (''/bin/'' @ p)) =
     Inr \<lparr>co_Program = ''/bin/foot'', co_Args = [''--'', ''/usr/bin/termcall'', ''answer'', ''id;rm'']\<rparr>" by code_simp
  from launched_command[OF r] r show ?thesis by auto
qed

end
