(* ===== verification/Command_Line.thy ===== *)
theory Command_Line
  imports Init_Command Daemon_Client Call_Setup Session Launcher
begin

text \<open>
  The commands of \<open>termcall\<close>, \<open>cmd/termcall/main.go\<close>, up to the point where the daemon or a call takes
  over: which command the arguments name, its flags, the profile and identity it loads, and the
  configuration it hands on.  A command is a function of its arguments and of the files; what it
  prints is left out.
\<close>

subsection \<open>Choosing a command\<close>

datatype trust_command = TrustKey | UntrustKey | BlockKey | UnblockKey

datatype action = ShowVersion | ShowUsage | UsageError | RunInit "string list" | RunIdentity "string list"
  | RunTrust "string list" trust_command | RunDaemon "string list" | RunIncoming "string list" bool
  | RunListen "string list" | RunChat "string list" | RunDevices | RunDoctor

text \<open>\<open>main\<close>, from the arguments with the program's name in front.\<close>

definition main_action :: "string list \<Rightarrow> action" where
  "main_action args = (
     if length args = 2 \<and> (args ! 1 = ''--version'' \<or> args ! 1 = ''version'') then ShowVersion
     else if length args < 2 then UsageError
     else
       let name = args ! 1; rest = drop 2 args in
       if name = ''init'' then RunInit rest
       else if name = ''identity'' then RunIdentity rest
       else if name = ''trust'' then RunTrust rest TrustKey
       else if name = ''untrust'' then RunTrust rest UntrustKey
       else if name = ''block'' then RunTrust rest BlockKey
       else if name = ''unblock'' then RunTrust rest UnblockKey
       else if name = ''daemon'' then RunDaemon rest
       else if name = ''answer'' then RunIncoming rest False
       else if name = ''decline'' then RunIncoming rest True
       else if name = ''listen'' then RunListen rest
       else if name = ''chat'' then RunChat rest
       else if name = ''devices'' then (if length args \<noteq> 2 then UsageError else RunDevices)
       else if name = ''doctor'' then (if length args \<noteq> 2 then UsageError else RunDoctor)
       else if name \<in> set [''help'', ''--help'', ''-h''] then ShowUsage
       else UsageError)"

subsection \<open>Identity and trust\<close>

datatype command_error = CommandUsage | BadCommandFlags flag_error | NotReady start_error | TrustNotOpened trust_error
  | TrustNotSaved trust_error | HandoffFailed handoff_error | WrongDaemon

text \<open>The address and the fingerprint that are printed.\<close>

definition runIdentity :: "crypto \<Rightarrow> client_paths \<Rightarrow> string list \<Rightarrow> (string \<rightharpoonup> disk_file) \<Rightarrow> command_error + string \<times> string" where
  "runIdentity cr paths arguments fs = (
     if length arguments \<noteq> 0 then Inl CommandUsage
     else (case loadProfileIdentity cr paths fs of
         Inl e \<Rightarrow> Inl (NotReady e)
       | Inr (v, localIdentity) \<Rightarrow> Inr (pl_Address v, Fingerprint cr (PublicKey localIdentity))))"

definition runTrustCommand :: "bool \<Rightarrow> string list \<Rightarrow> trust_command \<Rightarrow> trust_file option \<Rightarrow> (command_error + string) \<times> trust_file option" where
  "runTrustCommand fails arguments command' f = (
     if length arguments \<noteq> 1 then (Inl CommandUsage, f)
     else (case OpenTrustStoreFile f of
         Inl e \<Rightarrow> (Inl (TrustNotOpened e), f)
       | Inr rs \<Rightarrow> (case (case command' of
               TrustKey \<Rightarrow> SetTrusted fails (arguments ! 0) True rs f
             | UntrustKey \<Rightarrow> SetTrusted fails (arguments ! 0) False rs f
             | BlockKey \<Rightarrow> SetBlockedFingerprint fails (arguments ! 0) True rs f
             | UnblockKey \<Rightarrow> SetBlockedFingerprint fails (arguments ! 0) False rs f) of
             (Inl e, rs, f) \<Rightarrow> (Inl (TrustNotSaved e), f)
           | (Inr (r, Some e), rs, f) \<Rightarrow> (Inl (TrustNotSaved e), f)
           | (Inr (r, None), rs, f) \<Rightarrow> (Inr (tr_Fingerprint r), f))))"

subsection \<open>The daemon\<close>

record daemon_options =
  do_socket :: string
  do_incoming :: string
  do_dnd :: bool
  do_terminal :: string
  do_detached :: bool

definition daemon_defaults :: "string \<Rightarrow> daemon_options" where
  "daemon_defaults socket = \<lparr>do_socket = socket, do_incoming = BehaviorOpenTerminal, do_dnd = False, do_terminal = [], do_detached = False\<rparr>"

definition daemon_flags :: "string \<rightharpoonup> daemon_options flag" where
  "daemon_flags = [
     ''socket'' \<mapsto> string_flag (\<lambda>v s. s\<lparr>do_socket := v\<rparr>),
     ''incoming'' \<mapsto> string_flag (\<lambda>v s. s\<lparr>do_incoming := v\<rparr>),
     ''do-not-disturb'' \<mapsto> BoolFlag (\<lambda>v s. s\<lparr>do_dnd := v\<rparr>),
     ''terminal'' \<mapsto> string_flag (\<lambda>v s. s\<lparr>do_terminal := v\<rparr>),
     ''detached'' \<mapsto> BoolFlag (\<lambda>v s. s\<lparr>do_detached := v\<rparr>)]"

definition daemonChildArguments :: "string \<Rightarrow> string \<Rightarrow> bool \<Rightarrow> string \<Rightarrow> string list" where
  "daemonChildArguments socketPath incoming dnd terminalCommand =
     [''daemon'', ''--socket'', socketPath, ''--incoming'', incoming] @
     (if dnd then [''--do-not-disturb''] else []) @
     (if terminalCommand \<noteq> [] then [''--terminal'', terminalCommand] else [])"

record daemon_trust =
  dt_guard :: replay_guard
  dt_records :: trust_records
  dt_file :: "trust_file option"

text \<open>What a daemon is started with: its configuration, terminal program, connection and trust store.\<close>

datatype daemon_start = Detach "string list" | Serve daemon_config string connect_config daemon_trust

definition runDaemon ::
  "crypto \<Rightarrow> client_paths \<Rightarrow> string \<Rightarrow> string list \<Rightarrow> (string \<rightharpoonup> disk_file) \<Rightarrow> trust_file option \<Rightarrow> command_error + daemon_start" where
  "runDaemon cr paths socketDefault arguments fs f = (case parse_flags daemon_flags arguments (daemon_defaults socketDefault) of
       Inl e \<Rightarrow> Inl (BadCommandFlags e)
     | Inr (opts, rest) \<Rightarrow>
         if length rest \<noteq> 0 then Inl CommandUsage
         else if do_detached opts
         then Inr (Detach (daemonChildArguments (do_socket opts) (do_incoming opts) (do_dnd opts) (do_terminal opts)))
         else (case loadProfileIdentity cr paths fs of
             Inl e \<Rightarrow> Inl (NotReady e)
           | Inr (v, localIdentity) \<Rightarrow> (case OpenTrustStoreFile f of
               Inl e \<Rightarrow> Inl (TrustNotOpened e)
             | Inr rs \<Rightarrow> Inr (Serve
                 \<lparr>dc_Username = pl_Address v, dc_SocketPath = do_socket opts, dc_Behavior = do_incoming opts, dc_DoNotDisturb = do_dnd opts,
                  dc_InviteLimit = 0, dc_InviteWindow = 0, dc_ReconnectMin = 0, dc_ReconnectMax = 0, dc_StableConnection = 0\<rparr>
                 (do_terminal opts) (connect_config_of v localIdentity) \<lparr>dt_guard = replay_new, dt_records = rs, dt_file = f\<rparr>))))"

text \<open>The check of an invitation that \<open>runDaemon\<close> gives its daemon, \<open>None\<close> when it passes.\<close>

definition daemon_verify :: "crypto \<Rightarrow> string \<Rightarrow> trust_readings \<Rightarrow> signal_message \<Rightarrow> daemon_trust \<Rightarrow> daemon_trust \<times> app_error option" where
  "daemon_verify cr serverURL rd invite dt = (case Verify cr invite (tr_verified rd) of
       Inl e \<Rightarrow> (dt, Some (BadProof e))
     | Inr (proof, publicKey, fingerprint) \<Rightarrow>
         let (guard, fresh) = replay_accept fingerprint (pf_Nonce proof) (pf_ExpiresAt proof) (tr_accepted rd) (dt_guard dt);
             dt = dt\<lparr>dt_guard := guard\<rparr> in
         if \<not> fresh then (dt, Some ReplayedProof)
         else
           let (result, rs, f) = Observe cr (tr_save_fails rd) serverURL (sm_from invite) publicKey (dt_records dt) (dt_file dt);
               dt = dt\<lparr>dt_records := rs, dt_file := f\<rparr> in
           (case result of
              Inl e \<Rightarrow> (dt, Some (TrustFailed e))
            | Inr (r, reused, Some e) \<Rightarrow> (dt, Some (TrustFailed e))
            | Inr (r, reused, None) \<Rightarrow> (dt, if tr_Blocked r then Some (BlockedIdentity fingerprint) else None)))"

subsection \<open>Calls\<close>

record media_options =
  mo_video :: bool
  mo_camera :: string
  mo_columns :: int
  mo_rows :: int
  mo_fps :: int
  mo_audio :: bool
  mo_microphone :: string
  mo_speaker :: string
  mo_bitrate :: int
  mo_relayOnly :: bool
  mo_stun :: "string list"
  mo_socket :: string

definition media_defaults :: "string \<Rightarrow> media_options" where
  "media_defaults socket = \<lparr>mo_video = True, mo_camera = [], mo_columns = DefaultColumns, mo_rows = DefaultRows, mo_fps = 15,
     mo_audio = True, mo_microphone = [], mo_speaker = [], mo_bitrate = 32000, mo_relayOnly = False, mo_stun = [], mo_socket = socket\<rparr>"

definition addMediaFlags :: "string \<rightharpoonup> media_options flag" where
  "addMediaFlags = [
     ''video'' \<mapsto> BoolFlag (\<lambda>v s. s\<lparr>mo_video := v\<rparr>),
     ''camera'' \<mapsto> string_flag (\<lambda>v s. s\<lparr>mo_camera := v\<rparr>),
     ''video-columns'' \<mapsto> int_flag (\<lambda>v s. s\<lparr>mo_columns := v\<rparr>),
     ''video-rows'' \<mapsto> int_flag (\<lambda>v s. s\<lparr>mo_rows := v\<rparr>),
     ''video-fps'' \<mapsto> int_flag (\<lambda>v s. s\<lparr>mo_fps := v\<rparr>),
     ''audio'' \<mapsto> BoolFlag (\<lambda>v s. s\<lparr>mo_audio := v\<rparr>),
     ''microphone'' \<mapsto> string_flag (\<lambda>v s. s\<lparr>mo_microphone := v\<rparr>),
     ''speaker'' \<mapsto> string_flag (\<lambda>v s. s\<lparr>mo_speaker := v\<rparr>),
     ''audio-bitrate'' \<mapsto> int_flag (\<lambda>v s. s\<lparr>mo_bitrate := v\<rparr>),
     ''relay-only'' \<mapsto> BoolFlag (\<lambda>v s. s\<lparr>mo_relayOnly := v\<rparr>)]"

definition stun_flag :: "media_options flag" where
  "stun_flag = string_flag (\<lambda>v s. s\<lparr>mo_stun := mo_stun s @ [v]\<rparr>)"

definition socket_flag :: "media_options flag" where
  "socket_flag = string_flag (\<lambda>v s. s\<lparr>mo_socket := v\<rparr>)"

text \<open>The configuration of a call: what its set-up and its session read of it, and the rest.\<close>

record call_config =
  kf_app :: app_config
  kf_accessKey :: string
  kf_stun :: "string list"
  kf_relayOnly :: bool
  kf_session :: session_config
  kf_camera :: string
  kf_microphone :: string
  kf_speaker :: string
  kf_bitrate :: int

text \<open>\<open>terminal_size\<close> is what the terminal reports when the session starts.\<close>

definition media_config :: "(int \<times> int) option \<Rightarrow> profile \<Rightarrow> identity \<Rightarrow> media_options \<Rightarrow> call_config" where
  "media_config terminal_size v localIdentity m = \<lparr>
     kf_app = \<lparr>ac_Address = pl_Address v, ac_ServerURL = pl_ServerURL v, ac_Identity = Some localIdentity\<rparr>,
     kf_accessKey = pl_AccessKey v, kf_stun = [], kf_relayOnly = mo_relayOnly m,
     kf_session = \<lparr>sc_audio = mo_audio m, sc_video = mo_video m, sc_columns = mo_columns m, sc_rows = mo_rows m, sc_fps = mo_fps m,
       sc_reconnect = 0, sc_terminal = terminal_size\<rparr>,
     kf_camera = mo_camera m, kf_microphone = mo_microphone m, kf_speaker = mo_speaker m, kf_bitrate = mo_bitrate m\<rparr>"

datatype call_start = StartListen call_config | StartChat call_config string | StartAnswer call_config daemon_client | StartDecline daemon_client

definition runListen :: "crypto \<Rightarrow> client_paths \<Rightarrow> (int \<times> int) option \<Rightarrow> string list \<Rightarrow> (string \<rightharpoonup> disk_file) \<Rightarrow> command_error + call_start" where
  "runListen cr paths size' arguments fs = (case parse_flags (addMediaFlags(''stun'' \<mapsto> stun_flag)) arguments (media_defaults []) of
       Inl e \<Rightarrow> Inl (BadCommandFlags e)
     | Inr (m, rest) \<Rightarrow>
         if length rest \<noteq> 0 then Inl CommandUsage
         else (case loadProfileIdentity cr paths fs of
             Inl e \<Rightarrow> Inl (NotReady e)
           | Inr (v, localIdentity) \<Rightarrow> Inr (StartListen ((media_config size' v localIdentity m)\<lparr>kf_stun := mo_stun m\<rparr>))))"

definition runChat :: "crypto \<Rightarrow> client_paths \<Rightarrow> (int \<times> int) option \<Rightarrow> string list \<Rightarrow> (string \<rightharpoonup> disk_file) \<Rightarrow> command_error + call_start" where
  "runChat cr paths size' arguments fs = (
     if arguments = [] \<or> prefix ''-'' (hd arguments) then Inl CommandUsage
     else (case parse_flags (addMediaFlags(''stun'' \<mapsto> stun_flag)) (tl arguments) (media_defaults []) of
         Inl e \<Rightarrow> Inl (BadCommandFlags e)
       | Inr (m, rest) \<Rightarrow>
           if length rest \<noteq> 0 then Inl CommandUsage
           else (case loadProfileIdentity cr paths fs of
               Inl e \<Rightarrow> Inl (NotReady e)
             | Inr (v, localIdentity) \<Rightarrow>
                 Inr (StartChat ((media_config size' v localIdentity m)\<lparr>kf_stun := mo_stun m\<rparr>) (hd arguments)))))"

text \<open>\<open>handoff\<close> is what connecting to the daemon gives, for a socket and a call.\<close>

definition runIncoming ::
  "crypto \<Rightarrow> client_paths \<Rightarrow> (int \<times> int) option \<Rightarrow> string \<Rightarrow> (string \<Rightarrow> string \<Rightarrow> handoff_error + daemon_client) \<Rightarrow>
   string list \<Rightarrow> bool \<Rightarrow> (string \<rightharpoonup> disk_file) \<Rightarrow> command_error + call_start" where
  "runIncoming cr paths size' socketDefault handoff arguments decline fs = (
     if arguments = [] \<or> prefix ''-'' (hd arguments) then Inl CommandUsage
     else
       let callID = hd arguments in
       (case parse_flags (addMediaFlags(''socket'' \<mapsto> socket_flag)) (tl arguments) (media_defaults socketDefault) of
          Inl e \<Rightarrow> Inl (BadCommandFlags e)
        | Inr (m, rest) \<Rightarrow>
            if length rest \<noteq> 0 then Inl CommandUsage
            else (case loadProfileIdentity cr paths fs of
                Inl e \<Rightarrow> Inl (NotReady e)
              | Inr (v, localIdentity) \<Rightarrow> (case handoff (mo_socket m) callID of
                  Inl e \<Rightarrow> Inl (HandoffFailed e)
                | Inr client \<Rightarrow>
                    if dl_username client \<noteq> pl_Address v then Inl WrongDaemon
                    else if decline then Inr (StartDecline client)
                    else Inr (StartAnswer (media_config size' v localIdentity m) client)))))"

subsection \<open>The processes the program starts itself\<close>

lemma daemon_flag_facts:
  "flag_name ''socket''" "flag_name ''incoming''" "flag_name ''do-not-disturb''" "flag_name ''terminal''" "flag_name ''detached''"
  "daemon_flags ''socket'' = Some (ValueFlag (\<lambda>v s. Some (s\<lparr>do_socket := v\<rparr>)))"
  "daemon_flags ''incoming'' = Some (ValueFlag (\<lambda>v s. Some (s\<lparr>do_incoming := v\<rparr>)))"
  "daemon_flags ''do-not-disturb'' = Some (BoolFlag (\<lambda>v s. s\<lparr>do_dnd := v\<rparr>))"
  "daemon_flags ''terminal'' = Some (ValueFlag (\<lambda>v s. Some (s\<lparr>do_terminal := v\<rparr>)))"
  by (simp_all add: flag_name_def daemon_flags_def string_flag_def)

lemmas daemon_arguments =
  parse_value_flag[where flags = daemon_flags and name = "''socket''", OF daemon_flag_facts(1) daemon_flag_facts(6)]
  parse_value_flag[where flags = daemon_flags and name = "''incoming''", OF daemon_flag_facts(2) daemon_flag_facts(7)]
  parse_bool_flag[where flags = daemon_flags and name = "''do-not-disturb''", OF daemon_flag_facts(3) daemon_flag_facts(8)]
  parse_value_flag[where flags = daemon_flags and name = "''terminal''", OF daemon_flag_facts(4) daemon_flag_facts(9)]

lemma child_options:
  "parse_flags daemon_flags (tl (daemonChildArguments socketPath incoming dnd terminalCommand)) (daemon_defaults default') =
     Inr (\<lparr>do_socket = socketPath, do_incoming = incoming, do_dnd = dnd, do_terminal = terminalCommand, do_detached = False\<rparr>, [])"
  by (simp add: daemonChildArguments_def daemon_arguments parse_no_flags daemon_defaults_def)

text \<open>
  A daemon told to detach starts itself again with arguments that mean the same: the child runs the
  daemon command with the options the parent was given, whatever their texts look like, and does not
  detach once more; so it ends as the parent would have without the flag.
\<close>

theorem detached_child_same_daemon:
  "main_action (executable # daemonChildArguments (do_socket opts) (do_incoming opts) (do_dnd opts) (do_terminal opts)) =
     RunDaemon (tl (daemonChildArguments (do_socket opts) (do_incoming opts) (do_dnd opts) (do_terminal opts))) \<and>
   parse_flags daemon_flags (tl (daemonChildArguments (do_socket opts) (do_incoming opts) (do_dnd opts) (do_terminal opts)))
     (daemon_defaults default') = Inr (opts\<lparr>do_detached := False\<rparr>, [])"
proof
  show "main_action (executable # daemonChildArguments (do_socket opts) (do_incoming opts) (do_dnd opts) (do_terminal opts)) =
     RunDaemon (tl (daemonChildArguments (do_socket opts) (do_incoming opts) (do_dnd opts) (do_terminal opts)))"
    by (simp add: main_action_def daemonChildArguments_def)
qed (cases opts; simp add: child_options)

subsection \<open>Invitations are checked alike by the daemon and by a call\<close>

text \<open>The trust state of a call that is given the daemon's store.\<close>

definition call_trust :: "daemon_trust \<Rightarrow> trust_state" where
  "call_trust dt = \<lparr>ts_guard = dt_guard dt, ts_records = Some (dt_records dt), ts_file = dt_file dt\<rparr>"

lemma Verify_fingerprint: "Verify cr m now = Inr (proof, key, fp) \<Longrightarrow> fp = Fingerprint cr key"
  by (auto simp: Verify_def Let_def split: option.splits if_splits)

lemma Observe_fingerprint: "Observe cr fails url a key rs f = (Inr (r, reused, err), rs', f') \<Longrightarrow> tr_Fingerprint r = Fingerprint cr key"
  by (auto simp: Observe_def Let_def observed_record_def split: if_splits prod.splits)

lemma daemon_verify_as_call:
  assumes "daemon_verify cr url rd m dt = (dt', None)"
  obtains key r reused where "verifyAndObserve cr url rd m (call_trust dt) = (call_trust dt', Inr (key, r, reused))" "\<not> tr_Blocked r"
  using assms
  by (auto simp: daemon_verify_def verifyAndObserve_def call_trust_def Let_def split: sum.splits prod.splits if_splits option.splits)

lemma handleInvite_shown:
  assumes "handleInvite cr rd fails verified now m s = (s', shown)" "shown \<noteq> Quiet \<or> ds_pending s' \<noteq> ds_pending s"
  shows "verified \<and> snd (allowInviteLocked (sm_from m) now s) \<and> ds_pending s (sm_call_id m) = None \<and>
    \<not> dc_DoNotDisturb (ds_config s) \<and> dc_Behavior (ds_config s) \<noteq> BehaviorIgnore \<and>
    ds_pending s' = (ds_pending s)(sm_call_id m \<mapsto> \<lparr>pc_invite = m, pc_claimed = False\<rparr>)"
proof -
  obtain s1 allowed where allow: "allowInviteLocked (sm_from m) now s = (s1, allowed)"
    by (cases "allowInviteLocked (sm_from m) now s")
  have s1: "ds_pending s1 = ds_pending s" "ds_config s1 = ds_config s"
    using allow by (auto simp: allowInviteLocked_def Let_def split: if_splits)
  show ?thesis
    using assms s1 unfolding handleInvite_def allow Let_def prod.case
    by (auto simp: daemon_send_effects allow split: if_splits)
qed

text \<open>
  C26: The daemon shows an invitation, or keeps it for a window, only when its proof verifies, is
  fresh and comes from an identity that is not blocked -- exactly what a call decides over the same
  trust store -- and when its caller is within the limit, no call with this identifier is pending and
  the user did not ask to be left alone.  Then this invitation, and nothing else, becomes pending.
\<close>

theorem daemon_admits_verified:
  assumes "daemon_verify cr url vrd m dt = (dt', err)" "handleInvite cr rd fails (err = None) now m s = (s', shown)"
    and "shown \<noteq> Quiet \<or> ds_pending s' \<noteq> ds_pending s"
  shows "\<exists>key r reused. verifyAndObserve cr url vrd m (call_trust dt) = (call_trust dt', Inr (key, r, reused)) \<and> \<not> tr_Blocked r \<and>
      snd (allowInviteLocked (sm_from m) now s) \<and> ds_pending s (sm_call_id m) = None \<and>
      \<not> dc_DoNotDisturb (ds_config s) \<and> dc_Behavior (ds_config s) \<noteq> BehaviorIgnore \<and>
      ds_pending s' = (ds_pending s)(sm_call_id m \<mapsto> \<lparr>pc_invite = m, pc_claimed = False\<rparr>)"
proof -
  note shown = handleInvite_shown[OF assms(2,3)]
  from shown assms(1) obtain key r reused
    where "verifyAndObserve cr url vrd m (call_trust dt) = (call_trust dt', Inr (key, r, reused))" "\<not> tr_Blocked r"
    using daemon_verify_as_call by (metis (full_types))
  with shown show ?thesis by blast
qed

subsection \<open>Blocking\<close>

lemma blocked_record:
  assumes "runTrustCommand fails arguments BlockKey f = (Inr fp, f')"
  obtains rs where "OpenTrustStoreFile f' = Inr rs" "tr_Blocked (record_of rs fp)"
proof -
  from assms obtain rs where "OpenTrustStoreFile f = Inr rs"
    and r: "\<exists>r rs'. SetBlockedFingerprint fails (arguments ! 0) True rs f = (Inr (r, None), rs', f') \<and> tr_Fingerprint r = fp"
    by (auto simp: runTrustCommand_def split: if_splits sum.splits prod.splits option.splits)
  then obtain rs' where "f' = Some \<lparr>tf_perm = 0x180, tf_content = Saved trustVersion (Some rs')\<rparr>" "tr_Blocked (record_of rs' fp)"
    by (auto simp: SetBlockedFingerprint_def saveLocked_def Let_def split: sum.splits if_splits)
  then show thesis by (intro that[of rs']) (simp_all add: OpenTrustStoreFile_def)
qed

lemma observed_keeps_block:
  assumes "fst (Observe cr fails url a key rs f) = Inr (r, reused, err)" "tr_Blocked (record_of rs (Fingerprint cr key))"
  shows "tr_Blocked r"
  using assms by (auto simp: Observe_def Let_def observed_record_def split: if_splits prod.splits)

lemma answer_start_deciding:
  assumes "cs_phase (answer_start cr c rd m ts) = Deciding"
  shows "\<exists>ts' key r reused. verifyAndObserve cr (ac_ServerURL c) (sr_trust rd) m ts = (ts', Inr (key, r, reused)) \<and> \<not> tr_Blocked r"
  using assms by (auto simp: answer_start_def Let_def split: sum.splits prod.splits if_splits)

lemma fresh_store_observed:
  assumes "verifyAndObserve cr url rd m ts = (ts', Inr (key, r, reused))" "ts_records ts = None" "OpenTrustStoreFile (ts_file ts) = Inr rs"
  obtains pf other err where "Verify cr m (tr_verified rd) = Inr (pf, key, other)"
    "fst (Observe cr (tr_save_fails rd) url (sm_from m) key rs (ts_file ts)) = Inr (r, reused, err)"
  using assms by (auto simp: verifyAndObserve_def Let_def split: sum.splits prod.splits if_splits option.splits)


subsection \<open>Answering in a window\<close>

text \<open>The arguments the launcher passes name the call to answer.\<close>

lemma window_action: "main_action [executable, ''answer'', callID] = RunIncoming [callID] False"
  by (simp add: main_action_def)

text \<open>
  A window answers or declines only the call that was asked for, handed over by a daemon that
  speaks for the saved profile, whose address is one that proofs under the saved identity may use; and
  it then works for that address, that identity and that server.
\<close>

theorem window_acts_for_profile:
  assumes "crypto_laws cr"
    and "runIncoming cr paths size' socketDefault (\<lambda>socket callID. daemon_Connect socket callID dials writes answer) arguments decline fs = Inr start"
  shows "\<exists>v i client m. loadProfileIdentity cr paths fs = Inr (v, i) \<and> AddressMatchesKey cr (pl_Address v) (PublicKey i) \<and>
    dl_username client = pl_Address v \<and> sm_call_id (dl_invite client) = hd arguments \<and>
    start = (if decline then StartDecline client else StartAnswer (media_config size' v i m) client) \<and>
    kf_app (media_config size' v i m) = \<lparr>ac_Address = pl_Address v, ac_ServerURL = pl_ServerURL v, ac_Identity = Some i\<rparr>"
proof -
  from assms(2) obtain m v i client where load: "loadProfileIdentity cr paths fs = Inr (v, i)"
    and client: "daemon_Connect (mo_socket m) (hd arguments) dials writes answer = Inr client" "dl_username client = pl_Address v"
    and start: "start = (if decline then StartDecline client else StartAnswer (media_config size' v i m) client)"
    by (auto simp: runIncoming_def Let_def split: if_splits sum.splits prod.splits)
  have "sm_call_id (dl_invite client) = hd arguments"
    using client(1) by (auto simp: daemon_Connect_def split: if_splits option.splits)
  moreover have "AddressMatchesKey cr (pl_Address v) (PublicKey i)"
    using load by (intro profile_address_matches[OF assms(1)]) (auto simp: loadProfileIdentity_def split: sum.splits option.splits)
  ultimately show ?thesis using load client(2) start by (auto simp: media_config_def)
qed

subsection \<open>Instances\<close>

definition demo_store :: daemon_trust where
  "demo_store = \<lparr>dt_guard = replay_new, dt_records = fmempty, dt_file = None\<rparr>"

definition demo_client_readings :: client_readings where
  "demo_client_readings = \<lparr>cr_uuid = demo_uuid, cr_nonce = demo_uuid, cr_created = demo_now, cr_signed = demo_now, cr_checked = demo_now\<rparr>"

theorem daemon_admits_verified_witness:
  "\<exists>dt s. daemon_verify demo_crypto ''wss://example'' (sr_trust demo_setup) demo_invite demo_store = (dt, None) \<and>
     handleInvite demo_crypto demo_client_readings False True demo_now demo_invite (new_service demo_daemon) = (s, Announced) \<and>
     ds_pending s = [demo_uuid \<mapsto> \<lparr>pc_invite = demo_invite, pc_claimed = False\<rparr>]"
proof -
  obtain guard where "replay_accept (Fingerprint demo_crypto (PublicKey demo_identity)) (pf_Nonce demo_proof) (pf_ExpiresAt demo_proof)
      demo_now replay_new = (guard, True)"
    by (simp add: replay_accept_def replay_new_def replay_prune_def replay_capacity_def Let_def fcard_fempty)
  then obtain dt where dt: "daemon_verify demo_crypto ''wss://example'' (sr_trust demo_setup) demo_invite demo_store = (dt, None)"
    using demo_invite_verified
    by (simp add: daemon_verify_def demo_setup_def demo_store_def Observe_def record_of_def no_record_def saveLocked_def
        observed_record_def Let_def)
  obtain s where s: "handleInvite demo_crypto demo_client_readings False True demo_now demo_invite (new_service demo_daemon) = (s, Announced)"
    by (simp add: handleInvite_def new_service_def allowInviteLocked_def demo_daemon_def Let_def BehaviorPrint_def BehaviorIgnore_def)
  have "handleInvite demo_crypto demo_client_readings False (None = (None :: app_error option)) demo_now demo_invite (new_service demo_daemon) = (s, Announced)"
    using s by simp
  from daemon_admits_verified[OF dt this] have "ds_pending s = [demo_uuid \<mapsto> \<lparr>pc_invite = demo_invite, pc_claimed = False\<rparr>]"
    by (auto simp: new_service_def demo_invite_fields)
  with dt s show ?thesis by blast
qed

definition demo_blocked :: string where "demo_blocked = Fingerprint demo_crypto (PublicKey demo_identity)"

lemma resolve_demo_blocked: "Resolve demo_blocked rs = Inr demo_blocked"
proof -
  have "to_lower (trim_space demo_blocked) = demo_blocked" "validFingerprintText demo_blocked" "length demo_blocked = 52" by code_simp+
  then show ?thesis by (simp add: Resolve_def)
qed


definition demo_files :: "string \<rightharpoonup> disk_file" where
  "demo_files = [''identity.json'' \<mapsto> \<lparr>f_perm = 0x180, f_data = stored_identity demo_identity\<rparr>,
     ''profile.json'' \<mapsto> \<lparr>f_perm = 0x180, f_data = stored_profile demo_profile\<rparr>]"

lemma demo_loaded: "loadProfileIdentity demo_crypto demo_paths demo_files = Inr (demo_profile, demo_identity)"
proof -
  have texts: "valid_utf8 (pl_ServerURL demo_profile)" "valid_utf8 (pl_AccessKey demo_profile)"
    unfolding demo_profile_def profile.simps by code_simp+
  have "profile_LoadFile ''profile.json'' demo_files = Inr demo_profile"
    by (rule load_saved[OF demo_profile_valid texts]) (simp add: demo_files_def)
  moreover have "LoadFile ''identity.json'' demo_files = Inr demo_identity"
    by (rule load_stored[OF demo_valid_identity]) (simp add: demo_files_def)
  moreover have "ValidateWithIdentity demo_crypto demo_profile demo_identity = None"
    using demo_canonical by (simp add: ValidateWithIdentity_def demo_profile_valid) (simp add: demo_profile_def)
  ultimately show ?thesis by (simp add: loadProfileIdentity_def demo_paths_def)
qed

theorem window_acts_for_profile_witness:
  "\<exists>start. runIncoming demo_crypto demo_paths None ''sock''
       (\<lambda>socket callID. daemon_Connect socket callID True True
          (Some (empty_wire\<lparr>w_Kind := ''ready'', w_Username := demo_caller, w_Invite := demo_invite\<rparr>)))
       [demo_uuid] False demo_files = Inr start \<and>
     (\<exists>client m. start = StartAnswer (media_config None demo_profile demo_identity m) client \<and> sm_call_id (dl_invite client) = demo_uuid)"
proof -
  have caller: "demo_caller \<noteq> []" by code_simp
  obtain start where start: "runIncoming demo_crypto demo_paths None ''sock''
       (\<lambda>socket callID. daemon_Connect socket callID True True
          (Some (empty_wire\<lparr>w_Kind := ''ready'', w_Username := demo_caller, w_Invite := demo_invite\<rparr>)))
       [demo_uuid] False demo_files = Inr start"
    using caller
    by (simp add: runIncoming_def parse_no_flags demo_loaded daemon_Connect_def media_defaults_def demo_invite_fields
        demo_profile_def demo_uuid_def)
  from window_acts_for_profile[OF demo_crypto_laws this] start show ?thesis
    by (auto simp: demo_loaded)
qed

end
