(* ===== verification/Session_Properties.thy ===== *)
theory Session_Properties
  imports Session
begin

text \<open>
  What holds of every run of a call: it survives the loss of signaling, tells the other side of its
  end once, restarts ICE sparingly, keeps the microphone muted, and shows the texts the other side
  typed.
\<close>

subsection \<open>Runs\<close>

lemma session_run_simps [simp]:
  "session_run [] s = s"
  "session_run ((rd, i) # steps) s = session_run steps (session_step rd i s)"
  by (simp_all add: session_run_def)

lemma session_run_snoc: "session_run (steps @ [(rd, i)]) s = session_step rd i (session_run steps s)"
  by (simp add: session_run_def)

lemma session_step_over: "se_result s \<noteq> None \<Longrightarrow> session_step rd i s = s"
  by (auto simp: session_step_def)

lemma return_result [simp]: "se_result (session_return rd e s) = Some e"
  by (simp add: session_return_def emit_def Let_def)

text \<open>A property that every case keeps holds after every run.\<close>

lemma session_run_induct:
  assumes "P s" "\<And>rd i s. P s \<Longrightarrow> se_result s = None \<Longrightarrow> can_happen rd s i \<Longrightarrow> (rd, i) \<in> set steps \<Longrightarrow> P (session_case rd i s)"
  shows "P (session_run steps s)"
  using assms
proof (induction steps arbitrary: s)
  case (Cons x steps)
  obtain rd i where x: "x = (rd, i)" by (cases x)
  have "P (session_step rd i s)"
    using Cons.prems(1) Cons.prems(2)[of s rd i] unfolding session_step_def x by (cases "se_result s = None \<and> can_happen rd s i") auto
  from Cons.IH[OF this] Cons.prems(2) show ?case by (simp add: x)
qed simp

subsection \<open>Losing signaling\<close>

lemma run_signals:
  assumes "\<not> se_signalingAvailable s"
  shows "filter is_signal (se_out (session_run steps s)) = filter is_signal (se_out s)"
  using assms
proof (induction steps arbitrary: s)
  case (Cons x steps)
  then show ?case using step_signals[OF Cons.prems] stays_unavailable[OF Cons.prems] by (cases x) simp
qed simp

text \<open>
  C32: Once the peer channel is open, losing the signaling connection, by an error or by the closing
  of its channel, does not end the session; and the session sends no signal after it, however it
  goes on.
\<close>

theorem signaling_loss_survived:
  assumes "se_result s = None" "se_controlOpen s" "se_signalingAvailable s" "lost \<in> {InSignalingError, InSignal None}"
  shows "se_result (session_step rd lost s) = None \<and>
    filter is_signal (se_out (session_run steps (session_step rd lost s))) = filter is_signal (se_out s)"
proof -
  have "session_step rd lost s = s\<lparr>se_signalingAvailable := False\<rparr>"
    using assms by (auto simp: session_step_def on_signaling_error_def on_signal_def)
  then show ?thesis
    using assms(1) run_signals[of "s\<lparr>se_signalingAvailable := False\<rparr>" steps] by simp_all
qed

subsection \<open>Telling the other side that the call ended\<close>

definition end_sent :: "session_effect \<Rightarrow> bool" where
  "end_sent e \<longleftrightarrow> (case e of SignalSent t p ok \<Rightarrow> t = SignalCallEnd \<and> ok | _ \<Rightarrow> False)"

lemma end_sent_signal [simp]: "end_sent (SignalSent t p ok) = (t = SignalCallEnd \<and> ok)"
  by (simp add: end_sent_def)

lemma end_sent_end: "end_sent e \<Longrightarrow> is_end e"
  by (cases e) (simp_all add: is_end_def end_sent_def)

text \<open>Running, no end was attempted; returned, one succeeded at most, and there is a reason if none was tried.\<close>

definition told :: "bool \<Rightarrow> session \<Rightarrow> bool" where
  "told heard s \<longleftrightarrow> length (filter end_sent (se_out s)) \<le> 1 \<and>
     (case se_result s of
        None \<Rightarrow> \<not> se_ended s \<and> filter is_end (se_out s) = []
      | Some e \<Rightarrow> filter is_end (se_out s) = [] \<longrightarrow> heard \<or> \<not> se_signalingAvailable s)"

lemma no_end_sent: "filter is_end es = [] \<Longrightarrow> filter end_sent es = []"
  using end_sent_end by (metis filter_False filter_empty_conv)

lemma no_signal_end: "filter is_signal es = [] \<Longrightarrow> filter is_end es = []"
  using end_is_signal by (metis filter_False filter_empty_conv)

text \<open>A session that runs, and has not tried to end the call.\<close>

definition untold :: "session \<Rightarrow> bool" where
  "untold s \<longleftrightarrow> se_result s = None \<and> \<not> se_ended s \<and> filter is_end (se_out s) = []"

lemma untold_told: "untold s \<Longrightarrow> told heard s"
  using no_end_sent by (simp add: untold_def told_def)

lemma untold_silent: "untold s \<Longrightarrow> silent s u \<Longrightarrow> untold u"
  using no_signal_end by (auto simp: untold_def silent_def)

lemma untold_pass: "untold s \<Longrightarrow> t \<noteq> SignalCallEnd \<Longrightarrow> untold (emit (SignalSent t p ok) s)"
  by (simp add: untold_def)

lemma return_told: "untold s \<Longrightarrow> told heard (session_return rd e s)"
  using no_end_sent by (simp add: untold_def told_def session_return_def Let_def)

lemma ended_told:
  assumes "untold s" "heard \<or> \<not> se_signalingAvailable s"
  shows "told heard (session_return rd e (s\<lparr>se_ended := True\<rparr>))"
  using assms no_end_sent by (auto simp: untold_def told_def session_return_def Let_def)

lemma hangup_told:
  assumes "untold s"
  shows "told heard (session_return rd e ((send_signal rd SignalCallEnd None s)\<lparr>se_ended := True\<rparr>))"
    "\<not> rr_sends rd \<Longrightarrow> told heard (session_return rd e (send_signal rd SignalCallEnd None s))"
  using assms no_end_sent by (auto simp: untold_def told_def session_return_def send_signal_def Let_def)

lemma ends_call_told: "untold s \<Longrightarrow> ends_call rd s s' \<Longrightarrow> told heard s'"
  using untold_silent hangup_told ended_told by (fastforce simp: ends_call_def split: if_splits)

lemma case_told:
  assumes "untold s" "can_happen rd s i" "end_heard i \<Longrightarrow> heard"
  shows "told heard (session_case rd i s)"
proof -
  have "told heard s'" if "leaves rd s s'" for s'
    using that assms(1) untold_silent return_told untold_told by (auto simp: leaves_def)
  moreover have "told heard s'" if "hears_end rd s s'" "end_heard i" for s'
    using that ended_told[OF assms(1)] assms(3) by (auto simp: hears_end_def)
  moreover have "told heard s'" if "passes_on rd s s'" for s'
    using that untold_pass[OF assms(1)] return_told untold_told by (fastforce simp: passes_on_def)
  ultimately show ?thesis using case_outcome[OF assms(2)] ends_call_told[OF assms(1)] by blast
qed

lemma told_untold: "told heard s \<Longrightarrow> se_result s = None \<Longrightarrow> untold s"
  by (simp add: told_def untold_def)

text \<open>
  C33: From the start of a session, in every run, the other side is successfully sent at most one end
  of the call; none is attempted while the session runs; and a session that has returned attempted
  one, unless it had lost signaling or was itself told of the end (or of a timeout) by signaling.
\<close>

theorem call_end_told_once:
  "let s = session_run steps (session_start c r callID remote microphone) in
    length (filter end_sent (se_out s)) \<le> 1 \<and>
    (if se_result s = None then filter is_end (se_out s) = []
     else filter is_end (se_out s) \<noteq> [] \<or> \<not> se_signalingAvailable s \<or> (\<exists>(rd, i) \<in> set steps. end_heard i))"
proof -
  let ?heard = "\<exists>(rd, i) \<in> set steps. end_heard i"
  have "untold (session_start c r callID remote microphone)"
    by (simp add: untold_def session_start_def Let_def)
  then have "told ?heard (session_run steps (session_start c r callID remote microphone))"
  proof (rule session_run_induct[of "told ?heard", OF untold_told])
    fix rd i s
    assume "told ?heard s" "se_result s = None" "can_happen rd s i" "(rd, i) \<in> set steps"
    then show "told ?heard (session_case rd i s)" by (intro case_told told_untold) auto
  qed
  then show ?thesis by (auto simp: told_def Let_def split: option.splits)
qed

subsection \<open>Restarting ICE, and the microphone\<close>

text \<open>A case that neither restarts ICE nor sends audio, nor changes what these depend on.\<close>

definition calm :: "session \<Rightarrow> session \<Rightarrow> bool" where
  "calm s s' \<longleftrightarrow> se_role s' = se_role s \<and> se_restartAttempted s' = se_restartAttempted s \<and> se_muted s' = se_muted s \<and>
     (\<exists>es. se_out s' = se_out s @ es \<and> ICERestarted \<notin> set es \<and> AudioSent \<notin> set es)"

lemma calm_refl: "calm s s" by (simp add: calm_def)

lemma calm_trans: "calm s t \<Longrightarrow> calm t u \<Longrightarrow> calm s u"
  by (auto simp: calm_def)

lemma calm_emit: "calm s t \<Longrightarrow> e \<noteq> ICERestarted \<Longrightarrow> e \<noteq> AudioSent \<Longrightarrow> calm s (emit e t)"
  by (auto simp: calm_def emit_def)

lemma calm_return: "calm s t \<Longrightarrow> calm s (session_return rd e t)"
  by (auto simp: session_return_def Let_def calm_def emit_def)

lemma calm_update:
  assumes "calm s t" "se_role t' = se_role t" "se_restartAttempted t' = se_restartAttempted t" "se_muted t' = se_muted t" "se_out t' = se_out t"
  shows "calm s t'"
  using assms by (simp add: calm_def)

lemma calm_send: "calm s t \<Longrightarrow> calm s (fst (send_control rd m t))" "calm s t \<Longrightarrow> calm s (send_signal rd x p t)"
  by (simp_all add: send_control_def send_signal_def Let_def calm_emit)

lemma calm_must_send: "calm s t \<Longrightarrow> (\<And>u. calm s u \<Longrightarrow> calm s (k u)) \<Longrightarrow> calm s (must_send rd m k t)"
  by (simp add: must_send_def send_control_def Let_def calm_emit calm_return split: option.split)

lemmas calm_intros = calm_emit calm_return calm_send calm_must_send calm_update[OF calm_refl]

definition mute_line :: "session_input \<Rightarrow> bool" where
  "mute_line i \<longleftrightarrow> i = InLine ''/mute'' \<or> i = InLine ''m''"

definition route_event :: "session_input \<Rightarrow> bool" where
  "route_event i \<longleftrightarrow> (case i of InPeerEvent (EventConnectionState st route) \<Rightarrow> True | _ \<Rightarrow> False)"

lemma calm_video: "calm s (on_video rd data s)"
proof -
  have "calm s (emit e (s\<lparr>se_decoder := d, se_keyframeRequested := b, se_picture := p\<rparr>))"
    "calm s (emit e (s\<lparr>se_decoder := d, se_picture := p\<rparr>))" if "e \<noteq> ICERestarted" "e \<noteq> AudioSent" for e d b p
    using that by (auto simp: calm_def emit_def)
  moreover have "calm s (s\<lparr>se_decoder := d\<rparr>)" "calm s (s\<lparr>se_decoder := d, se_keyframeRequested := b\<rparr>)" for d b by (simp_all add: calm_def)
  ultimately show ?thesis
    by (auto simp: on_video_def Let_def calm_send split: sum.split prod.split)
qed

lemma calm_camera: "calm s (on_camera rd f s)"
proof -
  have "calm s (emit (VideoSent v) (s\<lparr>se_encoder := x\<rparr>))" for v x by (auto simp: calm_def emit_def)
  then show ?thesis by (auto simp: on_camera_def intro: calm_update[OF calm_refl] split: option.split sum.split prod.split)
qed

lemma calm_signal: "calm s (on_signal rd m s)"
proof -
  have keep: "calm s (emit (SignalApplied p) s)" "calm s (session_return rd e s)"
    "calm s (session_return rd e (s\<lparr>se_ended := True\<rparr>))" "calm s (s\<lparr>se_signalingAvailable := False\<rparr>)" for p e
    by (auto intro!: calm_emit calm_return calm_refl calm_update[OF calm_refl])
  show ?thesis
  proof (cases m)
    case (Some x)
    then show ?thesis using keep calm_refl[of s] by (cases "sm_type x") (simp_all add: on_signal_def split: sum.split option.split)
  qed (simp add: on_signal_def keep)
qed

lemma calm_peer_signal: "calm s (on_peer_signal rd p s)"
  by (auto simp: on_peer_signal_def Let_def intro: calm_return calm_send calm_refl split: sum.split)

lemma calm_control: "calm s (on_control rd m s)"
proof -
  have "calm s (on_hello rd h s)" for h
    by (auto simp: on_hello_def Let_def intro!: calm_emit calm_return calm_update[OF calm_refl] intro: calm_refl split: option.split)
  moreover have "calm s ((send_signal rd x p s)\<lparr>se_ended := True\<rparr>)" for x p
    by (rule calm_update[OF calm_send(2)[OF calm_refl]]) simp_all
  ultimately show ?thesis
    by (cases "cm_type m") (auto simp: on_control_def Let_def intro!: calm_emit calm_return intro: calm_refl calm_send calm_update[OF calm_refl] split: option.split)
qed

lemma calm_event:
  assumes "\<not> route_event (InPeerEvent e)"
  shows "calm s (on_peer_event rd e s)"
proof -
  have "calm s (set_peer_error rd x s)" for x by (simp add: set_peer_error_def calm_def)
  moreover have "calm s (must_send rd m (\<lambda>s. s) (s\<lparr>se_controlOpen := True\<rparr>))" for m
    by (rule calm_must_send) (simp_all add: calm_def)
  ultimately show ?thesis
    using assms calm_control calm_refl by (cases e) (simp_all add: on_peer_event_def route_event_def)
qed

lemma calm_line:
  assumes "\<not> mute_line (InLine x)"
  shows "calm s (on_line rd x s)"
proof -
  have chat: "calm s (must_send rd m (emit (LocalShown y)) s)" for m y
    by (rule calm_must_send) (simp_all add: calm_refl calm_emit)
  have flush: "calm s (emit Flushed (fst (send_control rd m s)))" for m by (simp add: calm_emit calm_send calm_refl)
  have quit: "calm s (session_return rd e ((send_signal rd t p u)\<lparr>se_ended := True\<rparr>))" "calm s (session_return rd e (u\<lparr>se_ended := True\<rparr>))"
    "calm s (session_return rd e (send_signal rd t p u))" if "calm s u" for u e t p
    using that by (auto simp: calm_def send_signal_def session_return_def emit_def Let_def)
  show ?thesis
    using assms chat flush quit calm_refl[of s] by (simp add: on_line_def Let_def mute_line_def)
qed

text \<open>Every case is calm but the three that are not.\<close>

lemma case_calm:
  assumes "\<not> route_event i" "\<not> mute_line i" "\<forall>ok. i \<noteq> InMicrophone ok"
  shows "calm s (session_case rd i s)"
  using assms calm_event calm_line calm_signal calm_peer_signal calm_video calm_camera calm_return[OF calm_refl]
  by (cases i) (auto simp: on_signaling_error_def calm_def)

text \<open>ICE restarts since the route was last connected.\<close>

definition restarts :: "session_effect list \<Rightarrow> nat" where
  "restarts es = length (filter (\<lambda>e. e = ICERestarted) (takeWhile (\<lambda>e. e \<noteq> RouteConnected) (rev es)))"

lemma restarts_snoc [simp]:
  "restarts (es @ [RouteConnected]) = 0" "restarts (es @ [ICERestarted]) = Suc (restarts es)"
  "restarts (es @ [AudioSent]) = restarts es"
  by (simp_all add: restarts_def)

lemma restarts_other: "ICERestarted \<notin> set ds \<Longrightarrow> restarts (es @ ds) \<le> restarts es"
proof (induction ds rule: rev_induct)
  case (snoc d ds)
  have "restarts ((es @ ds) @ [d]) \<le> restarts (es @ ds)" using snoc.prems by (auto simp: restarts_def)
  then show ?case using snoc by simp
qed simp

definition restart_inv :: "role \<Rightarrow> session \<Rightarrow> bool" where
  "restart_inv r s \<longleftrightarrow> se_role s = r \<and> (ICERestarted \<in> set (se_out s) \<longrightarrow> r = RoleCaller) \<and>
     restarts (se_out s) \<le> (if se_restartAttempted s then 1 else 0)"

lemma restart_calm: "restart_inv r s \<Longrightarrow> calm s s' \<Longrightarrow> restart_inv r s'"
  unfolding restart_inv_def calm_def using restarts_other[THEN order_trans, of _ _ 0] restarts_other[THEN order_trans, of _ _ 1] by auto

lemma restart_return:
  assumes "restart_inv r s" shows "restart_inv r (session_return rd e s)"
  using restart_calm[OF assms calm_return[OF calm_refl]] .

lemma restart_connection:
  assumes "restart_inv r s"
  shows "restart_inv r (on_connection rd st route s)"
proof -
  have fields: "se_role (start_reconnect rd u) = se_role u" "se_out (start_reconnect rd u) = se_out u"
    "se_restartAttempted (start_reconnect rd u) = se_restartAttempted u" for u
    by (simp_all add: start_reconnect_def)
  let ?u = "start_reconnect rd (s\<lparr>se_route := route\<rparr>)"
  show ?thesis
  proof (cases st)
    case ConnFailed
    show ?thesis
    proof (cases "se_role s = RoleCaller \<and> se_signalingAvailable s \<and> \<not> se_restartAttempted s")
      case True
      have "restart_inv r (session_return rd e (?u\<lparr>se_restartAttempted := True\<rparr>))" for e
        using assms by (intro restart_return) (simp add: restart_inv_def fields split: if_splits)
      moreover have "restart_inv r (emit ICERestarted (?u\<lparr>se_restartAttempted := True\<rparr>))"
        using assms True by (simp add: restart_inv_def fields)
      ultimately show ?thesis using True by (simp add: on_connection_def ConnFailed Let_def fields)
    next
      case False
      have "restart_inv r ?u" using assms by (simp add: restart_inv_def fields)
      then show ?thesis using False by (auto simp: on_connection_def ConnFailed Let_def fields)
    qed
  qed (use assms in \<open>auto simp: on_connection_def restart_inv_def Let_def fields set_peer_error_def split: if_splits\<close>)
qed

lemma restart_case:
  assumes "restart_inv r s"
  shows "restart_inv r (session_case rd i s)"
proof -
  have mic: "restart_inv r (on_microphone ok s)" for ok
    using assms by (auto simp: on_microphone_def restart_inv_def split: if_splits)
  have mute: "restart_inv r (on_line rd x s)" if "mute_line (InLine x)" for x
  proof -
    let ?s = "s\<lparr>se_muted := \<not> se_muted s\<rparr>"
    have "restart_inv r (must_send rd m (\<lambda>s. s) ?s)" for m
      by (rule restart_calm[of r ?s]) (use assms in \<open>simp_all add: restart_inv_def calm_must_send calm_refl\<close>)
    then show ?thesis using that assms by (auto simp: mute_line_def on_line_def Let_def)
  qed
  show ?thesis
  proof (cases "route_event i \<or> mute_line i \<or> (\<exists>ok. i = InMicrophone ok)")
    case True
    then show ?thesis
      using mic mute restart_connection[OF assms]
      by (auto simp: route_event_def mute_line_def on_peer_event_def split: session_input.splits peer_event.splits)
  next
    case False
    then show ?thesis using restart_calm[OF assms case_calm] by blast
  qed
qed

text \<open>
  Only the caller's session restarts ICE, and since the route was last connected it has done so
  at most once, however often the connection failed.
\<close>

theorem restarts_once_per_outage:
  "let out = se_out (session_run steps (session_start c r callID remote microphone)) in
    restarts out \<le> 1 \<and> (ICERestarted \<in> set out \<longrightarrow> r = RoleCaller)"
proof -
  have "restart_inv r (session_start c r callID remote microphone)"
    by (simp add: restart_inv_def session_start_def restarts_def Let_def)
  then have "restart_inv r (session_run steps (session_start c r callID remote microphone))"
    by (rule session_run_induct) (rule restart_case)
  then show ?thesis by (auto simp: restart_inv_def Let_def split: if_splits)
qed

text \<open>
  C36: While the microphone is muted no audio is sent: as long as no line toggles it, a run from a
  muted session sends none, whatever the microphone delivers.
\<close>

theorem muted_sends_no_audio:
  assumes "se_muted s" "\<forall>(rd, i) \<in> set steps. \<not> mute_line i"
  shows "filter (\<lambda>e. e = AudioSent) (se_out (session_run steps s)) = filter (\<lambda>e. e = AudioSent) (se_out s)"
proof -
  let ?P = "\<lambda>t :: session. se_muted t \<and> filter (\<lambda>e. e = AudioSent) (se_out t) = filter (\<lambda>e. e = AudioSent) (se_out s)"
  have calm: "?P u" if "calm t u" "?P t" for t u
    using that by (auto simp: calm_def filter_empty_conv)
  have route: "?P (on_connection rd st route t)" if "?P t" for rd st route t
    using that by (cases st) (auto simp: on_connection_def start_reconnect_def set_peer_error_def session_return_def emit_def Let_def)
  have "?P (session_run steps s)"
  proof (rule session_run_induct)
    fix rd i t
    assume t: "?P t" and step: "(rd, i) \<in> set steps"
    show "?P (session_case rd i t)"
    proof (cases "route_event i \<or> (\<exists>ok. i = InMicrophone ok)")
      case True
      then show ?thesis using route[OF t] t
        by (auto simp: route_event_def on_peer_event_def on_microphone_def split: session_input.splits peer_event.splits)
    next
      case False
      then show ?thesis using calm[OF case_calm t] step assms(2) by fastforce
    qed
  qed (use assms(1) in simp)
  then show ?thesis by simp
qed

subsection \<open>Concrete runs\<close>

definition demo_config :: session_config where
  "demo_config = \<lparr>sc_audio = True, sc_video = False, sc_columns = 0, sc_rows = 0, sc_fps = 0, sc_reconnect = 0, sc_terminal = None\<rparr>"

definition demo_readings :: session_readings where
  "demo_readings = \<lparr>rr_now = demo_now, rr_uuid = demo_uuid, rr_sends = True, rr_deferred = True, rr_queue = (\<lambda>m. None),
     rr_apply = (\<lambda>s. None), rr_restarts = True, rr_camera = True\<rparr>"

definition demo_session :: session where
  "demo_session = session_start demo_config RoleCaller demo_uuid ''bob'' True"

definition demo_open_session :: session where
  "demo_open_session = demo_session\<lparr>se_controlOpen := True\<rparr>"

lemmas demo_defs = demo_open_session_def demo_session_def demo_config_def demo_readings_def session_start_def localCapabilities_def

lemma demo_open_session: "se_result demo_open_session = None" "se_controlOpen demo_open_session"
  "se_signalingAvailable demo_open_session" "se_out demo_open_session = []" "\<not> se_ended demo_open_session"
  by (simp_all add: demo_defs Let_def)

theorem signaling_loss_survived_witness:
  "se_result (session_step demo_readings InSignalingError demo_open_session) = None \<and>
    filter is_signal (se_out (session_run [(demo_readings, InLine ''/quit'')] (session_step demo_readings InSignalingError demo_open_session))) = []"
  using signaling_loss_survived[OF demo_open_session(1-3), of InSignalingError demo_readings "[(demo_readings, InLine ''/quit'')]"]
    demo_open_session(4) by simp

theorem call_end_told_once_witness:
  "let s = session_run [(demo_readings, InLine ''/quit'')] (session_start demo_config RoleCaller demo_uuid ''bob'' True) in
    length (filter end_sent (se_out s)) \<le> 1 \<and> se_result s = Some None \<and> filter is_end (se_out s) \<noteq> []"
proof -
  let ?s = "session_run [(demo_readings, InLine ''/quit'')] (session_start demo_config RoleCaller demo_uuid ''bob'' True)"
  have "?s = session_return demo_readings None ((send_signal demo_readings SignalCallEnd None demo_session)\<lparr>se_ended := True\<rparr>)"
    by (simp add: session_step_def on_line_def demo_defs Let_def)
  then have "se_result ?s = Some None" "se_signalingAvailable ?s"
    by (simp_all add: demo_session_def session_start_def send_signal_def Let_def)
  with call_end_told_once[of "[(demo_readings, InLine ''/quit'')]" demo_config RoleCaller demo_uuid "''bob''" True]
  show ?thesis by (simp add: end_heard_def Let_def)
qed

theorem restarts_once_per_outage_witness:
  "let out = se_out (session_run (replicate 3 (demo_readings, InPeerEvent (EventConnectionState ConnFailed ''direct'')))
      (session_start demo_config RoleCaller demo_uuid ''bob'' True)) in
    restarts out \<le> 1 \<and> ICERestarted \<in> set out"
proof -
  have "ICERestarted \<in> set (se_out (session_run (replicate 3 (demo_readings, InPeerEvent (EventConnectionState ConnFailed ''direct'')))
      (session_start demo_config RoleCaller demo_uuid ''bob'' True)))"
    by (simp add: numeral_3_eq_3 session_step_def on_peer_event_def on_connection_def start_reconnect_def demo_defs emit_def Let_def)
  with restarts_once_per_outage[of "replicate 3 (demo_readings, InPeerEvent (EventConnectionState ConnFailed ''direct''))"
    demo_config RoleCaller demo_uuid "''bob''" True]
  show ?thesis by (simp add: Let_def)
qed

theorem muted_sends_no_audio_witness:
  "filter (\<lambda>e. e = AudioSent) (se_out (session_run [(demo_readings, InMicrophone True), (demo_readings, InLine ''hello'')]
    (demo_open_session\<lparr>se_muted := True\<rparr>))) = [] \<and> se_audioPackets demo_open_session"
  using muted_sends_no_audio[of "demo_open_session\<lparr>se_muted := True\<rparr>" "[(demo_readings, InMicrophone True), (demo_readings, InLine ''hello'')]"]
    demo_open_session(4) by (simp add: mute_line_def demo_defs Let_def)

subsection \<open>Chat\<close>

lemma unmarshal_chat_written: "unmarshal_chat (marshal_chat text) = Some (to_valid text)"
proof -
  let ?ms = "[(''text'', json_string text, JString (json_escape text))]"
  have ms: "?ms \<noteq> []" "\<forall>(k, t, v) \<in> set ?ms. plain_text k \<and> reads 1 t v" "marshal_chat text = json_object (texts ?ms)"
    using member_keys reads_json_string by (simp_all add: marshal_chat_def)
  show ?thesis using read_chat[of "text"] unfolding unmarshal_chat_def chat_text_of_def ms(3) decode_required[OF ms(1,2)] .
qed

text \<open>Lines that are not commands.\<close>

definition plain_line :: "string \<Rightarrow> bool" where
  "plain_line text \<longleftrightarrow> text \<notin> {[], ''/status'', ''/mute'', ''m'', ''/quit''}"

abbreviation chat_message :: "session_readings \<Rightarrow> string \<Rightarrow> control_message" where
  "chat_message rd text \<equiv> newControl rd ControlChatMessage (marshal_chat text)"

lemma chat_step:
  assumes "se_result s = None" "se_controlOpen s" "plain_line text" "length text \<le> MaxChatTextSize"
  shows "session_step rd (InLine text) s = must_send rd (chat_message rd text)
    (emit (LocalShown (ui_local (map_option fst (sc_terminal (se_config s))) text))) s"
  using assms by (simp add: session_step_def on_line_def plain_line_def)

text \<open>
  C35: A line typed in an open session that is no command and not too long is shown locally and, if
  the peer accepts it for sending, put on the queue of the control channel; when its bytes reach the
  other peer, while the message is valid there and not a repetition, that session shows the text
  under the sender's name, with its invalid UTF-8 replaced and made safe for the terminal, and goes on.
\<close>

theorem chat_arrives:
  assumes "se_result s = None" "se_controlOpen s" "plain_line text" "length text \<le> MaxChatTextSize"
    and "rr_queue rd = (\<lambda>m. snd (control_send (rr_now rd) m p))" "snd (control_send (rr_now rd) (chat_message rd text) p) = None"
    and "ValidateControl (NewValidator later) (chat_message rd text) = None" "0 \<le> year_of (rr_now rd) \<and> year_of (rr_now rd) \<le> 9999"
    and "rr_uuid rd \<notin> pr_seenIDs q" "\<not> pr_closed q" "se_result t = None"
  shows "se_out (session_step rd (InLine text) s) = se_out s @ [ControlSent (chat_message rd text) True,
      LocalShown (ui_local (map_option fst (sc_terminal (se_config s))) text)] \<and>
    (\<exists>bytes. pr_outbound (fst (control_send (rr_now rd) (chat_message rd text) p)) = pr_outbound p @ [Data bytes] \<and>
      pr_events (on_control_message later bytes q) = pr_events q @ [EventControlMessage (chat_message rd text)]) \<and>
    session_step rd' (InPeerEvent (EventControlMessage (chat_message rd text))) t =
      emit (RemoteShown (Sanitize (se_remote t) @ ''> '' @ Sanitize (to_valid text) @ [CHR 0x0A])) t"
proof -
  let ?m = "chat_message rd text"
  have line: "se_out (session_step rd (InLine text) s) = se_out s @ [ControlSent ?m True,
      LocalShown (ui_local (map_option fst (sc_terminal (se_config s))) text)]"
    using assms(5,6) by (simp add: chat_step[OF assms(1-4)] must_send_def send_control_def Let_def)
  have sent: "pr_outbound (fst (control_send (rr_now rd) ?m p)) = pr_outbound p @ [Data (marshal_control ?m)]"
    "length (marshal_control ?m) \<le> MaxControlMessageSize"
    using assms(6) by (auto simp: control_send_def Let_def split: option.splits if_splits)
  have "reads 1 (cm_payload ?m) (JObject [(''text'', json_string text, JString (json_escape text))])"
    by (simp add: newControl_def reads_chat max_nesting_def)
  then have "DecodeControl (marshal_control ?m) (NewValidator later) = Inr ?m"
    using assms(7,8) sent(2) by (intro decode_written_control) (auto simp: newControl_def known_controls_def)
  moreover have "snd (seen (rr_uuid rd) q) = False" "pr_events (fst (seen (rr_uuid rd) q)) = pr_events q" "\<not> pr_closed (fst (seen (rr_uuid rd) q))"
    using assms(9,10) by (simp_all add: seen_def Let_def)
  ultimately have "pr_events (on_control_message later (marshal_control ?m) q) = pr_events q @ [EventControlMessage ?m]"
    by (auto simp: on_control_message_def emitEvent_def newControl_def split: prod.split bool.split)
  moreover have "session_step rd' (InPeerEvent (EventControlMessage ?m)) t = emit (RemoteShown (ui_remote (se_remote t) (to_valid text))) t"
    using assms(11) by (simp add: session_step_def on_peer_event_def on_control_def newControl_def unmarshal_chat_written)
  ultimately show ?thesis using line sent(1) by (auto simp: ui_remote_def)
qed

definition chat_readings :: session_readings where
  "chat_readings = demo_readings\<lparr>rr_queue := (\<lambda>m. snd (control_send demo_now m demo_open_peer))\<rparr>"

lemma chat_readings_message: "chat_message chat_readings ''a<b'' = demo_chat" "rr_now chat_readings = demo_now" "rr_uuid chat_readings = demo_uuid"
  by (simp_all add: newControl_def chat_readings_def demo_readings_def demo_chat_def ProtocolVersion_def)

theorem chat_arrives_witness:
  "session_step demo_readings (InPeerEvent (EventControlMessage demo_chat)) demo_session =
      emit (RemoteShown (''bob> a<b'' @ [CHR 0x0A])) demo_session \<and>
    (\<exists>bytes. pr_outbound (fst (control_send demo_now demo_chat demo_open_peer)) = pr_outbound demo_open_peer @ [Data bytes] \<and>
      pr_events (on_control_message demo_now bytes (demo_peer RoleCallee)) = [EventControlMessage demo_chat])"
proof -
  have line: "plain_line ''a<b''" "length ''a<b'' \<le> MaxChatTextSize" by (simp_all add: plain_line_def MaxChatTextSize_def)
  have queue: "rr_queue chat_readings = (\<lambda>m. snd (control_send (rr_now chat_readings) m demo_open_peer))"
    by (simp add: chat_readings_def demo_readings_def)
  have accepted: "snd (control_send (rr_now chat_readings) (chat_message chat_readings ''a<b'') demo_open_peer) = None"
    using demo_controls_valid(1,3) demo_open(2) unfolding chat_readings_message by (simp add: control_send_def Let_def)
  have valid: "ValidateControl (NewValidator demo_now) (chat_message chat_readings ''a<b'') = None"
    using demo_controls_valid(1) unfolding chat_readings_message .
  have year: "0 \<le> year_of (rr_now chat_readings) \<and> year_of (rr_now chat_readings) \<le> 9999"
    using demo_controls_valid(5) unfolding chat_readings_message .
  have other: "rr_uuid chat_readings \<notin> pr_seenIDs (demo_peer RoleCallee)" "\<not> pr_closed (demo_peer RoleCallee)" "pr_events (demo_peer RoleCallee) = []"
    by (simp_all add: demo_peer_def peer_new_def Let_def)
  have shown: "Sanitize ''bob'' = ''bob''" "Sanitize (to_valid ''a<b'') = ''a<b''" by code_simp+
  have fields: "se_result demo_session = None" "se_remote demo_session = ''bob''" by (simp_all add: demo_defs Let_def)
  note chat = chat_arrives[OF demo_open_session(1,2) line queue accepted valid year other(1,2) fields(1), of demo_readings]
  show ?thesis using chat shown fields(2) other(3) unfolding chat_readings_message by simp
qed

subsection \<open>Texts that grow when they are written\<close>

definition markup :: "string \<Rightarrow> bool" where
  "markup text \<longleftrightarrow> list_all (\<lambda>c. c \<in> {CHR ''<'', CHR ''>'', CHR ''&''}) text"

lemma markup_text:
  "markup t \<Longrightarrow> length (json_escape t) = 6 * length t \<and> valid_utf8 t"
proof (induction t)
  case (Cons c t)
  then have c: "c = CHR ''<'' \<or> c = CHR ''>'' \<or> c = CHR ''&''" "markup t" by (auto simp: markup_def)
  have rune: "decode_rune (c # t) = (code c, 1)" using c(1) by (auto simp: decode_rune_def)
  have "length (escape_rune (code c)) = 6" "code c \<noteq> rune_error" using c(1) by (auto simp: escape_rune_def rune_error_def)
  with Cons.IH[OF c(2)] rune show ?case
    by (simp add: json_escape.simps[of "c # t"] valid_utf8.simps[of "c # t"])
qed (simp_all add: json_escape.simps valid_utf8.simps)

lemma chat_length: "length (marshal_chat text) \<ge> length (json_escape text)"
  by (simp add: marshal_chat_def json_object_def json_string_def json_quote_def)

lemma marshal_control_length: "cm_payload m \<noteq> [] \<Longrightarrow> length (marshal_control m) \<ge> length (cm_payload m)"
  by (simp add: marshal_control_def json_object_def optional_member_def)

text \<open>
  A line of 2731 or more characters among less-than, greater-than and ampersand passes the check
  of its length, but written as JSON each takes six bytes and the message exceeds what the control
  channel takes: whenever a short text would have been valid then, the line ends the session with an
  error, is not shown, and nothing is queued.
\<close>

theorem markup_ends_session:
  assumes "se_result s = None" "se_controlOpen s" "markup text" "2731 \<le> length text" "length text \<le> MaxChatTextSize"
    and "rr_queue rd = (\<lambda>m. snd (control_send (rr_now rd) m p))"
    and "ValidateControl (NewValidator (rr_now rd)) (chat_message rd ''a'') = None"
  shows "session_step rd (InLine text) s = session_return rd (Some (ControlFailed (ErrProtocol ErrMessageTooLarge)))
      (emit (ControlSent (chat_message rd text) False) s) \<and>
    control_send (rr_now rd) (chat_message rd text) p = (p, Some (ErrProtocol ErrMessageTooLarge))"
proof -
  let ?m = "chat_message rd text"
  note esc = markup_text[OF assms(3)]
  have "marshal_chat text \<noteq> []" by (simp add: marshal_chat_def json_object_def)
  then have "length (marshal_control ?m) \<ge> length (marshal_chat text)"
    using marshal_control_length[of ?m] by (simp add: newControl_def)
  then have long: "length (marshal_control ?m) > MaxControlMessageSize"
    using chat_length[of "text"] esc assms(4) by (simp add: MaxControlMessageSize_def)
  have "control_payload_ok ControlChatMessage (marshal_chat text)"
    using assms(4,5) esc by (auto simp: control_payload_ok_def read_chat to_valid_valid)
  then have "ValidateControl (NewValidator (rr_now rd)) ?m = None"
    using assms(7) by (simp add: ValidateControl_def newControl_def split: option.splits if_splits)
  then have refused: "control_send (rr_now rd) ?m p = (p, Some (ErrProtocol ErrMessageTooLarge))"
    using long by (simp add: control_send_def Let_def)
  have "plain_line text" using assms(4) by (auto simp: plain_line_def)
  from chat_step[OF assms(1,2) this assms(5), of rd] refused assms(6) show ?thesis
    by (simp add: must_send_def send_control_def Let_def)
qed

theorem markup_ends_session_witness:
  "se_result (session_step chat_readings (InLine (replicate 2731 CHR ''<'')) demo_open_session) =
    Some (Some (ControlFailed (ErrProtocol ErrMessageTooLarge)))"
proof -
  have typed: "markup (replicate 2731 CHR ''<'')" "2731 \<le> length (replicate 2731 CHR ''<'')"
    "length (replicate 2731 CHR ''<'') \<le> MaxChatTextSize"
    by (simp_all add: markup_def list_all_iff MaxChatTextSize_def)
  have queue: "rr_queue chat_readings = (\<lambda>m. snd (control_send (rr_now chat_readings) m demo_open_peer))"
    by (simp add: chat_readings_def demo_readings_def)
  have short: "ValidateControl (NewValidator (rr_now chat_readings)) (chat_message chat_readings ''a'') = None" by code_simp
  show ?thesis using markup_ends_session[OF demo_open_session(1,2) typed queue short] by simp
qed

subsection \<open>Oversized video\<close>

text \<open>A pending error is kept, with its deadline, by whatever the session does next.\<close>

definition condemned :: "session_error \<Rightarrow> time \<Rightarrow> session \<Rightarrow> bool" where
  "condemned e d s \<longleftrightarrow> se_pendingPeerError s = Some e \<and> se_peerErrorDeadline s = Some d"

lemma condemned_emit [simp]: "condemned e d (emit x s) = condemned e d s"
  by (simp add: condemned_def emit_def)

lemma condemned_return [simp]: "condemned e d (session_return rd x s) = condemned e d s"
  by (simp add: session_return_def Let_def condemned_def emit_def)

lemma condemned_small [simp]:
  "condemned e d (send_signal rd t q s) = condemned e d s" "condemned e d (fst (send_control rd m s)) = condemned e d s"
  "condemned e d (start_reconnect rd s) = condemned e d s"
  "condemned e d s \<Longrightarrow> condemned e d (set_peer_error rd x s)"
  by (simp_all add: send_signal_def send_control_def Let_def start_reconnect_def set_peer_error_def condemned_def emit_def)

lemma condemned_must_send:
  "condemned e d s \<Longrightarrow> (\<And>s. condemned e d s \<Longrightarrow> condemned e d (k s)) \<Longrightarrow> condemned e d (must_send rd m k s)"
  by (simp add: must_send_def send_control_def Let_def split: option.split)

lemma condemned_fields [simp]:
  "condemned e d (s\<lparr>se_ended := b\<rparr>) = condemned e d s" "condemned e d (s\<lparr>se_encoder := x\<rparr>) = condemned e d s"
  "condemned e d (s\<lparr>se_camera := b\<rparr>) = condemned e d s" "condemned e d (s\<lparr>se_muted := b\<rparr>) = condemned e d s"
  "condemned e d (s\<lparr>se_controlOpen := b\<rparr>) = condemned e d s" "condemned e d (s\<lparr>se_restartAttempted := b\<rparr>) = condemned e d s"
  "condemned e d (s\<lparr>se_route := r\<rparr>) = condemned e d s" "condemned e d (s\<lparr>se_reconnectDeadline := q\<rparr>) = condemned e d s"
  "condemned e d (s\<lparr>se_videoFrames := b\<rparr>) = condemned e d s" "condemned e d (s\<lparr>se_audioPackets := b\<rparr>) = condemned e d s"
  "condemned e d (s\<lparr>se_decoder := y\<rparr>) = condemned e d s" "condemned e d (s\<lparr>se_keyframeRequested := b\<rparr>) = condemned e d s"
  "condemned e d (s\<lparr>se_picture := z\<rparr>) = condemned e d s" "condemned e d (s\<lparr>se_signalingAvailable := b\<rparr>) = condemned e d s"
  by (simp_all add: condemned_def)

lemma condemned_media:
  assumes "condemned e d s"
  shows "condemned e d (on_camera rd f s)" "condemned e d (on_microphone ok s)" "condemned e d (on_video rd data s)"
    "condemned e d (on_peer_signal rd p s)" "condemned e d (on_hello rd h s)"
  using assms by (simp_all add: on_camera_def on_microphone_def on_video_def on_peer_signal_def on_hello_def Let_def
      split: option.split sum.split prod.split)

lemma condemned_signal: "condemned e d s \<Longrightarrow> condemned e d (on_signal rd m s)"
  by (cases m) (auto simp: on_signal_def split: signal_type.split sum.split option.split)

lemma condemned_control: "condemned e d s \<Longrightarrow> condemned e d (on_control rd m s)"
  by (cases "cm_type m") (auto simp: on_control_def Let_def condemned_media split: option.split)

lemma condemned_connection: "condemned e d s \<Longrightarrow> condemned e d (on_connection rd st route s)"
  by (cases st) (auto simp: on_connection_def Let_def)

lemma condemned_line: "condemned e d s \<Longrightarrow> condemned e d (on_line rd x s)"
  by (simp add: on_line_def Let_def condemned_must_send)

lemma condemned_event: "condemned e d s \<Longrightarrow> condemned e d (on_peer_event rd x s)"
  by (cases x) (auto simp: on_peer_event_def condemned_must_send condemned_control condemned_connection)

lemma condemned_case: "condemned e d s \<Longrightarrow> condemned e d (session_case rd i s)"
  by (cases i) (auto simp: on_signaling_error_def condemned_media condemned_signal condemned_line condemned_event)

text \<open>
  A video message over the size limit, although video is meant to be lossy and optional, ends the
  session: the peer reports it as an error of its own kind, and whatever the session does next (the
  call may be as healthy as it will), if it is still running when half a second has passed, the
  timer ends it with that error.
\<close>

theorem oversized_frame_ends_session:
  assumes "length data > 64 * 1024" "\<not> pr_closed p" "se_result s = None" "se_pendingPeerError s = None"
    and "s' = session_run steps (session_step rd (InPeerEvent (EventError ErrOversizedFrame)) s)"
    and "se_result s' = None" "rr_now rd' \<ge> rr_now rd + second div 2"
  shows "pr_events (on_video_message data p) = pr_events p @ [EventError ErrOversizedFrame] \<and>
    se_result (session_step rd' InPeerErrorTimer s') = Some (Some (PeerReported ErrOversizedFrame))"
proof -
  let ?d = "rr_now rd + second div 2"
  have "condemned (PeerReported ErrOversizedFrame) ?d (session_step rd (InPeerEvent (EventError ErrOversizedFrame)) s)"
    using assms(3,4) by (simp add: session_step_def on_peer_event_def set_peer_error_def condemned_def)
  then have "condemned (PeerReported ErrOversizedFrame) ?d s'"
    unfolding assms(5) by (rule session_run_induct) (rule condemned_case)
  then have "se_result (session_step rd' InPeerErrorTimer s') = Some (Some (PeerReported ErrOversizedFrame))"
    using assms(6,7) by (simp add: session_step_def condemned_def)
  then show ?thesis using assms(1,2) by (simp add: on_video_message_def emitEvent_def)
qed

theorem oversized_frame_ends_session_witness:
  "se_result (session_step (demo_readings\<lparr>rr_now := demo_now + second\<rparr>) InPeerErrorTimer
    (session_run [(demo_readings, InPeerEvent (EventConnectionState ConnConnected ''direct/udp'')), (demo_readings, InLine ''hello'')]
      (session_step demo_readings (InPeerEvent (EventError ErrOversizedFrame)) demo_open_session))) =
    Some (Some (PeerReported ErrOversizedFrame))"
proof -
  define steps where "steps = [(demo_readings, InPeerEvent (EventConnectionState ConnConnected ''direct/udp'')), (demo_readings, InLine ''hello'')]"
  define s' where "s' = session_run steps (session_step demo_readings (InPeerEvent (EventError ErrOversizedFrame)) demo_open_session)"
  have big: "length (replicate 65537 CHR ''x'') > 64 * 1024" by simp
  have peer: "\<not> pr_closed (demo_peer RoleCallee)" by (simp add: demo_peer_def peer_new_def Let_def)
  have running: "se_pendingPeerError demo_open_session = None" "se_result s' = None"
    by (simp_all add: s'_def steps_def session_step_def on_peer_event_def set_peer_error_def on_connection_def on_line_def
        must_send_def send_control_def emit_def demo_defs MaxChatTextSize_def Let_def)
  have later: "rr_now (demo_readings\<lparr>rr_now := demo_now + second\<rparr>) \<ge> rr_now demo_readings + second div 2"
    by (simp add: demo_readings_def second_def)
  from oversized_frame_ends_session[OF big peer demo_open_session(1) running(1) s'_def running(2) later]
  show ?thesis by (simp add: s'_def steps_def)
qed

end
