(* ===== verification/Media.thy ===== *)
theory Media
  imports Ascii_Codec Validation
begin

text \<open>
  The media processes, \<open>internal/client/media/gstreamer\<close>: the command lines of the pipelines, the
  framing of RTP packets on their pipes (\<open>audio.go\<close>), the cutting of the camera's bytes into frames
  (\<open>camera.go\<close>), and the queues between a process and the call.  The processes themselves are
  GStreamer's: what a pipe delivers is a list of bytes, whether a process starts is a reading.
  Pion's RTP packets are a type of their own, with the writer and the reader as parameters.
\<close>

subsection \<open>Configuration and command lines\<close>

record video_config =
  vc_Device :: string
  vc_Columns :: int
  vc_Rows :: int
  vc_FPS :: int

record audio_config =
  au_Device :: string
  au_Bitrate :: int

datatype media_error = BadCameraConfig | NoRuntime | BadBitrate | PipeFailed | StartFailed | AlreadyStarted | NoSource

datatype os = Linux | Darwin | OtherOS

definition cameraSource :: "os \<Rightarrow> string \<Rightarrow> string list" where
  "cameraSource system device = (case system of
       Linux \<Rightarrow> [''v4l2src'', ''device='' @ (if device = [] then ''/dev/video0'' else device)]
     | Darwin \<Rightarrow> [''avfvideosrc''] @ (if device \<noteq> [] then [''device-index='' @ device] else [])
     | OtherOS \<Rightarrow> [''autovideosrc''])"

definition camera_arguments :: "os \<Rightarrow> video_config \<Rightarrow> string list" where
  "camera_arguments system c = (
     let width = vc_Columns c; height = vc_Rows c * 2 in
     [''-q''] @ cameraSource system (vc_Device c) @
     [''!'', ''videoconvert'', ''!'', ''videoscale'',
      ''!'', ''video/x-raw,format=GRAY8,width='' @ itoa width @ '',height='' @ itoa height @ '',framerate='' @ itoa (vc_FPS c) @ ''/1'',
      ''!'', ''fdsink'', ''fd=1'', ''sync=false''])"

definition microphone_arguments :: "audio_config \<Rightarrow> int \<Rightarrow> string list" where
  "microphone_arguments c bitrate = (
     let source = (if au_Device c \<noteq> [] then [''pulsesrc'', ''device='' @ au_Device c] else [''autoaudiosrc'']) in
     [''-q''] @ source @
     [''!'', ''audioconvert'', ''!'', ''audioresample'',
      ''!'', ''audio/x-raw,format=S16LE,rate=48000,channels=1'',
      ''!'', ''opusenc'', ''bitrate='' @ itoa bitrate, ''frame-size=20'', ''audio-type=voice'', ''inband-fec=true'', ''packet-loss-percentage=5'',
      ''!'', ''rtpopuspay'', ''pt=111'', ''!'', ''rtpstreampay'', ''!'', ''fdsink'', ''fd=1'', ''sync=false''])"

definition speaker_arguments :: "audio_config \<Rightarrow> string list" where
  "speaker_arguments c = (
     let sink = (if au_Device c \<noteq> [] then [''pulsesink'', ''device='' @ au_Device c, ''sync=false''] else [''autoaudiosink'', ''sync=false'']) in
     [''-q'', ''fdsrc'', ''fd=0'',
      ''!'', ''application/x-rtp-stream,media=audio,encoding-name=OPUS,payload=111,clock-rate=48000'',
      ''!'', ''rtpstreamdepay'', ''!'', ''rtpopusdepay'', ''!'', ''opusdec'', ''!'', ''audioconvert'', ''!'', ''audioresample'', ''!''] @ sink)"

text \<open>
  Starting a process: what the runtime check, the pipe and the start return; \<open>running\<close> says whether
  this input or output was started before.  The result is the command line that runs.
\<close>

record process_readings =
  pc_runtime :: bool
  pc_pipe :: bool
  pc_starts :: bool

definition start_process :: "process_readings \<Rightarrow> bool \<Rightarrow> string list \<Rightarrow> bool \<times> (media_error + string list)" where
  "start_process rd running arguments = (
     if \<not> pc_pipe rd then (running, Inl PipeFailed)
     else if \<not> pc_starts rd then (running, Inl StartFailed)
     else if running then (running, Inl AlreadyStarted)
     else (True, Inr arguments))"

definition camera_Open :: "os \<Rightarrow> process_readings \<Rightarrow> video_config \<Rightarrow> bool \<Rightarrow> bool \<times> (media_error + string list)" where
  "camera_Open system rd c running = (
     if vc_Columns c < 1 \<or> vc_Rows c < 1 \<or> vc_FPS c < 1 then (running, Inl BadCameraConfig)
     else if \<not> pc_runtime rd then (running, Inl NoRuntime)
     else start_process rd running (camera_arguments system c))"

definition AudioInput_Start :: "process_readings \<Rightarrow> audio_config \<Rightarrow> bool \<Rightarrow> bool \<times> (media_error + string list)" where
  "AudioInput_Start rd c running = (
     if \<not> pc_runtime rd then (running, Inl NoRuntime)
     else
       let bitrate = (if au_Bitrate c = 0 then 32000 else au_Bitrate c) in
       if bitrate < 24000 \<or> bitrate > 40000 then (running, Inl BadBitrate)
       else start_process rd running (microphone_arguments c bitrate))"

definition AudioOutput_Start :: "process_readings \<Rightarrow> audio_config \<Rightarrow> bool \<Rightarrow> bool \<Rightarrow> bool \<times> (media_error + string list)" where
  "AudioOutput_Start rd c source running = (
     if \<not> source then (running, Inl NoSource)
     else if \<not> pc_runtime rd then (running, Inl NoRuntime)
     else start_process rd running (speaker_arguments c))"

subsection \<open>RTP packets on a pipe\<close>

definition opusPayloadType :: byte where "opusPayloadType = 111"
definition maxRTPPacketSize :: nat where "maxRTPPacketSize = 8192"

datatype rtp_error = ReadFailed | BadPacketSize nat | BadPacket | EncodeFailed | PacketTooLarge

record 'p rtp_codec =
  rtp_Marshal :: "'p \<Rightarrow> byte list option"
  rtp_Unmarshal :: "byte list \<Rightarrow> 'p option"
  rtp_SetPayloadType :: "byte \<Rightarrow> 'p \<Rightarrow> 'p"

text \<open>A read takes what the pipe still delivers, up to its end, and leaves the rest.\<close>

definition readRTPStreamPacket :: "'p rtp_codec \<Rightarrow> byte list \<Rightarrow> (rtp_error + 'p) \<times> byte list" where
  "readRTPStreamPacket pn s = (
     if length s < 2 then (Inl ReadFailed, [])
     else
       let n = be_val (take 2 s); s = drop 2 s in
       if n < 12 \<or> n > maxRTPPacketSize then (Inl (BadPacketSize n), s)
       else if length s < n then (Inl ReadFailed, [])
       else (case rtp_Unmarshal pn (take n s) of
           None \<Rightarrow> (Inl BadPacket, drop n s)
         | Some packet \<Rightarrow> (Inr packet, drop n s)))"

definition writeRTPStreamPacket :: "'p rtp_codec \<Rightarrow> 'p \<Rightarrow> rtp_error + byte list" where
  "writeRTPStreamPacket pn packet = (case rtp_Marshal pn packet of
       None \<Rightarrow> Inl EncodeFailed
     | Some encoded \<Rightarrow>
         if length encoded > maxRTPPacketSize then Inl PacketTooLarge
         else Inr (be_bytes 2 (length encoded) @ encoded))"

lemma read_shorter: "readRTPStreamPacket pn s = (Inr packet, rest) \<Longrightarrow> length rest < length s"
  by (auto simp: readRTPStreamPacket_def Let_def split: if_splits option.splits)

text \<open>The microphone's loop reads packets until the first error.\<close>

function capture_packets :: "'p rtp_codec \<Rightarrow> byte list \<Rightarrow> 'p list" where
  "capture_packets pn s = (case readRTPStreamPacket pn s of
       (Inl e, rest) \<Rightarrow> []
     | (Inr packet, rest) \<Rightarrow> packet # capture_packets pn rest)"
  by pat_completeness auto
termination by (relation "measure (length \<circ> snd)") (auto dest: read_shorter[OF sym])

declare capture_packets.simps [simp del]

text \<open>The queue of ten packets between the loop and the call: a full one loses its oldest.\<close>

definition offer_packet :: "'p list \<Rightarrow> 'p \<Rightarrow> 'p list" where
  "offer_packet packets packet = (if length packets < 10 then packets @ [packet] else tl packets @ [packet])"

text \<open>
  The speaker's loop: \<open>None\<close> is a nil packet; each packet comes with whether the pipe takes it, and
  the loop ends with the first that cannot be written.
\<close>

fun speaker_bytes :: "'p rtp_codec \<Rightarrow> ('p option \<times> bool) list \<Rightarrow> byte list" where
  "speaker_bytes pn [] = []"
| "speaker_bytes pn ((None, taken) # packets) = speaker_bytes pn packets"
| "speaker_bytes pn ((Some packet, taken) # packets) = (
     case writeRTPStreamPacket pn (rtp_SetPayloadType pn opusPayloadType packet) of
       Inl e \<Rightarrow> []
     | Inr framed \<Rightarrow> if taken then framed @ speaker_bytes pn packets else [])"

subsection \<open>Camera frames\<close>

record video_frame =
  cf_Pixels :: "byte list"
  cf_Width :: int
  cf_Height :: int

text \<open>The frames of a pipe: whole ones only; the time of each is read when it is complete.\<close>

function camera_frames :: "int \<Rightarrow> int \<Rightarrow> byte list \<Rightarrow> video_frame list" where
  "camera_frames width height s = (
     let frameSize = nat (width * height) in
     if frameSize = 0 \<or> length s < frameSize then []
     else \<lparr>cf_Pixels = take frameSize s, cf_Width = width, cf_Height = height\<rparr> # camera_frames width height (drop frameSize s))"
  by pat_completeness auto
termination by (relation "measure (\<lambda>(width, height, s). length s)") auto

declare camera_frames.simps [simp del]

definition offer_frame :: "'f list \<Rightarrow> 'f \<Rightarrow> 'f list" where
  "offer_frame frames f = (if length frames < 1 then frames @ [f]
     else let frames = tl frames in if length frames < 1 then frames @ [f] else frames)"

subsection \<open>What a process reports\<close>

record limited_writer =
  lw_destination :: "byte list"
  lw_remaining :: nat

definition new_limited_writer :: limited_writer where
  "new_limited_writer = \<lparr>lw_destination = [], lw_remaining = 4096\<rparr>"

text \<open>A write to the destination, a buffer in memory, does not fail.\<close>

definition limited_write :: "byte list \<Rightarrow> limited_writer \<Rightarrow> limited_writer \<times> nat" where
  "limited_write data w = (
     let originalLength = length data;
         data = (if length data > lw_remaining w then take (lw_remaining w) data else data) in
     (if length data > 0
      then w\<lparr>lw_destination := lw_destination w @ data, lw_remaining := lw_remaining w - length data\<rparr> else w, originalLength))"

subsection \<open>The framing reads back\<close>

text \<open>What Pion is relied on for: packets are at least their header long and read back.\<close>

definition rtp_laws :: "'p rtp_codec \<Rightarrow> bool" where
  "rtp_laws pn \<longleftrightarrow> (\<forall>p encoded. rtp_Marshal pn p = Some encoded \<longrightarrow> 12 \<le> length encoded \<and> rtp_Unmarshal pn encoded = Some p)"

lemma read_written:
  assumes "rtp_laws pn" "writeRTPStreamPacket pn p = Inr framed"
  shows "readRTPStreamPacket pn (framed @ rest) = (Inr p, rest)"
proof -
  obtain encoded where e: "rtp_Marshal pn p = Some encoded" "length encoded \<le> maxRTPPacketSize" "framed = be_bytes 2 (length encoded) @ encoded"
    using assms(2) by (auto simp: writeRTPStreamPacket_def split: option.splits if_splits)
  have "be_val (be_bytes 2 (length encoded)) = length encoded"
    using e(2) by (intro be_val_bytes) (simp add: maxRTPPacketSize_def)
  moreover have "12 \<le> length encoded" "rtp_Unmarshal pn encoded = Some p" using assms(1) e(1) by (auto simp: rtp_laws_def)
  ultimately show ?thesis using e by (simp add: readRTPStreamPacket_def Let_def)
qed

text \<open>Whatever is left of a packet whose end is missing is no packet.\<close>

lemma read_cut:
  assumes "writeRTPStreamPacket pn p = Inr framed" "n < length framed"
  shows "\<exists>e rest. readRTPStreamPacket pn (take n framed) = (Inl e, rest)"
proof -
  obtain encoded where e: "framed = be_bytes 2 (length encoded) @ encoded" "length encoded \<le> maxRTPPacketSize"
    using assms(1) by (auto simp: writeRTPStreamPacket_def split: option.splits if_splits)
  show ?thesis
  proof (cases "n < 2")
    case False
    then have "take n framed = be_bytes 2 (length encoded) @ take (n - 2) encoded" by (simp add: e(1))
    moreover have "be_val (be_bytes 2 (length encoded)) = length encoded"
      using e(2) by (intro be_val_bytes) (simp add: maxRTPPacketSize_def)
    ultimately show ?thesis using assms(2) False by (auto simp: readRTPStreamPacket_def e(1) Let_def)
  qed (simp add: readRTPStreamPacket_def min_def)
qed

lemma capture_written:
  assumes "rtp_laws pn" "\<forall>p \<in> set ps. \<exists>framed. writeRTPStreamPacket pn p = Inr framed"
  shows "capture_packets pn (concat (map (\<lambda>p. projr (writeRTPStreamPacket pn p)) ps) @ rest) = ps @ capture_packets pn rest"
  using assms(2)
proof (induction ps)
  case (Cons p ps)
  then obtain framed where w: "writeRTPStreamPacket pn p = Inr framed" by auto
  with Cons show ?case
    by (subst capture_packets.simps) (simp add: read_written[OF assms(1) w, simplified])
qed simp

text \<open>
  Packets that were written to a pipe one after the other are read from it in the same order,
  each as it was, and if the process ends in the middle of another packet, or writes nothing more,
  those before it are read all the same and the cut one is not.
\<close>

theorem packets_read_back:
  assumes "rtp_laws pn" "\<forall>p \<in> set (ps @ [last_packet]). \<exists>framed. writeRTPStreamPacket pn p = Inr framed"
    and "n < length (projr (writeRTPStreamPacket pn last_packet))"
  shows "capture_packets pn (concat (map (\<lambda>p. projr (writeRTPStreamPacket pn p)) ps) @ take n (projr (writeRTPStreamPacket pn last_packet))) = ps"
proof -
  obtain framed where w: "writeRTPStreamPacket pn last_packet = Inr framed" using assms(2) by auto
  from w obtain e rest where "readRTPStreamPacket pn (take n framed) = (Inl e, rest)" using read_cut[OF w, of n] assms(3) by auto
  then have "capture_packets pn (take n framed) = []" by (simp add: capture_packets.simps)
  with capture_written[OF assms(1), of ps "take n framed"] assms(2) w show ?thesis by simp
qed

text \<open>Packets as their bytes, to evaluate the framing at.\<close>

definition demo_rtp :: "byte list rtp_codec" where
  "demo_rtp = \<lparr>rtp_Marshal = (\<lambda>p. if 12 \<le> length p then Some p else None), rtp_Unmarshal = Some,
     rtp_SetPayloadType = (\<lambda>t p. p[1 := t])\<rparr>"

theorem packets_read_back_witness:
  "capture_packets demo_rtp ((0 # 12 # replicate 12 7) @ (0 # 13 # replicate 13 8) @ take 5 (0 # 12 # replicate 12 9)) =
    [replicate 12 7, replicate 13 8]"
proof -
  have laws: "rtp_laws demo_rtp" by (simp add: rtp_laws_def demo_rtp_def)
  have framed: "writeRTPStreamPacket demo_rtp (replicate 12 b) = Inr (0 # 12 # replicate 12 b)"
    "writeRTPStreamPacket demo_rtp (replicate 13 b) = Inr (0 # 13 # replicate 13 b)" for b
    by (simp_all add: writeRTPStreamPacket_def demo_rtp_def maxRTPPacketSize_def numeral_2_eq_2)
  have ok: "\<forall>p \<in> set ([replicate 12 7, replicate 13 8] @ [replicate 12 9]). \<exists>framed. writeRTPStreamPacket demo_rtp p = Inr framed"
    using framed by auto
  have cut: "5 < length (projr (writeRTPStreamPacket demo_rtp (replicate 12 9)))" by (simp add: framed)
  from packets_read_back[OF laws ok cut] show ?thesis by (simp add: framed)
qed

definition kept :: "byte list \<Rightarrow> limited_writer" where
  "kept written = \<lparr>lw_destination = take 4096 written, lw_remaining = 4096 - length (take 4096 written)\<rparr>"

lemma limited_kept: "fst (limited_write data (kept written)) = kept (written @ data)"
  by (auto simp: limited_write_def kept_def Let_def min_def)

text \<open>What is kept of a process's messages is their first 4096 bytes, and every write is accepted whole.\<close>

lemma limited_writes:
  "fold (\<lambda>data w. fst (limited_write data w)) ds new_limited_writer = kept (concat ds)"
  "snd (limited_write data w) = length data"
proof -
  have "fold (\<lambda>data w. fst (limited_write data w)) ds (kept s) = kept (s @ concat ds)" for s
    by (induction ds arbitrary: s) (simp_all add: limited_kept)
  from this[of "[]"] show "fold (\<lambda>data w. fst (limited_write data w)) ds new_limited_writer = kept (concat ds)"
    by (simp add: kept_def new_limited_writer_def)
qed (simp add: limited_write_def Let_def)

end
