(* ===== verification/Session_Entry.thy ===== *)
theory Session_Entry
  imports Session_Properties Media
begin

text \<open>
  How a call is entered, \<open>runSession\<close> of \<open>internal/client/app/app.go\<close> up to its loop: the servers of the
  peer connection, the connection (\<open>peer.New\<close>), microphone and speaker, the caller's offer, and then the
  state the loop of \<open>Session\<close> starts from.  It ties \<open>Call_Setup\<close>, \<open>Peer\<close>, \<open>Media\<close> and \<open>Session\<close>
  together.
\<close>

subsection \<open>Entering\<close>

datatype entry_error = NoServers app_error | NoConnection peer_error | NoOffer peer_error

record entry_config =
  ec_STUNURLs :: "string list"
  ec_AccessKey :: string
  ec_RelayOnly :: bool
  ec_Microphone :: string
  ec_AudioBitrate :: int
  ec_Speaker :: string
  ec_session :: session_config

text \<open>What is read on the way: the answer of the TURN service, what Pion does, the media processes.\<close>

record entry_readings =
  er_turn :: turn_answer
  er_now :: time
  er_connection :: bool
  er_track :: bool
  er_control :: "data_channel option"
  er_video :: "data_channel option"
  er_microphone :: process_readings
  er_speaker :: process_readings

record entered =
  en_servers :: "ice_server list"
  en_peer :: peer
  en_microphone :: "string list option"
  en_speaker :: "string list option"
  en_session :: session

text \<open>All of \<open>peer.New\<close>: the state, Pion's connection, the audio track, a caller's channels.\<close>

definition connection_new :: "entry_readings \<Rightarrow> role \<Rightarrow> bool \<Rightarrow> peer_error + peer" where
  "connection_new rd r audio = (case peer_new r \<lparr>pcf_QueueSize = 0, pcf_MaxVideoBufferedAmount = 0, pcf_Audio = audio\<rparr> of
       Inl e \<Rightarrow> Inl e
     | Inr p \<Rightarrow>
         if \<not> er_connection rd then Inl ErrPion
         else if audio \<and> \<not> er_track rd then Inl ErrPion
         else peer_channels (er_control rd) (er_video rd) p)"

text \<open>A process that could not be started is reported, and the call goes on without it.\<close>

definition optional_process :: "bool \<times> (media_error + string list) \<Rightarrow> string list option" where
  "optional_process started = (case snd started of Inl e \<Rightarrow> None | Inr arguments \<Rightarrow> Some arguments)"

definition session_enter ::
  "pion \<Rightarrow> entry_readings \<Rightarrow> entry_config \<Rightarrow> role \<Rightarrow> string \<Rightarrow> string \<Rightarrow> entry_error + entered" where
  "session_enter pn rd c r callID remote = (
     case prepareICEServers (ec_STUNURLs c) (ec_AccessKey c) (ec_RelayOnly c) (er_turn rd) (er_now rd) of
       Inl e \<Rightarrow> Inl (NoServers e)
     | Inr servers \<Rightarrow>
         let audio = sc_audio (ec_session c) in
         case connection_new rd r audio of
           Inl e \<Rightarrow> Inl (NoConnection e)
         | Inr p \<Rightarrow>
             let microphone = (if audio then optional_process (AudioInput_Start (er_microphone rd)
                   \<lparr>au_Device = ec_Microphone c, au_Bitrate = ec_AudioBitrate c\<rparr> False) else None);
                 speaker = (if audio then optional_process (AudioOutput_Start (er_speaker rd)
                   \<lparr>au_Device = ec_Speaker c, au_Bitrate = 0\<rparr> True False) else None);
                 enter = (\<lambda>p. Inr \<lparr>en_servers = servers, en_peer = p, en_microphone = microphone, en_speaker = speaker,
                   en_session = session_start (ec_session c) r callID remote (microphone \<noteq> None)\<rparr>)
             in if r = RoleCaller
                then (case peer_Start pn p of (p, Some e) \<Rightarrow> Inl (NoOffer e) | (p, None) \<Rightarrow> enter p)
                else enter p)"

subsection \<open>The peer a session starts with\<close>

lemma connection_fresh:
  assumes "connection_new rd r audio = Inr p"
  shows "\<not> pr_closed p \<and> pr_role p = r \<and> pr_signals p = [] \<and> pr_audio p = audio \<and>
    (pr_channel p \<noteq> None \<longleftrightarrow> r = RoleCaller) \<and> (pr_videoChannel p \<noteq> None \<longleftrightarrow> r = RoleCaller) \<and>
    (\<forall>ch. pr_channel p = Some ch \<longrightarrow> ch_Label ch = ControlChannelLabel \<and> ch_Ordered ch \<and> ch_MaxRetransmits ch = None) \<and>
    (\<forall>ch. pr_videoChannel p = Some ch \<longrightarrow> ch_Label ch = VideoChannelLabel \<and> \<not> ch_Ordered ch \<and> ch_MaxRetransmits ch = Some 0)"
  using assms
  by (auto simp: connection_new_def peer_new_def peer_channels_def attachControlChannel_def attachVideoChannel_def Let_def
      split: if_splits option.splits prod.splits sum.splits)

lemma start_offers:
  assumes "peer_Start pn p = (p', None)" "\<not> pr_closed p"
  shows "\<exists>d. pr_signals p' = pr_signals p @ [description_signal d] \<and> pi_local pn (pr_log p') = Some d \<and> \<not> pr_closed p' \<and>
    pr_role p' = pr_role p \<and> pr_audio p' = pr_audio p \<and> pr_channel p' = pr_channel p \<and> pr_videoChannel p' = pr_videoChannel p"
  using assms
  by (auto simp: peer_Start_def contextError_def createOffer_def announce_local_def perform_def emitSignal_def Let_def
      split: if_splits option.splits prod.splits bool.splits)

lemma microphone_process:
  assumes "optional_process (AudioInput_Start rd c False) = Some arguments"
  shows "\<exists>bitrate. 24000 \<le> bitrate \<and> bitrate \<le> 40000 \<and> arguments = microphone_arguments c bitrate"
proof (rule exI)
  show "24000 \<le> (if au_Bitrate c = 0 then 32000 else au_Bitrate c) \<and> (if au_Bitrate c = 0 then 32000 else au_Bitrate c) \<le> 40000 \<and>
    arguments = microphone_arguments c (if au_Bitrate c = 0 then 32000 else au_Bitrate c)"
    using assms by (auto simp: optional_process_def AudioInput_Start_def start_process_def Let_def split: if_splits sum.splits)
qed

text \<open>
  What a session that was entered has: with the relay policy a relay among its servers; an open peer of
  its role; for a caller both channels of the right kind and one description to announce, for a callee
  nothing yet; no media process in a call without sound, and a microphone whose rate is in bounds; and it
  sends audio exactly if the microphone runs.
\<close>

theorem session_entered:
  assumes "session_enter pn rd c r callID remote = Inr e"
  shows "(ec_RelayOnly c \<longrightarrow> (\<exists>s \<in> set (en_servers e). \<exists>u \<in> set (ice_URLs s). ValidTURNURL u)) \<and>
    \<not> pr_closed (en_peer e) \<and> pr_role (en_peer e) = r \<and>
    (r = RoleCaller \<longrightarrow> pr_channel (en_peer e) \<noteq> None \<and> pr_videoChannel (en_peer e) \<noteq> None \<and>
       (\<exists>d. pr_signals (en_peer e) = [description_signal d] \<and> pi_local pn (pr_log (en_peer e)) = Some d)) \<and>
    (r \<noteq> RoleCaller \<longrightarrow> pr_signals (en_peer e) = []) \<and>
    (\<not> sc_audio (ec_session c) \<longrightarrow> en_microphone e = None \<and> en_speaker e = None) \<and>
    (\<forall>arguments. en_microphone e = Some arguments \<longrightarrow> (\<exists>bitrate. 24000 \<le> bitrate \<and> bitrate \<le> 40000 \<and>
       arguments = microphone_arguments \<lparr>au_Device = ec_Microphone c, au_Bitrate = ec_AudioBitrate c\<rparr> bitrate)) \<and>
    se_audioPackets (en_session e) = (en_microphone e \<noteq> None) \<and> se_role (en_session e) = r \<and> se_result (en_session e) = None"
proof -
  from assms obtain servers p where s: "prepareICEServers (ec_STUNURLs c) (ec_AccessKey c) (ec_RelayOnly c) (er_turn rd) (er_now rd) = Inr servers"
    and p: "connection_new rd r (sc_audio (ec_session c)) = Inr p"
    by (auto simp: session_enter_def Let_def split: sum.splits)
  note enter = assms[unfolded session_enter_def s p Let_def sum.case]
  have audio: "se_audioPackets (session_start sc r callID remote m) = (sc_audio sc \<and> m)" "se_role (session_start sc r callID remote m) = r"
    "se_result (session_start sc r callID remote m) = None" for sc m by (simp_all add: session_start_def Let_def)
  have relay: "ec_RelayOnly c \<longrightarrow> (\<exists>s \<in> set servers. \<exists>u \<in> set (ice_URLs s). ValidTURNURL u)"
    using prepared_servers[OF s] by blast
  note fresh = connection_fresh[OF p]
  show ?thesis
  proof (cases "r = RoleCaller")
    case False
    then show ?thesis using enter relay fresh audio by (auto dest: microphone_process)
  next
    case True
    with enter obtain p' where start: "peer_Start pn p = (p', None)" by (auto split: prod.splits option.splits)
    from start_offers[OF this] fresh True show ?thesis
      using enter relay audio by (auto simp: start dest: microphone_process)
  qed
qed

text \<open>
  The first thing a caller's session says about media is its offer: when the loop takes the one signal
  the peer has, it is forwarded to the other end.
\<close>

theorem offer_goes_first:
  assumes "session_enter pn rd c RoleCaller callID remote = Inr e" "rr_sends rr"
    and "\<forall>l d. pi_local pn l = Some d \<longrightarrow> sd_Type d = SDPTypeOffer"
  shows "\<exists>d. pr_signals (en_peer e) = [description_signal d] \<and>
    se_out (session_step rr (InPeerSignal (description_signal d)) (en_session e)) = [SignalSent SignalWebRTCOffer (Some (marshal_sdp (sd_SDP d))) True]"
proof -
  from session_entered[OF assms(1)] obtain d where d: "pr_signals (en_peer e) = [description_signal d]" "pi_local pn (pr_log (en_peer e)) = Some d"
    by auto
  have "se_out (en_session e) = []" "se_signalingAvailable (en_session e)" "se_result (en_session e) = None"
    using assms(1) by (auto simp: session_enter_def session_start_def Let_def split: sum.splits prod.splits option.splits)
  then have "se_out (session_step rr (InPeerSignal (description_signal d)) (en_session e)) =
      [SignalSent SignalWebRTCOffer (Some (marshal_sdp (sd_SDP d))) True]"
    using assms(2) assms(3)[rule_format, OF d(2)]
    by (simp add: session_step_def on_peer_signal_def forwardPeerSignal_def description_signal_def send_signal_def emit_def Let_def)
  with d(1) show ?thesis by blast
qed

text \<open>Sound is optional: whether the media processes start changes nothing but the sound.\<close>

lemma sound_is_optional:
  assumes "session_enter pn rd c r callID remote = Inr e"
  shows "\<exists>e'. session_enter pn (rd\<lparr>er_microphone := m, er_speaker := s\<rparr>) c r callID remote = Inr e' \<and>
    en_servers e' = en_servers e \<and> en_peer e' = en_peer e \<and>
    (en_session e')\<lparr>se_audioPackets := False\<rparr> = (en_session e)\<lparr>se_audioPackets := False\<rparr>"
proof -
  have same: "connection_new (rd\<lparr>er_microphone := m, er_speaker := s\<rparr>) r audio = connection_new rd r audio" for audio
    by (auto simp: connection_new_def split: sum.split)
  have quiet: "(session_start sc r' callID remote b)\<lparr>se_audioPackets := False\<rparr> = (session_start sc r' callID remote b')\<lparr>se_audioPackets := False\<rparr>"
    for sc r' b b' by (simp add: session_start_def Let_def split: prod.split)
  show ?thesis
    using assms unfolding session_enter_def Let_def same
    by (cases "prepareICEServers (ec_STUNURLs c) (ec_AccessKey c) (ec_RelayOnly c) (er_turn rd) (er_now rd)";
        cases "connection_new rd r (sc_audio (ec_session c))"; cases "r = RoleCaller")
      (auto intro!: quiet split: prod.splits option.splits)
qed

subsection \<open>A concrete entry\<close>

definition demo_process :: process_readings where
  "demo_process = \<lparr>pc_runtime = True, pc_pipe = True, pc_starts = True\<rparr>"

definition demo_entry :: entry_readings where
  "demo_entry = \<lparr>er_turn = Granted demo_turn, er_now = 50, er_connection = True, er_track = True,
     er_control = Some \<lparr>ch_id = 1, ch_Label = ControlChannelLabel, ch_Ordered = True, ch_MaxPacketLifeTime = None, ch_MaxRetransmits = None\<rparr>,
     er_video = Some \<lparr>ch_id = 2, ch_Label = VideoChannelLabel, ch_Ordered = False, ch_MaxPacketLifeTime = None, ch_MaxRetransmits = Some 0\<rparr>,
     er_microphone = demo_process, er_speaker = demo_process\<lparr>pc_starts := False\<rparr>\<rparr>"

definition demo_entry_config :: entry_config where
  "demo_entry_config = \<lparr>ec_STUNURLs = [''stun:stun.example''], ec_AccessKey = ''key'', ec_RelayOnly = False, ec_Microphone = [],
     ec_AudioBitrate = 0, ec_Speaker = [], ec_session = demo_config\<rparr>"

lemma demo_entered: "\<exists>e. session_enter demo_pion demo_entry demo_entry_config RoleCaller demo_uuid ''bob'' = Inr e \<and> en_microphone e \<noteq> None"
proof -
  have url: "ValidTURNURL ''turn:relay.example:3478''" by code_simp
  have "prepareICEServers [''stun:stun.example''] ''key'' False (Granted demo_turn) 50 = Inr (iceServers [''stun:stun.example''] @ tc_ICEServers demo_turn)"
    using url by (simp add: prepareICEServers_def demo_turn_def Let_def)
  then show ?thesis
    by (simp add: session_enter_def demo_entry_def demo_entry_config_def demo_config_def connection_new_def peer_new_def
        peer_channels_def attachControlChannel_def attachVideoChannel_def peer_Start_def contextError_def createOffer_def announce_local_def
        perform_def emitSignal_def demo_pion_def optional_process_def AudioInput_Start_def start_process_def demo_process_def Let_def)
qed

theorem offer_goes_first_witness:
  "\<exists>e d. session_enter demo_pion demo_entry demo_entry_config RoleCaller demo_uuid ''bob'' = Inr e \<and>
     se_out (session_step demo_readings (InPeerSignal (description_signal d)) (en_session e)) =
       [SignalSent SignalWebRTCOffer (Some (marshal_sdp (sd_SDP d))) True]"
proof -
  from demo_entered obtain e where e: "session_enter demo_pion demo_entry demo_entry_config RoleCaller demo_uuid ''bob'' = Inr e" by blast
  have sends: "rr_sends demo_readings" by (simp add: demo_readings_def)
  have offers: "\<forall>l d. pi_local demo_pion l = Some d \<longrightarrow> sd_Type d = SDPTypeOffer" by (auto simp: demo_pion_def)
  from offer_goes_first[OF e sends offers] e show ?thesis by blast
qed

end
