(* ===== verification/Session_End.thy ===== *)
theory Session_End
  imports Session_Properties
begin

text \<open>
  A session whose connection is lost does not go on for ever: the time it waits for the connection is fixed
  when it is lost, and nothing but a new connection stops the timer (\<open>runSession\<close> in
  \<open>internal/client/app/app.go\<close>).
\<close>

subsection \<open>The reconnect timer\<close>

definition recovers :: "session_input \<Rightarrow> bool" where
  "recovers i \<longleftrightarrow> (case i of InPeerEvent (EventConnectionState ConnConnected route) \<Rightarrow> True | _ \<Rightarrow> False)"

lemma deadline_small [simp]:
  "se_reconnectDeadline (emit x s) = se_reconnectDeadline s"
  "se_reconnectDeadline (session_return rd e s) = se_reconnectDeadline s"
  "se_reconnectDeadline (send_signal rd t p s) = se_reconnectDeadline s"
  "se_reconnectDeadline (fst (send_control rd m s)) = se_reconnectDeadline s"
  "se_reconnectDeadline (set_peer_error rd pe s) = se_reconnectDeadline s"
  by (simp_all add: emit_def session_return_def send_signal_def send_control_def set_peer_error_def Let_def)

lemma deadline_must_send:
  "(\<And>s. se_reconnectDeadline (k s) = se_reconnectDeadline s) \<Longrightarrow> se_reconnectDeadline (must_send rd m k s) = se_reconnectDeadline s"
  by (simp add: must_send_def send_control_def Let_def split: option.split)

lemma deadline_media [simp]:
  "se_reconnectDeadline (on_camera rd f s) = se_reconnectDeadline s"
  "se_reconnectDeadline (on_microphone ok s) = se_reconnectDeadline s"
  "se_reconnectDeadline (on_video rd data s) = se_reconnectDeadline s"
  "se_reconnectDeadline (on_peer_signal rd p s) = se_reconnectDeadline s"
  "se_reconnectDeadline (on_hello rd h s) = se_reconnectDeadline s"
  by (simp_all add: on_camera_def on_microphone_def on_video_def on_peer_signal_def on_hello_def Let_def
      split: option.split sum.split prod.split)

lemma deadline_signal [simp]: "se_reconnectDeadline (on_signal rd m s) = se_reconnectDeadline s"
  by (cases m) (auto simp: on_signal_def split: signal_type.split sum.split option.split)

lemma deadline_control [simp]: "se_reconnectDeadline (on_control rd m s) = se_reconnectDeadline s"
  by (cases "cm_type m") (auto simp: on_control_def Let_def split: option.split)

lemma deadline_line [simp]: "se_reconnectDeadline (on_line rd x s) = se_reconnectDeadline s"
  by (simp add: on_line_def Let_def deadline_must_send)

lemma deadline_connection:
  "st \<noteq> ConnConnected \<Longrightarrow> se_reconnectDeadline s = Some d \<Longrightarrow> se_reconnectDeadline (on_connection rd st route s) = Some d"
  by (cases st) (auto simp: on_connection_def start_reconnect_def Let_def)

lemma deadline_case:
  assumes "\<not> recovers i" "se_reconnectDeadline s = Some d"
  shows "se_reconnectDeadline (session_case rd i s) = Some d"
proof (cases i)
  case (InPeerEvent e)
  then show ?thesis
    using assms deadline_connection by (cases e) (auto simp: on_peer_event_def deadline_must_send recovers_def split: connection_state.splits)
qed (use assms in \<open>auto simp: on_signaling_error_def\<close>)

lemma deadline_run:
  assumes "se_reconnectDeadline s = Some d" "\<forall>(rd, i) \<in> set steps. \<not> recovers i"
  shows "se_reconnectDeadline (session_run steps s) = Some d"
  by (rule session_run_induct[where P = "\<lambda>s. se_reconnectDeadline s = Some d"]) (use assms deadline_case in auto)

lemma outage_starts:
  assumes "st = ConnDisconnected \<or> st = ConnFailed" "se_result s = None" "se_reconnectDeadline s = None"
  shows "se_reconnectDeadline (session_step rd (InPeerEvent (EventConnectionState st route)) s) = Some (rr_now rd + sc_reconnect (se_config s))"
  using assms by (auto simp: session_step_def on_peer_event_def on_connection_def start_reconnect_def Let_def)

text \<open>A peer connection that is closed leaves half a second for the end of the call to arrive.\<close>

lemma close_condemns:
  assumes "se_result s = None" "se_pendingPeerError s = None"
  shows "condemned PeerConnectionClosed (rr_now rd + second div 2) (session_step rd (InPeerEvent (EventConnectionState ConnClosed route)) s)"
  using assms by (simp add: session_step_def on_peer_event_def on_connection_def set_peer_error_def condemned_def)

text \<open>What the lost connection leaves of a session's life, and the timer that ends it.\<close>

definition last_wait :: "connection_state \<Rightarrow> session \<Rightarrow> duration" where
  "last_wait st s = (if st = ConnClosed then second div 2 else sc_reconnect (se_config s))"

definition last_timer :: "connection_state \<Rightarrow> session_input" where
  "last_timer st = (if st = ConnClosed then InPeerErrorTimer else InReconnectTimer)"

text \<open>
  C34: A call whose connection is lost ends.  Whatever the session is told, shown or asked to do
  meanwhile, the timer started at the loss is never put off: when its time has passed it ends the session
  that is still running, unless the connection was restored first; and once the peer is closed nothing
  restores it.
\<close>

theorem lost_connection_ends_session:
  assumes "st = ConnDisconnected \<or> st = ConnFailed \<or> st = ConnClosed"
    and "se_result s = None" "se_reconnectDeadline s = None" "se_pendingPeerError s = None"
    and "s' = session_run steps (session_step rd (InPeerEvent (EventConnectionState st route)) s)"
    and "st = ConnClosed \<or> (\<forall>(rd, i) \<in> set steps. \<not> recovers i)"
    and "rr_now rd' \<ge> rr_now rd + last_wait st s"
  shows "se_result (session_step rd' (last_timer st) s') =
    (if se_result s' = None then Some (Some (if st = ConnClosed then PeerConnectionClosed else NotRecovered)) else se_result s')"
proof (cases "st = ConnClosed")
  case True
  have "condemned PeerConnectionClosed (rr_now rd + second div 2) s'"
    unfolding assms(5) True
    by (rule session_run_induct[where P = "condemned PeerConnectionClosed (rr_now rd + second div 2)"])
      (simp_all add: close_condemns assms(2,4) condemned_case)
  with assms(7) True show ?thesis by (auto simp: session_step_def condemned_def last_wait_def last_timer_def)
next
  case False
  with assms(1,6) have "se_reconnectDeadline s' = Some (rr_now rd + sc_reconnect (se_config s))"
    unfolding assms(5) by (intro deadline_run outage_starts) (use assms(2,3) in auto)
  with assms(7) False show ?thesis by (auto simp: session_step_def last_wait_def last_timer_def)
qed

theorem lost_connection_ends_session_witness:
  "se_result (session_step (demo_readings\<lparr>rr_now := demo_now + 20 * second\<rparr>) InReconnectTimer
    (session_run [(demo_readings, InLine ''hello''), (demo_readings, InPeerEvent (EventConnectionState ConnFailed ''unknown''))]
      (session_step demo_readings (InPeerEvent (EventConnectionState ConnDisconnected ''unknown'')) demo_open_session))) =
    Some (Some NotRecovered)"
proof -
  define steps where "steps = [(demo_readings, InLine ''hello''), (demo_readings, InPeerEvent (EventConnectionState ConnFailed ''unknown''))]"
  define s' where "s' = session_run steps (session_step demo_readings (InPeerEvent (EventConnectionState ConnDisconnected ''unknown'')) demo_open_session)"
  have start: "se_reconnectDeadline demo_open_session = None" "se_pendingPeerError demo_open_session = None" "se_result s' = None"
    by (simp_all add: s'_def steps_def session_step_def on_peer_event_def start_reconnect_def on_connection_def on_line_def
        must_send_def send_control_def emit_def demo_defs MaxChatTextSize_def Let_def)
  have quiet: "ConnDisconnected = ConnClosed \<or> (\<forall>(rd, i) \<in> set steps. \<not> recovers i)" by (simp add: steps_def recovers_def)
  have later: "rr_now (demo_readings\<lparr>rr_now := demo_now + 20 * second\<rparr>) \<ge> rr_now demo_readings + last_wait ConnDisconnected demo_open_session"
    by (simp add: last_wait_def demo_defs Let_def)
  have "ConnDisconnected = ConnDisconnected \<or> ConnDisconnected = ConnFailed \<or> ConnDisconnected = ConnClosed" by simp
  from lost_connection_ends_session[OF this demo_open_session(1) start(1,2) s'_def quiet later] start(3)
  show ?thesis by (simp add: s'_def steps_def last_timer_def)
qed

end
