(* ===== verification/Turn_Client.thy ===== *)
theory Turn_Client
  imports Call_Setup Json_Text Signaling_Client
begin

text \<open>
  How a client gets TURN credentials, \<open>internal/client/turn/client.go\<close>: the address it asks, the access
  key it shows there, and how it reads the answer, which \<open>internal/server/httpapi\<close> wrote.  The request
  itself is made by \<open>net/http\<close>: its outcome is an argument.  \<open>url.Parse\<close> gives the parts of a URL, and
  writing a URL from its parts is a parameter.
\<close>

subsection \<open>The request\<close>

record api_url = url_parts +
  url_Path :: string
  url_RawQuery :: string
  url_Fragment :: string

datatype api_error = BadSignalingURL | InsecureCredentials | UnknownScheme | BadRequest

definition trim_suffix :: "string \<Rightarrow> string \<Rightarrow> string" where
  "trim_suffix ending s = (if suffix ending s then take (length s - length ending) s else s)"

definition trim_right :: "char \<Rightarrow> string \<Rightarrow> string" where
  "trim_right c s = rev (dropWhile (\<lambda>d. d = c) (rev s))"

definition apiBase :: "(string \<Rightarrow> api_url option) \<Rightarrow> string \<Rightarrow> api_error + api_url" where
  "apiBase parse serverURL = (case parse serverURL of
       None \<Rightarrow> Inl BadSignalingURL
     | Some u \<Rightarrow>
         let scheme = (if url_Scheme u = ''ws'' then
               (if url_Hostname u \<noteq> ''localhost'' \<and> url_Hostname u \<noteq> ''127.0.0.1'' \<and> url_Hostname u \<noteq> ''::1''
                then Inl InsecureCredentials else Inr ''http'')
             else if url_Scheme u = ''wss'' then Inr ''https''
             else Inl UnknownScheme)
         in case scheme of Inl e \<Rightarrow> Inl e | Inr scheme \<Rightarrow>
           Inr (u\<lparr>url_Scheme := scheme, url_RawQuery := [], url_Fragment := [],
             url_Path := trim_right CHR ''/'' (trim_suffix ''/v1/ws'' (url_Path u))\<rparr>))"

record turn_request =
  tq_URL :: string
  tq_Authorization :: string

definition credentials_request ::
  "(string \<Rightarrow> api_url option) \<Rightarrow> (api_url \<Rightarrow> string) \<Rightarrow> bool \<Rightarrow> string \<Rightarrow> string \<Rightarrow> api_error + turn_request" where
  "credentials_request parse url_String fails serverURL accessKey = (case apiBase parse serverURL of
       Inl e \<Rightarrow> Inl e
     | Inr u \<Rightarrow>
         if fails then Inl BadRequest
         else Inr \<lparr>tq_URL = url_String u @ ''/v1/turn-credentials'',
           tq_Authorization = (if accessKey \<noteq> [] then ''Bearer '' @ accessKey else [])\<rparr>)"

subsection \<open>The answer\<close>

definition store_ice_server :: "string \<Rightarrow> string \<Rightarrow> json \<Rightarrow> ice_server \<Rightarrow> ice_server option" where
  "store_ice_server n raw v s = (
     if n = ''urls'' then map_option (\<lambda>x. s\<lparr>ice_URLs := x\<rparr>) (get_strings v (ice_URLs s))
     else if n = ''username'' then map_option (\<lambda>x. s\<lparr>ice_Username := x\<rparr>) (get_string v (ice_Username s))
     else map_option (\<lambda>x. s\<lparr>ice_Credential := x\<rparr>) (get_string v (ice_Credential s)))"

definition no_ice_server :: ice_server where
  "no_ice_server = \<lparr>ice_URLs = [], ice_Username = [], ice_Credential = []\<rparr>"

definition ice_fields :: "string list" where "ice_fields = [''urls'', ''username'', ''credential'']"

fun get_server_elements :: "(string \<times> json) list \<Rightarrow> ice_server list \<Rightarrow> ice_server list option" where
  "get_server_elements [] old = Some []"
| "get_server_elements ((raw, v) # es) old =
    Option.bind (store_struct store_ice_server ice_fields False v (case old of [] \<Rightarrow> no_ice_server | s # _ \<Rightarrow> s)) (\<lambda>s.
      map_option (\<lambda>ss. s # ss) (get_server_elements es (drop 1 old)))"

fun get_servers :: "json \<Rightarrow> ice_server list \<Rightarrow> ice_server list option" where
  "get_servers (JArray es) old = get_server_elements es old"
| "get_servers JNull old = Some []"
| "get_servers _ old = None"

definition store_turn :: "string \<Rightarrow> string \<Rightarrow> json \<Rightarrow> turn_credentials \<Rightarrow> turn_credentials option" where
  "store_turn n raw v c = (
     if n = ''expires_at'' then map_option (\<lambda>x. c\<lparr>tc_ExpiresAt := x\<rparr>) (get_time v (tc_ExpiresAt c))
     else map_option (\<lambda>x. c\<lparr>tc_ICEServers := x\<rparr>) (get_servers v (tc_ICEServers c)))"

definition turn_fields :: "string list" where "turn_fields = [''expires_at'', ''ice_servers'']"

definition no_credentials :: turn_credentials where
  "no_credentials = \<lparr>tc_ExpiresAt = 0, tc_ICEServers = []\<rparr>"

datatype http_answer = NoResponse | BodyUnread | HttpResponse nat string

text \<open>\<open>Credentials\<close>: an \<open>APIError\<close> keeps its status; its message is only shown.\<close>

datatype credentials_result = RequestFailed | BadBody | APIError nat | Credentials turn_credentials

definition read_credentials :: "http_answer \<Rightarrow> credentials_result" where
  "read_credentials answer = (case answer of
       NoResponse \<Rightarrow> RequestFailed
     | BodyUnread \<Rightarrow> RequestFailed
     | HttpResponse status sent \<Rightarrow>
         let body = take 65536 sent in
         if status < 200 \<or> status \<ge> 300 then APIError status
         else if length (trim_space body) \<noteq> 0 then
           (case decodeJSON (store_struct store_turn turn_fields False) body no_credentials of
              None \<Rightarrow> BadBody
            | Some c \<Rightarrow> Credentials c)
         else Credentials no_credentials)"

text \<open>What \<open>prepareICEServers\<close> makes of the result: only a missing endpoint is not an error.\<close>

definition turn_answer_of :: "credentials_result \<Rightarrow> turn_answer" where
  "turn_answer_of r = (case r of
       Credentials c \<Rightarrow> Granted c
     | APIError status \<Rightarrow> if status \<noteq> 404 then TURNError else NoEndpoint
     | _ \<Rightarrow> TURNError)"

subsection \<open>The server's text\<close>

definition json_array :: "string list \<Rightarrow> string" where
  "json_array ts = CHR ''['' # join_with CHR '','' ts @ '']''"

definition marshal_ice_server :: "ice_server \<Rightarrow> string" where
  "marshal_ice_server s = json_object (
     [(''urls'', json_array (map json_string (ice_URLs s)))] @
     optional_member ''username'' (ice_Username s) (json_string (ice_Username s)) @
     optional_member ''credential'' (ice_Credential s) (json_string (ice_Credential s)))"

text \<open>\<open>writeJSON\<close> of issued credentials, whose list of servers is never empty: one value and a newline.\<close>

definition marshal_turn :: "turn_credentials \<Rightarrow> string" where
  "marshal_turn c = json_object [(''expires_at'', json_quote (format_utc (tc_ExpiresAt c))),
     (''ice_servers'', json_array (map marshal_ice_server (tc_ICEServers c)))] @ [CHR 0x0A]"

text \<open>The key is shown only over an encrypted connection or to this host.\<close>

lemma apiBase_secure:
  assumes "apiBase parse serverURL = Inr base"
  shows "url_Scheme base = ''https'' \<or> local_hostname (url_Hostname base)" "url_Scheme base = ''https'' \<or> url_Scheme base = ''http''"
    "\<exists>u. parse serverURL = Some u \<and> url_Host base = url_Host u \<and> url_Hostname base = url_Hostname u"
    "url_RawQuery base = []" "url_Fragment base = []"
  using assms by (auto simp: apiBase_def local_hostname_def Let_def split: option.splits if_splits sum.splits)

subsection \<open>Arrays are read back\<close>

text \<open>A text that is read as a given value whatever follows it, so also inside an array.\<close>

definition reads_free :: "nat \<Rightarrow> string \<Rightarrow> json \<Rightarrow> bool" where
  "reads_free d t v \<longleftrightarrow> t \<noteq> [] \<and> \<not> is_json_space (hd t) \<and> hd t \<noteq> CHR '']'' \<and>
     (\<forall>f r. 2 * length t + 1 \<le> f \<longrightarrow> parse_value f d (t @ r) = Some (v, r))"

lemma free_reads: "reads_free d t v \<Longrightarrow> reads d t v"
  by (simp add: reads_free_def reads_def)

lemma reads_freeI:
  assumes "t \<noteq> []" "\<not> is_json_space (hd t)" "hd t \<noteq> CHR '']''" "\<And>g r. 2 * length t \<le> g \<Longrightarrow> parse_value (Suc g) d (t @ r) = Some (v, r)"
  shows "reads_free d t v"
proof -
  have "parse_value f d (t @ r) = Some (v, r)" if "2 * length t + 1 \<le> f" for f r
    using assms(4)[of "f - 1" r] that by (cases f) auto
  with assms(1-3) show ?thesis by (simp add: reads_free_def)
qed

lemma free_value: "reads_free d t v \<Longrightarrow> 2 * length t + 1 \<le> f \<Longrightarrow> parse_value f d (t @ r) = Some (v, r)"
  by (simp add: reads_free_def)

lemma skip_space_free: "reads_free d t v \<Longrightarrow> skip_space (t @ r) = t @ r"
  using skip_space_reads free_reads by blast

lemma free_string: "reads_free d (json_string s) (JString (json_escape s))"
  by (rule reads_freeI) (auto simp: json_string_def json_quote_def is_json_space_def scan_escaped)

lemma free_object:
  assumes "ms \<noteq> []" "\<forall>(k, t, v) \<in> set ms. plain_text k \<and> reads (Suc d) t v" "d < max_nesting"
  shows "reads_free d (json_object (texts ms)) (JObject ms)"
  by (rule reads_freeI; insert parse_written_object[OF assms, of _ False]; simp add: json_object_def is_json_space_def)

lemma parse_written_elements:
  assumes "es \<noteq> []" "\<forall>(t, v) \<in> set es. reads_free d t v" "2 * length (join_with CHR '','' (map fst es)) + 2 \<le> f"
  shows "parse_elements f d (join_with CHR '','' (map fst es) @ CHR '']'' # r) = Some (es, r)"
  using assms
proof (induction es arbitrary: f rule: induct_list012)
  case (2 e)
  obtain t v where e: "e = (t, v)" by (cases e)
  from 2 e obtain g where g: "f = Suc g" "2 * length t + 1 \<le> g" by (cases f) auto
  have t: "reads_free d t v" using 2 e by simp
  then have "parse_value g d (t @ CHR '']'' # r) = Some (v, CHR '']'' # r)" using g(2) by (simp add: reads_free_def)
  then show ?case by (simp add: e g(1) Let_def skip_space_def is_json_space_def)
next
  case (3 e e' es)
  obtain t v where e: "e = (t, v)" by (cases e)
  define more where "more = join_with CHR '','' (map fst (e' # es))"
  have t: "reads_free d t v" using 3(4) e by simp
  then have "t \<noteq> []" by (simp add: reads_free_def)
  then obtain g where g: "f = Suc g" "2 * length t + 1 \<le> g" "2 * length more + 2 \<le> g"
    using 3(5) e by (cases f; cases t) (auto simp: more_def)
  have IH: "parse_elements g d (more @ CHR '']'' # r) = Some (e' # es, r)"
    unfolding more_def by (rule 3(2)) (use 3 g(3) in \<open>auto simp: more_def\<close>)
  obtain t' v' where e': "e' = (t', v')" by (cases e')
  have t': "reads_free d t' v'" using 3(4) e' by simp
  have skip: "skip_space (more @ CHR '']'' # r) = more @ CHR '']'' # r"
  proof (cases es)
    case Nil
    then show ?thesis using skip_space_free[OF t'] by (simp add: more_def e')
  next
    case (Cons a as)
    then show ?thesis using skip_space_free[OF t', of "CHR '','' # join_with CHR '','' (map fst (a # as)) @ CHR '']'' # r"]
      by (simp add: more_def e')
  qed
  have val: "parse_value g d (t @ CHR '','' # more @ CHR '']'' # r) = Some (v, CHR '','' # more @ CHR '']'' # r)"
    using t g(2) by (simp add: reads_free_def)
  have "join_with CHR '','' (map fst (e # e' # es)) @ CHR '']'' # r = t @ CHR '','' # more @ CHR '']'' # r"
    by (simp add: e more_def)
  then show ?case unfolding g(1) parse_elements.simps(2)
    using val IH skip by (simp add: e Let_def)
qed simp

lemma free_array:
  assumes "es \<noteq> []" "\<forall>(t, v) \<in> set es. reads_free (Suc d) t v" "d < max_nesting"
  shows "reads_free d (json_array (map fst es)) (JArray es)"
proof (rule reads_freeI)
  fix g r assume g: "2 * length (json_array (map fst es)) \<le> g"
  obtain t v es' where es: "es = (t, v) # es'" using assms(1) by (cases es) auto
  then have t: "reads_free (Suc d) t v" using assms(2) by simp
  obtain u where join: "join_with CHR '','' (map fst es) = t @ u" by (cases es') (auto simp: es)
  have skip: "skip_space (join_with CHR '','' (map fst es) @ CHR '']'' # r) = join_with CHR '','' (map fst es) @ CHR '']'' # r"
    using skip_space_free[OF t, of "u @ CHR '']'' # r"] by (simp add: join)
  obtain c cs where first: "t = c # cs" "c \<noteq> CHR '']''" using t by (cases t) (auto simp: reads_free_def)
  have "parse_elements g (Suc d) (join_with CHR '','' (map fst es) @ CHR '']'' # r) = Some (es, r)"
    using assms(1,2) g by (intro parse_written_elements) (auto simp: json_array_def)
  then show "parse_value (Suc g) d (json_array (map fst es) @ r) = Some (JArray es, r)"
    using skip assms(3) first by (simp add: json_array_def join)
qed (simp_all add: json_array_def is_json_space_def)

subsection \<open>The answer is read back\<close>

definition valid_server :: "ice_server \<Rightarrow> ice_server" where
  "valid_server s = \<lparr>ice_URLs = map to_valid (ice_URLs s), ice_Username = to_valid (ice_Username s), ice_Credential = to_valid (ice_Credential s)\<rparr>"

definition read_string :: "string \<Rightarrow> string \<times> json" where
  "read_string s = (json_string s, JString (json_escape s))"

definition server_members :: "ice_server \<Rightarrow> (string \<times> string \<times> json) list" where
  "server_members s = [(''urls'', json_array (map json_string (ice_URLs s)), JArray (map read_string (ice_URLs s)))] @
     optional_read ''username'' (ice_Username s) (json_string (ice_Username s)) (JString (json_escape (ice_Username s))) @
     optional_read ''credential'' (ice_Credential s) (json_string (ice_Credential s)) (JString (json_escape (ice_Credential s)))"

definition read_server :: "ice_server \<Rightarrow> string \<times> json" where
  "read_server s = (marshal_ice_server s, JObject (server_members s))"

definition turn_members :: "turn_credentials \<Rightarrow> (string \<times> string \<times> json) list" where
  "turn_members c = [string_member ''expires_at'' (format_utc (tc_ExpiresAt c)),
     (''ice_servers'', json_array (map marshal_ice_server (tc_ICEServers c)), JArray (map read_server (tc_ICEServers c)))]"

lemma turn_keys: "plain_text ''urls''" "plain_text ''username''" "plain_text ''credential''" "plain_text ''expires_at''" "plain_text ''ice_servers''"
  by code_simp+

lemma to_valid_Nil: "to_valid [] = []"
  by (simp add: to_valid.simps)

lemma free_server:
  assumes "ice_URLs s \<noteq> []" "Suc d < max_nesting"
  shows "reads_free d (marshal_ice_server s) (JObject (server_members s))"
proof -
  have "reads_free (Suc d) (json_array (map fst (map read_string (ice_URLs s)))) (JArray (map read_string (ice_URLs s)))"
    using assms free_string by (intro free_array) (auto simp: read_string_def)
  then have "reads (Suc d) (json_array (map json_string (ice_URLs s))) (JArray (map read_string (ice_URLs s)))"
    by (intro free_reads) (simp add: comp_def read_string_def)
  then have "reads_free d (json_object (texts (server_members s))) (JObject (server_members s))"
    using turn_keys assms(2) reads_json_string by (intro free_object) (auto simp: server_members_def optional_read_def)
  moreover have "marshal_ice_server s = json_object (texts (server_members s))"
    by (simp add: marshal_ice_server_def server_members_def optional_member_def optional_read_def)
  ultimately show ?thesis by simp
qed

lemma get_strings_read: "get_elements (map read_string us) [] = Some (map to_valid us)"
  by (induction us) (simp_all add: read_string_def unquote_escaped)

lemma store_server_read: "store_struct store_ice_server ice_fields False (JObject (server_members s)) no_ice_server = Some (valid_server s)"
  using turn_keys
  by (simp add: store_struct_def server_members_def optional_read_def field_for_member ice_fields_def store_ice_server_def no_ice_server_def
      get_strings_read unquote_escaped valid_server_def to_valid_Nil)

lemma get_servers_read: "get_server_elements (map read_server ss) [] = Some (map valid_server ss)"
  by (induction ss) (simp_all add: read_server_def store_server_read)

lemma decode_turn:
  assumes "tc_ICEServers c \<noteq> []" "\<forall>s \<in> set (tc_ICEServers c). ice_URLs s \<noteq> []" "0 \<le> year_of (tc_ExpiresAt c)" "year_of (tc_ExpiresAt c) \<le> 9999"
  shows "decodeJSON (store_struct store_turn turn_fields False) (marshal_turn c) no_credentials =
    Some \<lparr>tc_ExpiresAt = tc_ExpiresAt c, tc_ICEServers = map valid_server (tc_ICEServers c)\<rparr>"
proof -
  let ?t = "json_object (texts (turn_members c))"
  have "reads_free (Suc 0) (json_array (map fst (map read_server (tc_ICEServers c)))) (JArray (map read_server (tc_ICEServers c)))"
    using assms(1,2) free_server by (intro free_array) (auto simp: read_server_def max_nesting_def)
  then have "reads (Suc 0) (json_array (map marshal_ice_server (tc_ICEServers c))) (JArray (map read_server (tc_ICEServers c)))"
    by (intro free_reads) (simp add: comp_def read_server_def)
  then have "reads_free 0 ?t (JObject (turn_members c))"
    using turn_keys plain_time assms(3,4) reads_string
    by (intro free_object) (auto simp: turn_members_def string_member_def max_nesting_def)
  then have read: "skip_space (?t @ [CHR 0x0A]) = ?t @ [CHR 0x0A]"
    "parse_value (2 * length (?t @ [CHR 0x0A]) + 2) 0 (?t @ [CHR 0x0A]) = Some (JObject (turn_members c), [CHR 0x0A])"
    by (rule skip_space_free, rule free_value) simp
  have "marshal_turn c = ?t @ [CHR 0x0A]" by (simp add: marshal_turn_def turn_members_def string_member_def)
  then have "parse_json (marshal_turn c) = Some (JObject (turn_members c), [CHR 0x0A])"
    using read by (simp only: parse_json_def)
  then show ?thesis
    using turn_keys assms(3,4) parse_format_utc[of "tc_ExpiresAt c"]
    by (simp add: decodeJSON_def store_struct_def turn_members_def string_member_def field_for_member turn_fields_def store_turn_def
        no_credentials_def get_servers_read skip_space_def is_json_space_def)
qed

subsection \<open>Issued credentials reach the call\<close>

lemma strip_prefixes_keeps: "x \<in> set s \<Longrightarrow> \<forall>p \<in> set ps. x \<notin> set p \<Longrightarrow> x \<in> set (strip_prefixes n ps s)"
proof (induction n arbitrary: s)
  case (Suc n)
  show ?case
  proof (cases "List.find (\<lambda>p. prefix p s) ps")
    case (Some p)
    then have p: "p \<in> set ps" "prefix p s" by (auto simp: find_Some_iff)
    then have "x \<in> set (drop (length p) s)" using Suc.prems by (auto simp: prefix_def)
    from Suc.IH[OF this Suc.prems(2)] show ?thesis by (simp add: Some)
  qed (use Suc.prems in simp)
qed simp

lemma trim_space_object: "trim_space (CHR ''{'' # body) \<noteq> []"
proof -
  let ?s = "CHR ''{'' # body"
  let ?l = "strip_prefixes (length ?s) go_spaces ?s"
  have no: "\<forall>p \<in> set go_spaces. CHR ''{'' \<notin> set p" "\<forall>p \<in> set (map rev go_spaces). CHR ''{'' \<notin> set p"
    by (simp_all add: go_spaces_def)
  have "CHR ''{'' \<in> set ?s" by simp
  from strip_prefixes_keeps[OF this no(1)] have "CHR ''{'' \<in> set (rev ?l)" by (simp only: set_rev)
  from strip_prefixes_keeps[OF this no(2), of "length ?l"] have "CHR ''{'' \<in> set (trim_space ?s)"
    by (simp only: trim_space_def Let_def set_rev)
  then show ?thesis by auto
qed

lemma set_base64_std: "set (base64_std_encode s) \<subseteq> set base64_std_alphabet \<union> {CHR ''=''}"
proof -
  have size: "length base64_std_alphabet = 64" by code_simp
  have "base64_std_alphabet ! bits_val g \<in> set base64_std_alphabet" if "g \<in> set (chunks 6 (byte_bits s))" for g
    using bits_val_less[of g] chunks_lengths[OF that] size by (intro nth_mem) simp
  then show ?thesis
    unfolding base64_std_encode_def Let_def set_append set_map by (auto simp del: chunks.simps)
qed

lemma plain_base64_std: "plain_text (base64_std_encode s)"
proof -
  have "list_all (\<lambda>c. 0x20 \<le> code c \<and> code c < 0x80 \<and> c \<noteq> CHR 0x22 \<and> c \<noteq> CHR 0x5C) (CHR ''='' # base64_std_alphabet)" by code_simp
  then have "\<forall>c \<in> set base64_std_alphabet \<union> {CHR ''=''}. 0x20 \<le> code c \<and> code c < 0x80 \<and> c \<noteq> CHR 0x22 \<and> c \<noteq> CHR 0x5C"
    by (simp add: list_all_iff)
  with set_base64_std[of s] show ?thesis unfolding plain_text_def list_all_iff by blast
qed

lemma base64_std_nonempty: "length s = 20 \<Longrightarrow> base64_std_encode s \<noteq> []"
proof -
  assume "length s = 20"
  then have "length (byte_bits s) = 160" by (simp add: length_byte_bits)
  then have "length (chunks 6 (byte_bits s)) = 27" by (simp add: length_chunks del: chunks.simps)
  then have "chunks 6 (byte_bits s) \<noteq> []" by (metis length_0_conv zero_neq_numeral)
  then show ?thesis by (simp add: base64_std_encode_def Let_def del: chunks.simps)
qed

lemma plain_unix: "plain_text (format_unix t)" "format_unix t \<noteq> []"
  using plain_digits[OF plain_decimal] decimal_head by (auto simp: format_unix_def Let_def plain_text_def)

lemma urls_are_apart: "ValidSTUNURL u \<Longrightarrow> \<not> ValidTURNURL u"
  by (auto simp: ValidSTUNURL_def ValidTURNURL_def prefix_def)

text \<open>
  C13: A client with the server's access key shows it only over an encrypted connection or to its own
  host; the server grants it credentials, and these, written by the server and read by the client,
  give the call the server's relays with the user name and password that were issued, until they
  expire, also when only relays may be used.
\<close>

theorem issued_credentials_usable:
  assumes "gate_new key = Some key" "issuer_new cfg = Inr c" "credentials_request parse url_String False serverURL key = Inr rq"
    and "\<And>k m. length (hmac k m) = 20" "\<forall>u \<in> set (ic_URLs cfg) \<union> set (ic_STUNURLs cfg). valid_utf8 u"
    and "0 \<le> year_of (now + ic_TTL c)" "year_of (now + ic_TTL c) \<le> 9999"
  shows "\<exists>creds base. turn_handler hmac (Some key) (Some c) (tq_Authorization rq) now (Some subject) = Issued creds \<and>
    apiBase parse serverURL = Inr base \<and> (url_Scheme base = ''https'' \<or> local_hostname (url_Hostname base)) \<and>
    (length (marshal_turn creds) \<le> 65536 \<longrightarrow> (\<forall>later < now + ic_TTL c.
      prepareICEServers stunURLs key relayOnly (turn_answer_of (read_credentials (HttpResponse 200 (marshal_turn creds)))) later =
        Inr (iceServers stunURLs @ [List.last (tc_ICEServers creds)]) \<and> ice_URLs (List.last (tc_ICEServers creds)) = ic_URLs cfg))"
proof -
  define username where "username = format_unix (now + ic_TTL c) @ '':'' @ base64_url_encode subject"
  define credential where "credential = base64_std_encode (hmac (ic_Secret c) username)"
  define relay where "relay = \<lparr>ice_URLs = ic_URLs c, ice_Username = username, ice_Credential = credential\<rparr>"
  define creds where "creds = Issue hmac now (base64_url_encode subject) c"
  define stun where "stun = (if length (ic_STUNURLs c) \<noteq> 0 then [\<lparr>ice_URLs = ic_STUNURLs c, ice_Username = [], ice_Credential = []\<rparr>] else [])"
  note F = issuer_new_facts[OF assms(2)]
  have creds: "tc_ExpiresAt creds = now + ic_TTL c" "tc_ICEServers creds = stun @ [relay]"
    by (simp_all add: creds_def Issue_def Let_def stun_def relay_def username_def credential_def)
  have key: "key \<noteq> []" using assms(1) by (auto simp: gate_new_def split: if_splits)
  obtain base where base: "apiBase parse serverURL = Inr base" and header: "tq_Authorization rq = bearer @ key"
    using assms(3) key by (auto simp: credentials_request_def bearer_def split: sum.splits)
  have issued: "turn_handler hmac (Some key) (Some c) (tq_Authorization rq) now (Some subject) = Issued creds"
    using gate_exact[OF assms(1)] header by (simp add: turn_handler_def creds_def)
  have plain: "plain_text username" "plain_text credential"
    using plain_unix(1) plain_base64 plain_base64_std by (simp_all add: username_def credential_def plain_text_def)
  have nonempty: "username \<noteq> []" "credential \<noteq> []"
    using plain_unix(2) base64_std_nonempty[OF assms(4)] by (simp_all add: username_def credential_def)
  have same: "map to_valid (ic_URLs c) = ic_URLs c" "map to_valid (ic_STUNURLs c) = ic_STUNURLs c"
    using F assms(5) by (simp_all add: map_idI to_valid_valid)
  then have valid: "map valid_server (stun @ [relay]) = stun @ [relay]"
    using plain by (simp add: stun_def relay_def valid_server_def plain_valid to_valid_Nil)
  have urls: "\<forall>s \<in> set (stun @ [relay]). ice_URLs s \<noteq> []" using F by (auto simp: stun_def relay_def)
  have decoded: "decodeJSON (store_struct store_turn turn_fields False) (marshal_turn creds) no_credentials = Some creds"
    using decode_turn[of creds] creds valid urls assms(6,7) by simp
  have read: "read_credentials (HttpResponse 200 (marshal_turn creds)) = Credentials creds" if "length (marshal_turn creds) \<le> 65536"
    using decoded that trim_space_object by (simp add: read_credentials_def marshal_turn_def json_object_def)
  have turn: "filter ValidTURNURL (ic_URLs c) = ic_URLs c" using F by simp
  have "filter ValidTURNURL (ic_STUNURLs c) = []" using F urls_are_apart by (simp add: filter_empty_conv)
  then have usable: "usable_servers (stun @ [relay]) = Inr [relay]"
    using turn nonempty F by (simp add: stun_def relay_def)
  have relays: "list_ex ValidTURNURL (ice_URLs relay)"
    using F by (auto simp: relay_def list_ex_iff neq_Nil_conv)
  have "prepareICEServers stunURLs key relayOnly (turn_answer_of (read_credentials (HttpResponse 200 (marshal_turn creds)))) later =
      Inr (iceServers stunURLs @ [relay])" if "length (marshal_turn creds) \<le> 65536" "later < now + ic_TTL c" for later
    using read[OF that(1)] that(2) key creds usable relays by (simp add: prepareICEServers_def turn_answer_of_def)
  then show ?thesis
    using issued base apiBase_secure(1)[OF base] F creds(2) by (auto simp: relay_def)
qed

subsection \<open>A concrete answer\<close>

definition demo_api :: "string \<Rightarrow> api_url option" where
  "demo_api url = Some \<lparr>url_Scheme = ''wss'', url_Host = ''signal.example'', url_Hostname = ''signal.example'', url_Path = ''/v1/ws'',
     url_RawQuery = [], url_Fragment = []\<rparr>"

definition demo_hmac :: "string \<Rightarrow> string \<Rightarrow> string" where "demo_hmac key text = replicate 20 CHR ''h''"
definition demo_access_key :: string where "demo_access_key = ''correct horse battery staple''"

theorem issued_credentials_usable_witness:
  "\<exists>rq creds. credentials_request demo_api (\<lambda>u. url_Scheme u @ ''://'' @ url_Host u @ url_Path u) False ''wss://signal.example/v1/ws'' demo_access_key = Inr rq \<and>
     tq_URL rq = ''https://signal.example/v1/turn-credentials'' \<and>
     turn_handler demo_hmac (Some demo_access_key) (Some (demo_issuer\<lparr>ic_TTL := 10 * minute\<rparr>)) (tq_Authorization rq) unix_epoch (Some ''subject'') = Issued creds \<and>
     prepareICEServers [] demo_access_key True (turn_answer_of (read_credentials (HttpResponse 200 (marshal_turn creds)))) unix_epoch =
       Inr [List.last (tc_ICEServers creds)]"
proof -
  let ?url_String = "\<lambda>u. url_Scheme u @ ''://'' @ url_Host u @ url_Path u" and ?c = "demo_issuer\<lparr>ic_TTL := 10 * minute\<rparr>"
  have key: "gate_new demo_access_key = Some demo_access_key" by code_simp
  have new: "issuer_new demo_issuer = Inr ?c" by code_simp
  have suffixed: "trim_right CHR ''/'' (trim_suffix ''/v1/ws'' ''/v1/ws'') = []" by code_simp
  obtain rq where rq: "credentials_request demo_api ?url_String False ''wss://signal.example/v1/ws'' demo_access_key = Inr rq"
    "tq_URL rq = ''https://signal.example/v1/turn-credentials''"
    by (simp add: credentials_request_def apiBase_def demo_api_def Let_def suffixed)
  have years: "0 \<le> year_of (unix_epoch + ic_TTL ?c)" "year_of (unix_epoch + ic_TTL ?c) \<le> 9999" by code_simp+
  have urls: "\<forall>u \<in> set (ic_URLs demo_issuer) \<union> set (ic_STUNURLs demo_issuer). valid_utf8 u" by code_simp
  have mac: "length (demo_hmac k m) = 20" for k m by (simp add: demo_hmac_def)
  from issued_credentials_usable[where hmac = demo_hmac and subject = "''subject''" and stunURLs = "[]" and relayOnly = True, OF key new rq(1) mac urls years]
  obtain creds where creds: "turn_handler demo_hmac (Some demo_access_key) (Some ?c) (tq_Authorization rq) unix_epoch (Some ''subject'') = Issued creds"
    and usable: "length (marshal_turn creds) \<le> 65536 \<Longrightarrow> unix_epoch < unix_epoch + ic_TTL ?c \<Longrightarrow>
      prepareICEServers [] demo_access_key True (turn_answer_of (read_credentials (HttpResponse 200 (marshal_turn creds)))) unix_epoch =
        Inr (iceServers [] @ [List.last (tc_ICEServers creds)])"
    by blast
  have "creds = Issue demo_hmac unix_epoch (base64_url_encode ''subject'') ?c"
    using creds by (simp add: turn_handler_def split: if_splits)
  moreover have "length (marshal_turn (Issue demo_hmac unix_epoch (base64_url_encode ''subject'') ?c)) \<le> 65536"
    "unix_epoch < unix_epoch + ic_TTL ?c" by code_simp+
  ultimately have "prepareICEServers [] demo_access_key True (turn_answer_of (read_credentials (HttpResponse 200 (marshal_turn creds)))) unix_epoch =
        Inr [List.last (tc_ICEServers creds)]"
    using usable by (simp add: iceServers_def)
  with rq creds show ?thesis by blast
qed

end
