(* ===== verification/Video_Call.thy ===== *)
theory Video_Call
  imports Session Media
begin

text \<open>
  A call's video from the camera's pipe to the other end's decoder: the frames cut by
  \<open>media/gstreamer/camera.go\<close>, the conversion and encoding in the session loop of \<open>app/app.go\<close>, and the
  decoder of \<open>asciivideo/codec.go\<close>, put together.
\<close>

definition as_camera_frame :: "time \<Rightarrow> video_frame \<Rightarrow> camera_frame" where
  "as_camera_frame t f = \<lparr>vf_Pixels = cf_Pixels f, vf_Width = cf_Width f, vf_Height = cf_Height f, vf_Timestamp = t\<rparr>"

text \<open>A session that gets frames from its camera, each with its readings and its time.\<close>

fun camera_run :: "(session_readings \<times> time \<times> video_frame) list \<Rightarrow> session \<Rightarrow> session" where
  "camera_run [] s = s"
| "camera_run ((rd, t, f) # frames) s = camera_run frames (on_camera rd (Some (as_camera_frame t f)) s)"

fun video_data :: "session_effect list \<Rightarrow> byte list list" where
  "video_data [] = []"
| "video_data (VideoSent data # es) = data # video_data es"
| "video_data (e # es) = video_data es"

definition gray_picture :: "video_frame \<Rightarrow> byte list" where
  "gray_picture f = (case FromGray (cf_Pixels f) (cf_Width f) (cf_Height f) (cf_Width f) (cf_Height f div 2) of Inr cells \<Rightarrow> cells | Inl e \<Rightarrow> [])"

subsection \<open>Frames of a camera\<close>

lemma video_data_append [simp]: "video_data (a @ b) = video_data a @ video_data b"
  by (induction a rule: video_data.induct) simp_all

lemma camera_frames_whole:
  "f \<in> set (camera_frames width height s) \<Longrightarrow> cf_Width f = width \<and> cf_Height f = height \<and> length (cf_Pixels f) = nat (width * height)"
proof (induction width height s rule: camera_frames.induct)
  case (1 width height s)
  show ?case
  proof (cases "nat (width * height) = 0 \<or> length s < nat (width * height)")
    case False
    then have "f = \<lparr>cf_Pixels = take (nat (width * height)) s, cf_Width = width, cf_Height = height\<rparr> \<or>
        f \<in> set (camera_frames width height (drop (nat (width * height)) s))"
      using 1(2) by (subst (asm) camera_frames.simps) (simp add: Let_def)
    with 1(1)[OF refl False] False show ?thesis by auto
  qed (use 1(2) in \<open>subst (asm) camera_frames.simps, simp add: Let_def\<close>)
qed

lemma frame_of_more: "frame_of columns rows shown k data \<Longrightarrow> k < length shown \<Longrightarrow> frame_of columns rows (shown @ later) k data"
  by (auto simp: frame_of_def nth_append)

text \<open>Each frame has a picture of the size the camera was opened with.\<close>

lemma camera_picture:
  assumes "f \<in> set (camera_frames columns (rows * 2) s)" "validateDimensions columns rows"
  shows "FromGray (cf_Pixels f) (cf_Width f) (cf_Height f) (cf_Width f) (cf_Height f div 2) = Inr (gray_picture f)"
    "int (length (gray_picture f)) = columns * rows" "list_all printable (gray_picture f)"
proof -
  have f: "cf_Width f = columns" "cf_Height f = rows * 2" "int (length (cf_Pixels f)) = columns * (rows * 2)"
    using camera_frames_whole[OF assms(1)] assms(2) by (auto simp: validateDimensions_def)
  have "0 \<le> columns" "0 \<le> rows" using assms(2) by (auto simp: validateDimensions_def)
  from from_gray_accepted[OF f(3) this] f
  show "FromGray (cf_Pixels f) (cf_Width f) (cf_Height f) (cf_Width f) (cf_Height f div 2) = Inr (gray_picture f)"
    "int (length (gray_picture f)) = columns * rows" "list_all printable (gray_picture f)"
    by (auto simp: gray_picture_def)
qed

subsection \<open>From the camera to the wire\<close>

lemma camera_run_sends:
  assumes "se_encoder s = Some enc" "encoder_inv columns rows shown enc" "validateDimensions columns rows"
    and "\<forall>(rd, t, f) \<in> set input. f \<in> set (camera_frames columns (rows * 2) bytes)"
  shows "\<exists>data. video_data (se_out (camera_run input s)) = video_data (se_out s) @ data \<and>
    list_all2 (frame_of columns rows (shown @ map (\<lambda>(rd, t, f). gray_picture f) input)) [length shown ..< length shown + length input] data"
  using assms
proof (induction input arbitrary: s enc shown)
  case (Cons x input)
  obtain rd t f where x: "x = (rd, t, f)" by (cases x)
  have f: "f \<in> set (camera_frames columns (rows * 2) bytes)" using Cons.prems(4) by (simp add: x)
  note picture = camera_picture[OF f assms(3)]
  obtain enc' data where enc: "Encode (rr_now rd) (gray_picture f) t enc = (enc', Inr data)"
    "encoder_inv columns rows (shown @ [gray_picture f]) enc'" "frame_of columns rows (shown @ [gray_picture f]) (length shown) data"
    using Encode_step[OF Cons.prems(2) picture(2,3)] by blast
  let ?s = "on_camera rd (Some (as_camera_frame t f)) s"
  have s: "?s = emit (VideoSent data) (s\<lparr>se_encoder := Some enc'\<rparr>)"
    using Cons.prems(1) enc(1) picture(1) by (simp add: on_camera_def as_camera_frame_def)
  then have "se_encoder ?s = Some enc'" "video_data (se_out ?s) = video_data (se_out s) @ [data]" by (simp_all add: emit_def)
  moreover have "\<forall>(rd, t, f) \<in> set input. f \<in> set (camera_frames columns (rows * 2) bytes)" using Cons.prems(4) by simp
  ultimately obtain rest where "video_data (se_out (camera_run input ?s)) = video_data (se_out s) @ data # rest"
    "list_all2 (frame_of columns rows ((shown @ [gray_picture f]) @ map (\<lambda>(rd, t, f). gray_picture f) input))
       [Suc (length shown) ..< Suc (length shown) + length input] rest"
    using Cons.IH[of ?s enc' "shown @ [gray_picture f]", OF _ enc(2) assms(3)] by auto
  moreover have "frame_of columns rows (shown @ map (\<lambda>(rd, t, f). gray_picture f) (x # input)) (length shown) data"
    using frame_of_more[OF enc(3), of "map (\<lambda>(rd, t, f). gray_picture f) input"] by (simp add: x)
  moreover have "[length shown ..< length shown + length (x # input)] = length shown # [Suc (length shown) ..< Suc (length shown) + length input]"
    by (simp add: upt_conv_Cons del: upt_Suc)
  ultimately show ?case
    by (intro exI[of _ "data # rest"]) (simp add: x del: upt_Suc)
qed simp

lemma hello_opens_camera:
  assumes "\<not> se_camera s" "se_camera (on_hello rd hello s)"
  obtains columns rows fps enc where "se_out (on_hello rd hello s) = se_out s @ [CameraOpened columns rows fps]"
    "NewEncoder columns rows (2 * second) = Some enc" "se_encoder (on_hello rd hello s) = Some enc"
  using assms
  by (auto simp: on_hello_def session_return_def emit_def Let_def split: if_splits option.splits)

text \<open>
  C25: When a session opens its camera, the encoder it has just made fits the size the camera is opened
  with: of the frames cut from whatever the camera then delivers, each is converted and sent as one
  message, none is refused, and a new decoder that is given these messages in order shows exactly the
  pictures of the frames.
\<close>

theorem camera_pictures_arrive:
  assumes "\<not> se_camera s" "se_camera (on_hello rd hello s)"
  shows "\<exists>columns rows fps. se_out (on_hello rd hello s) = se_out s @ [CameraOpened columns rows fps] \<and>
    (\<forall>bytes input. map (\<lambda>(rd, t, f). f) input = camera_frames columns (rows * 2) bytes \<longrightarrow> length input < 2 ^ 32 \<longrightarrow>
      (\<exists>data. video_data (se_out (camera_run input (on_hello rd hello s))) = video_data (se_out s) @ data \<and> length data = length input \<and>
        list_all2 (exact_frame columns rows (map gray_picture (camera_frames columns (rows * 2) bytes))) [0 ..< length input] (decode_run new_decoder data)))"
proof -
  let ?s = "on_hello rd hello s"
  obtain columns rows fps enc where opened: "se_out ?s = se_out s @ [CameraOpened columns rows fps]"
    and enc: "NewEncoder columns rows (2 * second) = Some enc" "se_encoder ?s = Some enc"
    using hello_opens_camera[OF assms] by blast
  have dims: "validateDimensions columns rows" "encoder_inv columns rows [] enc"
    using enc(1) by (auto simp: NewEncoder_def encoder_inv_def split: if_splits)
  have "\<exists>data. video_data (se_out (camera_run input ?s)) = video_data (se_out s) @ data \<and> length data = length input \<and>
      list_all2 (exact_frame columns rows (map gray_picture (camera_frames columns (rows * 2) bytes))) [0 ..< length input] (decode_run new_decoder data)"
    if input: "map (\<lambda>(rd, t, f). f) input = camera_frames columns (rows * 2) bytes" "length input < 2 ^ 32" for bytes input
  proof -
    let ?shown = "map gray_picture (camera_frames columns (rows * 2) bytes)"
    have shown: "map (\<lambda>(rd, t, f). gray_picture f) input = ?shown" "length input = length ?shown"
      using arg_cong[OF input(1), of "map gray_picture"] arg_cong[OF input(1), of length] by (simp_all add: comp_def case_prod_unfold)
    have frames: "\<forall>(rd, t, f) \<in> set input. f \<in> set (camera_frames columns (rows * 2) bytes)"
      unfolding input(1)[symmetric] by force
    obtain data where data: "video_data (se_out (camera_run input ?s)) = video_data (se_out s) @ data"
      "list_all2 (frame_of columns rows ?shown) [0 ..< length ?shown] data"
      using camera_run_sends[OF enc(2) dims(2,1) frames] opened shown by auto
    have "shown_ok columns rows ?shown"
      using dims(1) input(2) shown(2) camera_picture by (auto simp: shown_ok_def)
    from decode_run_in_order[OF this, of 0 new_decoder data] data(2)
    have "list_all2 (exact_frame columns rows ?shown) [0 ..< length ?shown] (decode_run new_decoder data)"
      by (simp add: new_decoder_def)
    with data shown(2) list_all2_lengthD[OF data(2)] show ?thesis by auto
  qed
  with opened show ?thesis by blast
qed

subsection \<open>A small camera\<close>

definition demo_video :: session where
  "demo_video = session_start \<lparr>sc_audio = False, sc_video = True, sc_columns = 2, sc_rows = 1, sc_fps = 5, sc_reconnect = 0, sc_terminal = None\<rparr>
     RoleCaller [] [] False"

definition demo_peer_hello :: capabilities where "demo_peer_hello = se_capabilities demo_video"

definition demo_reads :: session_readings where
  "demo_reads = \<lparr>rr_now = 0, rr_uuid = [], rr_sends = True, rr_deferred = True, rr_queue = (\<lambda>_. None), rr_apply = (\<lambda>_. None),
     rr_restarts = True, rr_camera = True\<rparr>"

lemma demo_opens: "\<not> se_camera demo_video" "se_camera (on_hello demo_reads demo_peer_hello demo_video)"
  "se_out (on_hello demo_reads demo_peer_hello demo_video) = [CameraOpened 2 1 5]" "se_out demo_video = []"
  by code_simp+

theorem camera_pictures_arrive_witness:
  "let frame = \<lparr>cf_Pixels = [0, 255, 255, 255], cf_Width = 2, cf_Height = 2\<rparr>;
       data = video_data (se_out (camera_run [(demo_reads, second, frame)] (on_hello demo_reads demo_peer_hello demo_video)))
   in length data = 1 \<and> list_all2 (exact_frame 2 1 [gray_picture frame]) [0] (decode_run new_decoder data)"
proof -
  let ?f = "\<lparr>cf_Pixels = [0, 255, 255, 255], cf_Width = 2, cf_Height = 2\<rparr>"
  let ?input = "[(demo_reads, second, ?f)]"
  have frames: "camera_frames 2 (1 * 2) [0, 255, 255, 255, 7] = [?f]" by code_simp
  have input: "map (\<lambda>(rd, t, f). f) ?input = camera_frames 2 (1 * 2) [0, 255, 255, 255, 7]" "length ?input < 2 ^ 32"
    unfolding frames by simp_all
  from camera_pictures_arrive[OF demo_opens(1,2)] obtain columns rows fps where
    opened: "[CameraOpened 2 1 5] = [CameraOpened columns rows fps]" and
    run: "\<And>bytes input. map (\<lambda>(rd, t, f). f) input = camera_frames columns (rows * 2) bytes \<Longrightarrow> length input < 2 ^ 32 \<Longrightarrow>
      \<exists>data. video_data (se_out (camera_run input (on_hello demo_reads demo_peer_hello demo_video))) = data \<and> length data = length input \<and>
        list_all2 (exact_frame columns rows (map gray_picture (camera_frames columns (rows * 2) bytes))) [0 ..< length input] (decode_run new_decoder data)"
    unfolding demo_opens(3,4) by (auto simp: demo_opens(4))
  then have size: "columns = 2" "rows = 1" by simp_all
  from run[unfolded size, OF input] show ?thesis unfolding frames by (simp add: Let_def)
qed

end
