(* ===== verification/Daemon_Socket.thy ===== *)
theory Daemon_Socket
  imports Prelude
begin

text \<open>
  The daemon's socket file, \<open>listen\<close> and the end of \<open>Run\<close> in \<open>internal/client/daemon/daemon.go\<close>: a
  daemon takes over a socket nobody serves and leaves one that is served alone.  A file is a socket
  with the process that accepts on it, if any, and its permissions, or something else.
\<close>

subsection \<open>Taking the socket\<close>

record socket_node =
  sn_owner :: "nat option"
  sn_perm :: nat

datatype node = Socket socket_node | OtherFile

datatype listen_error = NoDirectory | NotASocket | AlreadyRunning | NotRemoved | NotInspected | NotBound | NotRestricted

text \<open>
  What the system answers: whether the directory can be made and restricted, whether \<open>Lstat\<close> fails on
  a file that may be there, whether connecting succeeds though nobody serves, and whether removing,
  binding and restricting fail.
\<close>

record listen_readings =
  lr_directory :: bool
  lr_lstat_fails :: bool
  lr_remove_fails :: bool
  lr_bind_fails :: bool
  lr_chmod_fails :: bool

text \<open>
  Inspecting the path: \<open>None\<close> when it is free, otherwise whether what is there is to be removed.  A
  socket that is served accepts a connection at once, one that is not refuses it.
\<close>

definition inspect_socket :: "listen_readings \<Rightarrow> node option \<Rightarrow> listen_error + bool" where
  "inspect_socket rd n = (
     if \<not> lr_directory rd then Inl NoDirectory
     else if lr_lstat_fails rd then Inl NotInspected
     else (case n of
         None \<Rightarrow> Inr False
       | Some OtherFile \<Rightarrow> Inl NotASocket
       | Some (Socket sn) \<Rightarrow> if sn_owner sn \<noteq> None then Inl AlreadyRunning else Inr True))"

text \<open>\<open>os.Remove\<close>, of whatever is at the path by then.\<close>

definition remove_socket :: "listen_readings \<Rightarrow> node option \<Rightarrow> listen_error option \<times> node option" where
  "remove_socket rd n = (if lr_remove_fails rd \<or> n = None then (Some NotRemoved, n) else (None, None))"

text \<open>\<open>net.Listen\<close> fails on a path that exists; closing the listener again removes its file.\<close>

definition bind_socket :: "listen_readings \<Rightarrow> nat \<Rightarrow> node option \<Rightarrow> listen_error option \<times> node option" where
  "bind_socket rd p n = (
     if lr_bind_fails rd \<or> n \<noteq> None then (Some NotBound, n)
     else if lr_chmod_fails rd then (Some NotRestricted, None)
     else (None, Some (Socket \<lparr>sn_owner = Some p, sn_perm = 0x180\<rparr>)))"

definition socket_listen :: "listen_readings \<Rightarrow> nat \<Rightarrow> node option \<Rightarrow> listen_error option \<times> node option" where
  "socket_listen rd p n = (case inspect_socket rd n of
       Inl e \<Rightarrow> (Some e, n)
     | Inr stale \<Rightarrow>
         if stale then (case remove_socket rd n of
             (Some e, n) \<Rightarrow> (Some e, n)
           | (None, n) \<Rightarrow> bind_socket rd p n)
         else bind_socket rd p n)"

text \<open>The deferred end of \<open>Run\<close>: closing the listener, and then \<open>os.Remove\<close>, remove what is at the path.\<close>

definition socket_close :: "node option \<Rightarrow> node option" where
  "socket_close n = None"

text \<open>A process that dies without its deferred calls leaves its socket behind, served by nobody.\<close>

definition socket_abandon :: "nat \<Rightarrow> node option \<Rightarrow> node option" where
  "socket_abandon p n = (case n of
       Some (Socket sn) \<Rightarrow> if sn_owner sn = Some p then Some (Socket (sn\<lparr>sn_owner := None\<rparr>)) else n
     | _ \<Rightarrow> n)"

subsection \<open>Daemons one after the other\<close>

text \<open>The path and the daemons that run.  Every \<open>listen\<close> is done when the next one starts.\<close>

type_synonym socket_state = "node option \<times> nat set"

inductive socket_step :: "socket_state \<Rightarrow> socket_state \<Rightarrow> bool" where
  starts: "p \<notin> ds \<Longrightarrow> socket_listen rd p n = (None, n') \<Longrightarrow> socket_step (n, ds) (n', insert p ds)"
| refused: "p \<notin> ds \<Longrightarrow> socket_listen rd p n = (Some e, n') \<Longrightarrow> socket_step (n, ds) (n', ds)"
| ends: "p \<in> ds \<Longrightarrow> socket_step (n, ds) (socket_close n, ds - {p})"
| dies: "p \<in> ds \<Longrightarrow> socket_step (n, ds) (socket_abandon p n, ds - {p})"

inductive_cases socket_stepE: "socket_step s s'"

text \<open>Nobody runs without the socket: the one daemon there may be is the one that serves it.\<close>

definition one_daemon :: "socket_state \<Rightarrow> bool" where
  "one_daemon s \<longleftrightarrow> (case s of (n, ds) \<Rightarrow>
     (case n of
        Some (Socket sn) \<Rightarrow> (case sn_owner sn of Some p \<Rightarrow> ds = {p} | None \<Rightarrow> ds = {})
      | _ \<Rightarrow> ds = {}))"

lemma listen_taken:
  assumes "socket_listen rd p n = (None, n')"
  shows "n' = Some (Socket \<lparr>sn_owner = Some p, sn_perm = 0x180\<rparr>) \<and> (n = None \<or> (\<exists>sn. n = Some (Socket sn) \<and> sn_owner sn = None))"
  using assms
  by (auto simp: socket_listen_def inspect_socket_def remove_socket_def bind_socket_def split: option.splits node.splits if_splits)

lemma listen_refused:
  assumes "socket_listen rd p n = (Some e, n')"
  shows "n' = n \<or> n' = None \<and> (n = None \<or> (\<exists>sn. n = Some (Socket sn) \<and> sn_owner sn = None))"
  using assms
  by (auto simp: socket_listen_def inspect_socket_def remove_socket_def bind_socket_def split: option.splits node.splits if_splits)

lemma one_daemon_step: "socket_step s s' \<Longrightarrow> one_daemon s \<Longrightarrow> one_daemon s'"
proof (induction rule: socket_step.induct)
  case (starts p ds rd n n')
  with listen_taken[OF starts(2)] show ?case by (auto simp: one_daemon_def)
next
  case (refused p ds rd n e n')
  with listen_refused[OF refused(2)] show ?case by (auto simp: one_daemon_def)
next
  case (ends p ds n)
  then show ?case by (auto simp: one_daemon_def socket_close_def split: option.splits node.splits)
next
  case (dies p ds n)
  then show ?case by (auto simp: one_daemon_def socket_abandon_def split: option.splits node.splits if_splits)
qed


definition no_listen_faults :: listen_readings where
  "no_listen_faults = \<lparr>lr_directory = True, lr_lstat_fails = False, lr_remove_fails = False, lr_bind_fails = False, lr_chmod_fails = False\<rparr>"


subsection \<open>Daemons that start at the same time\<close>

text \<open>
  The order matters: when two daemons have both found the socket of a dead one before either removes it,
  the second removes the socket the first has just bound.  Both then run, the first with a socket no
  window can reach, and when it ends it removes the second's.
\<close>

lemma simultaneous_daemons:
  assumes "n = Some (Socket \<lparr>sn_owner = None, sn_perm = perm\<rparr>)"
  shows "inspect_socket no_listen_faults n = Inr True \<and>
    (let (e1, n1) = remove_socket no_listen_faults n; (e2, n2) = bind_socket no_listen_faults 1 n1;
         (e3, n3) = remove_socket no_listen_faults n2; (e4, n4) = bind_socket no_listen_faults 2 n3
     in [e1, e2, e3, e4] = [None, None, None, None] \<and> n2 = Some (Socket \<lparr>sn_owner = Some 1, sn_perm = 0x180\<rparr>) \<and>
        n4 = Some (Socket \<lparr>sn_owner = Some 2, sn_perm = 0x180\<rparr>) \<and> socket_close n4 = None)"
  using assms by (simp add: inspect_socket_def remove_socket_def bind_socket_def socket_close_def no_listen_faults_def)

end
