(* ===== verification/User_Interface.thy ===== *)
theory User_Interface
  imports Terminal
begin

text \<open>
  The life of the user interface, \<open>internal/client/terminal/terminal.go\<close>: entering and leaving raw mode and
  the alternate screen, where texts are written, and the lines the user types, from a pipe
  (\<open>bufio.Scanner\<close>) or from the line editor.  What the system answers is a reading; what is written is
  kept in order.
\<close>

subsection \<open>The screen\<close>

definition escaped :: "string \<Rightarrow> string" where "escaped s = CHR 0x1B # s"

definition enterScreen :: string where
  "enterScreen = escaped ''[?1049h'' @ escaped ''[2J'' @ escaped ''[H''"

definition leaveScreen :: string where
  "leaveScreen = concat (map escaped [''[0m'', ''[?25h'', ''[?1000l'', ''[?1002l'', ''[?1003l'', ''[?1006l'', ''[?1049l''])"

datatype terminal_mode = Original | Raw

record user_interface =
  ui_interactive :: bool
  ui_mode :: terminal_mode
  ui_restored :: bool
  ui_output :: "string list"
  ui_errors :: "string list"

record ui_readings =
  ur_files :: bool
  ur_terminals :: bool
  ur_raw :: bool
  ur_signals :: bool

definition ui_New :: "ui_readings \<Rightarrow> user_interface" where
  "ui_New rd = (
     let u = \<lparr>ui_interactive = False, ui_mode = Original, ui_restored = False, ui_output = [], ui_errors = []\<rparr> in
     if \<not> ur_files rd then u
     else if \<not> ur_terminals rd then u
     else if \<not> ur_raw rd then u
     else
       let raw = u\<lparr>ui_mode := Raw\<rparr> in
       if \<not> ur_signals rd then raw\<lparr>ui_mode := Original\<rparr>
       else raw\<lparr>ui_interactive := True, ui_output := [enterScreen]\<rparr>)"

text \<open>The old state is there exactly for an interactive terminal.\<close>

definition ui_Restore :: "user_interface \<Rightarrow> user_interface" where
  "ui_Restore u = (
     if ui_restored u then u
     else
       let u = u\<lparr>ui_restored := True\<rparr> in
       if ui_interactive u then u\<lparr>ui_mode := Original, ui_output := ui_output u @ [leaveScreen]\<rparr> else u)"

definition ui_write :: "bool \<Rightarrow> string \<Rightarrow> user_interface \<Rightarrow> user_interface" where
  "ui_write to_errors message u = (
     if ui_interactive u then u\<lparr>ui_output := ui_output u @ [message]\<rparr>
     else if to_errors then u\<lparr>ui_errors := ui_errors u @ [message]\<rparr>
     else u\<lparr>ui_output := ui_output u @ [message]\<rparr>)"

definition ui_System :: "string \<Rightarrow> user_interface \<Rightarrow> user_interface" where
  "ui_System message = ui_write False (''[system] '' @ message @ [CHR 0x0A])"

definition ui_Prompt :: "string \<Rightarrow> user_interface \<Rightarrow> user_interface" where
  "ui_Prompt message = ui_write False message"

definition ui_Error :: "string \<Rightarrow> user_interface \<Rightarrow> user_interface" where
  "ui_Error message = ui_write True (''[error] '' @ message @ [CHR 0x0A])"

text \<open>\<open>width\<close> is what \<open>GetSize\<close> returns, which only an interactive terminal is asked for.\<close>

definition ui_Local :: "int option \<Rightarrow> string \<Rightarrow> user_interface \<Rightarrow> user_interface" where
  "ui_Local width message u = ui_write False (ui_local (if ui_interactive u then width else None) message) u"

definition ui_Remote :: "string \<Rightarrow> string \<Rightarrow> user_interface \<Rightarrow> user_interface" where
  "ui_Remote username message = ui_write False (ui_remote username message)"

datatype ui_call = SystemText string | PromptText string | ErrorText string | LocalText "int option" string | RemoteText string string

fun ui_step :: "ui_call \<Rightarrow> user_interface \<Rightarrow> user_interface" where
  "ui_step (SystemText m) u = ui_System m u"
| "ui_step (PromptText m) u = ui_Prompt m u"
| "ui_step (ErrorText m) u = ui_Error m u"
| "ui_step (LocalText width m) u = ui_Local width m u"
| "ui_step (RemoteText username m) u = ui_Remote username m u"

lemma ui_step_writes:
  "\<exists>out errs. ui_output (ui_step c u) = ui_output u @ out \<and> ui_errors (ui_step c u) = ui_errors u @ errs \<and> (ui_interactive u \<longrightarrow> errs = [])"
  "ui_interactive (ui_step c u) = ui_interactive u" "ui_mode (ui_step c u) = ui_mode u" "ui_restored (ui_step c u) = ui_restored u"
  by (cases c; simp add: ui_System_def ui_Prompt_def ui_Error_def ui_Local_def ui_Remote_def ui_write_def)+

lemma ui_run_writes:
  "\<exists>out errs. ui_output (fold ui_step cs u) = ui_output u @ out \<and> ui_errors (fold ui_step cs u) = ui_errors u @ errs \<and> (ui_interactive u \<longrightarrow> errs = [])"
  "ui_interactive (fold ui_step cs u) = ui_interactive u" "ui_mode (fold ui_step cs u) = ui_mode u" "ui_restored (fold ui_step cs u) = ui_restored u"
proof (induction cs arbitrary: u)
  case (Cons c cs)
  {
    case 1
    from Cons.IH(1)[of "ui_step c u"] ui_step_writes(1,2)[of c u] show ?case by fastforce
  next
    case 2
    then show ?case using Cons.IH(2) ui_step_writes(2) by simp
  next
    case 3
    then show ?case using Cons.IH(3) ui_step_writes(3) by simp
  next
    case 4
    then show ?case using Cons.IH(4) ui_step_writes(4) by simp
  }
qed simp_all

text \<open>
  However many texts are shown, and on whatever path the program ends, the deferred restore leaves the
  terminal in its original mode; an interactive one has entered the alternate screen first and left it
  last, and restoring again does nothing.
\<close>

theorem terminal_left_as_found:
  "let u = ui_Restore (fold ui_step cs (ui_New rd)) in
     ui_mode u = Original \<and> ui_Restore u = u \<and>
     (if ui_interactive u then \<exists>out. ui_output u = enterScreen # out @ [leaveScreen] \<and> ui_errors u = []
      else enterScreen \<notin> set (ui_output (ui_New rd)))"
proof -
  let ?u = "fold ui_step cs (ui_New rd)"
  note run = ui_run_writes[of cs "ui_New rd"]
  have new: "\<not> ui_restored (ui_New rd)" "ui_interactive (ui_New rd) \<Longrightarrow> ui_output (ui_New rd) = [enterScreen] \<and> ui_errors (ui_New rd) = []"
    "\<not> ui_interactive (ui_New rd) \<Longrightarrow> ui_mode (ui_New rd) = Original \<and> ui_output (ui_New rd) = []"
    by (simp_all add: ui_New_def Let_def split: if_splits)
  show ?thesis
  proof (cases "ui_interactive (ui_New rd)")
    case True
    with run(1) new(2) obtain out where "ui_output ?u = enterScreen # out" "ui_errors ?u = []" by auto
    then show ?thesis using True run(2,4) new(1) by (simp add: ui_Restore_def Let_def)
  next
    case False
    then show ?thesis using run(2-4) new(1,3) by (simp add: ui_Restore_def Let_def)
  qed
qed

subsection \<open>Lines from a pipe\<close>

datatype typed_line = TypedText string | TypedError

definition drop_return :: "string \<Rightarrow> string" where
  "drop_return l = (if l \<noteq> [] \<and> List.last l = CHR 0x0D then butlast l else l)"

text \<open>
  The scanner's tokens: lines without their end, an error for one that fills the buffer of 8192 bytes, and
  at the end of the input what is left; \<open>fails\<close> tells whether reading ends in an error.
\<close>

function scan_lines :: "bool \<Rightarrow> string \<Rightarrow> typed_line list" where
  "scan_lines fails s = (
     let l = takeWhile (\<lambda>c. c \<noteq> CHR 0x0A) s in
     if length l \<ge> 8192 then [TypedError]
     else if length l < length s then TypedText (drop_return l) # scan_lines fails (drop (Suc (length l)) s)
     else (if s = [] then [] else [TypedText (drop_return s)]) @ (if fails then [TypedError] else []))"
  by pat_completeness auto
termination by (relation "measure (length \<circ> snd)") auto

declare scan_lines.simps [simp del]

text \<open>Lines from the editor: a paste marker is no error, the end of the input ends the lines.  The
  editor's own echo of a line, which \<open>terminalLines\<close> erases, is no text of the program and is left out.\<close>

datatype editor_read = ReadLine string | ReadPaste string | ReadEnd | ReadError

fun terminal_lines :: "editor_read list \<Rightarrow> typed_line list" where
  "terminal_lines [] = []"
| "terminal_lines (ReadLine t # rs) = TypedText t # terminal_lines rs"
| "terminal_lines (ReadPaste t # rs) = TypedText t # terminal_lines rs"
| "terminal_lines (ReadEnd # rs) = []"
| "terminal_lines (ReadError # rs) = [TypedError]"

definition ordinary_line :: "string \<Rightarrow> bool" where
  "ordinary_line t \<longleftrightarrow> CHR 0x0A \<notin> set t \<and> length t < 8192 \<and> (t = [] \<or> List.last t \<noteq> CHR 0x0D)"

lemma scan_one:
  assumes "ordinary_line t"
  shows "scan_lines fails (t @ CHR 0x0A # s) = TypedText t # scan_lines fails s"
proof -
  have "takeWhile (\<lambda>c. c \<noteq> CHR 0x0A) (t @ CHR 0x0A # s) = t"
    using assms by (auto simp: ordinary_line_def takeWhile_append)
  then show ?thesis
    using assms by (subst scan_lines.simps) (auto simp: ordinary_line_def drop_return_def Let_def)
qed

text \<open>What is typed line by line is what the call is given, up to the first line that is too long.\<close>

theorem typed_lines_read:
  assumes "list_all ordinary_line ts"
  shows "scan_lines False (concat (map (\<lambda>t. t @ [CHR 0x0A]) ts)) = map TypedText ts"
  using assms by (induction ts) (simp_all add: scan_one scan_lines.simps[of _ "[]"])

theorem typed_lines_read_witness: "scan_lines False ''hi'' = [TypedText ''hi''] \<and>
  scan_lines False (concat (map (\<lambda>t. t @ [CHR 0x0A]) [''hello'', [], ''/quit''])) = map TypedText [''hello'', [], ''/quit'']"
proof
  show "scan_lines False ''hi'' = [TypedText ''hi'']" by (simp add: scan_lines.simps drop_return_def)
  show "scan_lines False (concat (map (\<lambda>t. t @ [CHR 0x0A]) [''hello'', [], ''/quit''])) = map TypedText [''hello'', [], ''/quit'']"
    by (rule typed_lines_read) (simp add: ordinary_line_def)
qed

end
