(* ===== verification/Spec2Isabelle.thy ===== *)
theory Spec2Isabelle
  imports Server_Properties Server_Command Command_Line Session_Entry Session_End Turn_Client Video_Call Daemon_Socket User_Interface
begin

text \<open>
  TermCall: a signaling server (\<open>cmd/termcall-signald\<close>) and a terminal client (\<open>cmd/termcall\<close>) for
  encrypted calls with text, audio and ASCII video.

  \<^bold>\<open>The program.\<close>  A user has an Ed25519 identity; the user's address is a chosen name followed by the
  first letters of the key's fingerprint.  A client connects to the signaling server over a WebSocket,
  shows the access key, and sends a signed hello; the server binds the address to the key and then
  forwards messages between addresses: presence queries, invitations with a signed proof, acceptances,
  and the WebRTC negotiation.  Invitations arrive at a \<open>listen\<close> command or at a background daemon, which
  opens a terminal window and hands the call over to it through a local socket.  Both ends check each
  other's proof against a replay guard and a trust store, negotiate a peer connection, and then talk
  directly: control messages on a reliable channel, video frames on a lossy one, audio as RTP.

  \<^bold>\<open>Which theory models what.\<close>  Theories follow the packages; names are those of the source where that is
  possible, otherwise with a prefix of the component.

  \<^item> Shared: \<open>Prelude\<close> (time, collections of rules), \<open>Encoding\<close> (byte strings, base64, base32, the parts of
    \<open>strings\<close> that are used), \<open>Time_Format\<close> (RFC 3339 in Go's calendar), \<open>Json\<close> and \<open>Json_Text\<close> (reading and
    writing JSON as \<open>encoding/json\<close> does), \<open>Flags\<close> (\<open>flag.FlagSet\<close>, \<open>strconv.ParseInt\<close>).
  \<^item> \<open>internal/protocol\<close>: \<open>Signal_Types\<close> (message kinds, limits, structs), \<open>Address\<close> (names, addresses, URLs,
    with a matcher for the regular expressions), \<open>Validation\<close> (\<open>DecodeSignal\<close>, \<open>ValidateSignal\<close>,
    \<open>DecodeControl\<close>, \<open>ValidateControl\<close>).
  \<^item> \<open>internal/identity\<close>: \<open>Identity\<close> (keys, files, addresses, \<open>Sign\<close>, \<open>Verify\<close>, \<open>SafetyCode\<close>), \<open>Replay\<close>
    (\<open>ReplayGuard\<close>), \<open>Trust\<close> (\<open>TrustStore\<close>).
  \<^item> \<open>internal/server\<close>: \<open>Calls\<close> (\<open>calls.Manager\<close>), \<open>Presence\<close>, \<open>Rate_Limit\<close>, \<open>Dedup\<close> and \<open>Connection\<close> (one
    client's queue and limits), \<open>Access_Turn\<close> (\<open>access.Gate\<close>, \<open>turn.Issuer\<close>, \<open>httpapi\<close>), \<open>Server\<close>
    (\<open>websocket.Server\<close>: handshake, dispatch of every message, disconnect, sweep, shutdown), with
    \<open>Server_Safety\<close> and \<open>Server_Properties\<close> over its reachable states; \<open>Server_Command\<close> is
    \<open>cmd/termcall-signald/main.go\<close> up to listening.
  \<^item> \<open>internal/client\<close>: \<open>Signaling_Client\<close> (\<open>signaling.Client\<close>), \<open>Handshake\<close> (that client against the
    server), \<open>Peer\<close> (\<open>peer.Connection\<close>), \<open>Ascii_Codec\<close> (\<open>asciivideo\<close>), \<open>Terminal\<close> (\<open>terminal.UI\<close>: texts and the
    video display) and \<open>User_Interface\<close> (its screen and the lines it reads), \<open>Media\<close>
    (\<open>media/gstreamer\<close>), \<open>Call_Setup\<close> (\<open>RunChat\<close>, \<open>RunListen\<close>, \<open>answerInvitation\<close>,
    \<open>prepareICEServers\<close>), \<open>Session_Entry\<close>, \<open>Session\<close>, \<open>Session_Properties\<close> and \<open>Session_End\<close>
    (\<open>runSession\<close>), \<open>Video_Call\<close> (camera, session and decoder together), \<open>Daemon\<close> and
    \<open>Daemon_Client\<close> (\<open>daemon.Run\<close> and the window's end of its socket), \<open>Daemon_Socket\<close> (taking over the
    socket file), \<open>Launcher\<close>, \<open>Profile\<close>, \<open>Turn_Client\<close>.
  \<^item> \<open>cmd/termcall/main.go\<close>: \<open>Init_Command\<close> (\<open>runInit\<close>, \<open>loadProfileIdentity\<close>) and \<open>Command_Line\<close> (every other
    command up to where a daemon or a call takes over).

  \<^bold>\<open>State and steps.\<close>  A struct is a record, an enumeration a datatype, a handler a function from the state
  to the state.  What runs concurrently in Go is one function per handler, each atomic: the handlers of
  the server, the daemon and the peer hold their mutex for their work on shared tables, so that a run is a
  sequence of handler calls in any order; reachable states are inductive predicates (\<open>manager_reachable\<close>,
  \<open>server_reachable\<close>, \<open>daemon_reachable\<close>) or folds over lists of events (the session, the call
  set-up).  What a step reads from outside is a record of readings or an argument: the clock, random
  identifiers, whether a write succeeds, the order in which Go iterates over a map, what the operating
  system's files hold and which of its calls fail.  Errors are values of a sum or an option; the text of
  an error is left out unless something depends on it.  Channels and queues are lists with their bound.
  Frame numbers of the video are 32-bit words that wrap, as in the code, and so are the sizes on the
  wire; other integers of the code are compared with small limits before they are used and are \<open>int\<close>.

  \<^bold>\<open>What is shown.\<close>  The server: one live call per user, the exact effect of every transition and of the
  sweep, who is served under which address, that nobody speaks in another's name, that queues are
  bounded, that a disconnect frees its partner, and when it starts without a key.  Identity: what verifies was
  signed for this message by the address's key and is accepted once; the trust store changes a decision
  only on the user's word, and a block is obeyed.  Messages: what is decoded satisfies the checks, and
  what is written is read back, for signals, proofs, identities, profiles, negotiation and TURN
  credentials.  The client: a callee's media start only for a proved invitation the user accepted; a
  session tells its partner of its end once, survives the loss of signaling, ends when a lost connection
  does not come back, and sends no audio when muted; candidates wait for the description; one daemon owns
  the socket, admits what a call would admit, hands each call to one window and passes on only that window's signals; texts are safe to show, the video that is
  shown is the video that was sent, also under loss and reordering; \<open>init\<close> leaves a profile every command
  can use.  Contracts between components are locales, interpreted on the model's own definitions:
  \<open>call_service\<close> (the call manager as the server uses it), \<open>name_table\<close> (the registry), \<open>id_window\<close> (duplicate
  filters of connection and peer), \<open>window_limiter\<close> (both rate limiters), \<open>single_use\<close> (the replay guard) and
  \<open>signal_session\<close> (the interface a call uses, implemented by the server connection and the daemon's socket).

  \<^bold>\<open>Fuel and termination.\<close>  The JSON parser takes fuel, \<open>2 * length s + 2\<close> for a text \<open>s\<close>; \<open>parse_fuel\<close> proves
  that more changes nothing.  All other recursions terminate by a measure on their input; in
  particular \<open>parse_flags\<close> on the arguments, \<open>capture_packets\<close> and \<open>camera_frames\<close> on the bytes of a pipe.
  Loops that serve for ever (\<open>serve\<close>, \<open>readLoop\<close>, \<open>Run\<close>, \<open>runSession\<close>) are modelled by one round each.
  Frame numbers repeat after \<open>2 ^ 32\<close> frames: the theorems on video are about shorter streams.

  \<^bold>\<open>Parameters.\<close>  Code outside the repository is an argument: SHA-256 and Ed25519 (record \<open>crypto\<close>, with
  \<open>crypto_laws\<close> stating lengths and that a signature verifies), HMAC-SHA1, Pion's peer connection (record of
  functions in \<open>Peer\<close>) and RTP packets (\<open>rtp_codec\<close>, \<open>rtp_laws\<close>), and of the standard library only
  \<open>url.Parse\<close>, \<open>url.URL.String\<close>, \<open>time.ParseDuration\<close> and whether an IPv6 text is a loopback address.  No law
  says that signatures cannot be forged: theorems about proofs state what was checked.

  \<^bold>\<open>Not modelled.\<close>  The WebSocket, HTTP, TLS, DTLS and process machinery; how the terminal's raw mode
  and its line editor work; audio device listing and the plugin self-test (\<open>diagnostics\<close>, \<open>requireAudioRuntime\<close>); the default paths; texts printed for the user and log
  records; version information.  These only call the system or print.  A data race is outside the model, as is
  the memory the program uses; a trust file is modelled by what its JSON decodes to.
\<close>

end
